(* ===== verification/Prelude.thy ===== *)
theory Prelude
  imports Main "HOL-Library.Word" "HOL-Library.Char_ord" "HOL-Library.List_Lexorder"
begin

text \<open>
  What the components share: the theorem collections the component proofs draw on,
  the gRPC status of a call, and the two ordered containers of the C++ standard library
  the program uses.  \<open>std::set\<close> with a comparison on a key is \<open>oset_insert\<close> on lists
  that are strictly ascending in the key (an insertion of an element whose key is present
  changes nothing, as in C++); \<open>std::map\<close> is \<open>omap_put\<close> and \<open>omap_erase\<close> on
  association lists that are strictly ascending in the key.  The list order is the
  iteration order of the container.
\<close>

named_theorems ring_simps \<open>rewriting of ring intervals to positions\<close>
named_theorems router_inv \<open>preservation of the router's invariant\<close>

subsection \<open>Status of a remote call\<close>

datatype status_code =
    OK | CANCELLED | UNKNOWN | INVALID_ARGUMENT | DEADLINE_EXCEEDED | NOT_FOUND
  | ALREADY_EXISTS | FAILED_PRECONDITION | INTERNAL | UNAVAILABLE

subsection \<open>Ordered sets\<close>

fun oset_insert :: "('a \<Rightarrow> 'k::linorder) \<Rightarrow> 'a \<Rightarrow> 'a list \<Rightarrow> 'a list" where
  "oset_insert k x [] = [x]"
| "oset_insert k x (y # ys) =
     (if k x < k y then x # y # ys
      else if k x = k y then y # ys
      else y # oset_insert k x ys)"

definition oset_wf :: "('a \<Rightarrow> 'k::linorder) \<Rightarrow> 'a list \<Rightarrow> bool" where
  "oset_wf k xs = sorted_wrt (<) (map k xs)"

lemma oset_wf_simps [simp]:
  "oset_wf k []"
  "oset_wf k (x # xs) = ((\<forall>y\<in>set xs. k x < k y) \<and> oset_wf k xs)"
  by (auto simp: oset_wf_def)

lemma oset_insert_keys: "k ` set (oset_insert k x xs) = insert (k x) (k ` set xs)"
  by (induction xs) auto

lemma oset_insert_set: "set (oset_insert k x xs) \<subseteq> insert x (set xs)"
  by (induction xs) auto

lemma oset_insert_keeps: "set xs \<subseteq> set (oset_insert k x xs)"
  by (induction xs) auto

lemma oset_insert_new: "k x \<notin> k ` set xs \<Longrightarrow> set (oset_insert k x xs) = insert x (set xs)"
  by (induction xs) auto

lemma oset_insert_above [simp]:
  "(\<forall>y\<in>set (oset_insert k x xs). c < k y) \<longleftrightarrow> c < k x \<and> (\<forall>y\<in>set xs. c < k y)"
proof -
  have "(\<forall>y\<in>set (oset_insert k x xs). c < k y) \<longleftrightarrow> (\<forall>j\<in>k ` set (oset_insert k x xs). c < j)"
    by simp
  then show ?thesis by (simp only: oset_insert_keys) simp
qed

lemma oset_insert_wf [simp]: "oset_wf k xs \<Longrightarrow> oset_wf k (oset_insert k x xs)"
proof (induction xs)
  case (Cons y ys)
  show ?case
  proof (cases "k x" "k y" rule: linorder_cases)
    case less
    then show ?thesis using Cons.prems by (simp add: less_trans [OF less])
  next
    case greater
    then show ?thesis using Cons less_not_sym [OF greater] by simp
  qed (use Cons in simp)
qed simp

lemma oset_insert_nonempty [simp]: "oset_insert k x xs \<noteq> []"
  by (cases xs) auto

lemma oset_wf_inj:
  assumes "oset_wf k xs" "x \<in> set xs" "y \<in> set xs" "k x = k y"
  shows "x = y"
proof -
  from assms(1) have "inj_on k (set xs)"
    by (simp add: oset_wf_def strict_sorted_iff distinct_map)
  then show ?thesis using assms(2-4) by (simp add: inj_on_def)
qed

text \<open>A set built from a range of elements, first come first kept.\<close>

definition oset_of :: "('a \<Rightarrow> 'k::linorder) \<Rightarrow> 'a list \<Rightarrow> 'a list" where
  "oset_of k xs = fold (oset_insert k) xs []"

lemma fold_oset_insert_keys:
  "k ` set (fold (oset_insert k) xs acc) = k ` set xs \<union> k ` set acc"
  by (induction xs arbitrary: acc) (auto simp: oset_insert_keys)

lemma fold_oset_insert_set: "set (fold (oset_insert k) xs acc) \<subseteq> set xs \<union> set acc"
proof (induction xs arbitrary: acc)
  case (Cons x xs)
  then show ?case using oset_insert_set [of k x acc] by fastforce
qed simp

lemma fold_oset_insert_wf: "oset_wf k acc \<Longrightarrow> oset_wf k (fold (oset_insert k) xs acc)"
  by (induction xs arbitrary: acc) auto

lemma oset_of_keys: "k ` set (oset_of k xs) = k ` set xs"
  by (simp add: oset_of_def fold_oset_insert_keys)

lemma oset_of_set: "set (oset_of k xs) \<subseteq> set xs"
  using fold_oset_insert_set [of k xs "[]"] by (simp add: oset_of_def)

lemma oset_of_wf [simp]: "oset_wf k (oset_of k xs)"
  by (simp add: oset_of_def fold_oset_insert_wf)

lemma oset_wf_filter: "oset_wf k xs \<Longrightarrow> oset_wf k (filter P xs)"
  by (induction xs) auto

subsection \<open>Ordered maps\<close>

fun omap_put :: "'k::linorder \<Rightarrow> 'v \<Rightarrow> ('k \<times> 'v) list \<Rightarrow> ('k \<times> 'v) list" where
  "omap_put k v [] = [(k, v)]"
| "omap_put k v ((j, w) # m) =
     (if k < j then (k, v) # (j, w) # m
      else if k = j then (k, v) # m
      else (j, w) # omap_put k v m)"

fun omap_erase :: "'k \<Rightarrow> ('k \<times> 'v) list \<Rightarrow> ('k \<times> 'v) list" where
  "omap_erase k [] = []"
| "omap_erase k ((j, w) # m) = (if k = j then m else (j, w) # omap_erase k m)"

abbreviation omap_wf :: "('k::linorder \<times> 'v) list \<Rightarrow> bool" where
  "omap_wf m \<equiv> oset_wf fst m"

lemma omap_put_keys: "fst ` set (omap_put k v m) = insert k (fst ` set m)"
  by (induction k v m rule: omap_put.induct) auto

lemma omap_put_above [simp]:
  "(\<forall>y\<in>set (omap_put k v m). c < fst y) \<longleftrightarrow> c < k \<and> (\<forall>y\<in>set m. c < fst y)"
proof -
  have "(\<forall>y\<in>set (omap_put k v m). c < fst y) \<longleftrightarrow> (\<forall>j\<in>fst ` set (omap_put k v m). c < j)"
    by simp
  then show ?thesis by (simp only: omap_put_keys) simp
qed

lemma omap_put_wf [simp]: "omap_wf m \<Longrightarrow> omap_wf (omap_put k v m)"
proof (induction k v m rule: omap_put.induct)
  case (2 k v j w m)
  show ?case
  proof (cases k j rule: linorder_cases)
    case less
    then show ?thesis using 2 by (simp add: less_trans [OF less])
  next
    case greater
    then show ?thesis using 2 less_not_sym [OF greater] by simp
  qed (use 2 in simp)
qed simp

lemma omap_put_lookup: "map_of (omap_put k v m) = (map_of m)(k \<mapsto> v)"
  by (induction k v m rule: omap_put.induct) (auto simp: fun_eq_iff)

lemma omap_erase_subset: "set (omap_erase k m) \<subseteq> set m"
  by (induction k m rule: omap_erase.induct) auto

lemma omap_erase_wf [simp]: "omap_wf m \<Longrightarrow> omap_wf (omap_erase k m)"
proof (induction k m rule: omap_erase.induct)
  case (2 k j w m)
  then show ?case using omap_erase_subset [of k m] by auto
qed simp

lemma omap_wf_above: "omap_wf ((j, w) # m) \<Longrightarrow> map_of m j = None"
  by (auto simp: map_of_eq_None_iff)

lemma omap_erase_lookup: "omap_wf m \<Longrightarrow> map_of (omap_erase k m) = (map_of m)(k := None)"
proof (induction k m rule: omap_erase.induct)
  case (2 k j w m)
  then show ?case
    using omap_wf_above [of j w m] by (auto simp: fun_eq_iff)
qed auto

end
