(* ===== verification/Uuid.thy ===== *)
theory Uuid
  imports Prelude
begin

text \<open>
  The identifiers of the ring (\<open>include/chord.uuid.h\<close>) and the nodes that carry them
  (\<open>include/chord.node.h\<close>).  A \<open>uuid\<close> is Boost's \<open>uint256_t\<close>, an unsigned
  integer of 256 bits whose arithmetic wraps, so it is a \<open>256 word\<close> here and the
  arithmetic operators of the class are those of the type.  The lemmas reduce membership
  in an interval of the ring to a comparison of clockwise distances, which is what every
  proof about the router uses.
\<close>

type_synonym uuid = "256 word"

type_synonym endpoint = string

definition uuid_between :: "uuid \<Rightarrow> uuid \<Rightarrow> uuid \<Rightarrow> bool" where
  "uuid_between this from to =
     (if from < to then from < this \<and> this < to
      else from < this \<or> this < to)"

definition between :: "uuid \<Rightarrow> uuid \<Rightarrow> uuid \<Rightarrow> bool" where
  "between lower element upper = uuid_between element lower upper"

subsection \<open>Random identifiers\<close>

text \<open>\<open>uuid::random\<close> fills an array with characters from a \<open>uniform_int_distribution<char>\<close>, whose
  default range is 0 to 127 where \<open>char\<close> is signed, and reads it as integers of 32 bits, the
  first one most significant, each stored with its least significant byte first.  The drawn
  characters are the argument.\<close>

definition words_join :: "'a::len word list \<Rightarrow> 'b::len word" where
  "words_join ws = foldr (\<lambda>w v. or (push_bit LENGTH('a) v) (ucast w)) ws 0"

definition unsigned_int :: "8 word list \<Rightarrow> 32 word" where
  "unsigned_int cs = words_join cs"

definition uuid_import :: "8 word list \<Rightarrow> uuid" where
  "uuid_import cs = words_join (rev (map (\<lambda>i. unsigned_int (take 4 (drop (4 * i) cs))) [0..<length cs div 4]))"

definition uuid_random :: "8 word list \<Rightarrow> uuid" where
  "uuid_random cs = uuid_import cs"

lemma bit_words_join:
  fixes ws :: "'a::len word list"
  shows "bit (words_join ws :: 'b::len word) n \<longleftrightarrow>
    n < LENGTH('b) \<and> n div LENGTH('a) < length ws \<and> bit (ws ! (n div LENGTH('a))) (n mod LENGTH('a))"
proof (induction ws arbitrary: n)
  case Nil
  then show ?case by (simp add: words_join_def)
next
  case (Cons w ws)
  have step: "bit (words_join (w # ws) :: 'b word) n \<longleftrightarrow>
      n < LENGTH('b) \<and> (if n < LENGTH('a) then bit w n else bit (words_join ws :: 'b word) (n - LENGTH('a)))"
    using bit_imp_le_length [of w n]
    by (auto simp: words_join_def bit_or_iff bit_push_bit_iff bit_ucast_iff)
  show ?case
  proof (cases "n < LENGTH('a)")
    case False
    then have "n div LENGTH('a) = Suc ((n - LENGTH('a)) div LENGTH('a))" "n mod LENGTH('a) = (n - LENGTH('a)) mod LENGTH('a)"
      by (simp_all add: le_div_geq le_mod_geq)
    then show ?thesis unfolding step using False by (auto simp: Cons.IH)
  qed (auto simp: step)
qed

lemma uuid_random_bit:
  assumes "length cs = 32" "\<forall>c\<in>set cs. c < 128" "i mod 8 = 7"
  shows "\<not> bit (uuid_random cs) i"
proof -
  have top: "\<not> bit c 7" if "c \<in> set cs" for c :: "8 word"
  proof -
    have "and c (mask 7) = c" using assms(2) that by (intro less_mask_eq) simp
    then have "bit c 7 = bit (and c (mask 7)) 7" by simp
    then show ?thesis by (simp add: bit_and_iff bit_mask_iff)
  qed
  have low: "i mod 32 mod 8 = 7" using assms(3) by (simp add: mod_mod_cancel)
  have "\<not> bit (unsigned_int (take 4 (drop k cs))) (i mod 32)" for k
  proof -
    have "\<not> bit (take 4 (drop k cs) ! j) 7" if "j < length (take 4 (drop k cs))" for j
      using top nth_mem [OF that] by (meson in_set_dropD in_set_takeD)
    then show ?thesis by (auto simp: unsigned_int_def bit_words_join low)
  qed
  then show ?thesis by (auto simp: uuid_random_def uuid_import_def bit_words_join rev_map rev_nth)
qed

lemma uuid_random_less:
  assumes "length cs = 32" "\<forall>c\<in>set cs. c < 128"
  shows "uuid_random cs < 2 ^ 255"
proof -
  have "and (uuid_random cs) (mask 255) = uuid_random cs"
  proof (rule bit_word_eqI)
    fix n
    assume "n < LENGTH(256)"
    then have "n < 255 \<or> n = 255" by auto
    then show "bit (and (uuid_random cs) (mask 255)) n = bit (uuid_random cs) n"
      using uuid_random_bit [OF assms, of 255] by (auto simp: bit_and_iff bit_mask_iff)
  qed
  moreover have "and (uuid_random cs) (mask 255) < 2 ^ 255" by (rule and_mask_less') simp
  ultimately show ?thesis by simp
qed

subsection \<open>Nodes\<close>

record node =
  node_uuid :: uuid
  node_endpoint :: endpoint

text \<open>\<open>operator==\<close> compares both fields and is equality of records; \<open>operator<\<close>
  compares the identifiers, so a \<open>std::set<node>\<close> is ordered by \<open>node_uuid\<close>.\<close>

definition node_less :: "node \<Rightarrow> node \<Rightarrow> bool" where
  "node_less a b = (node_uuid a < node_uuid b)"

lemma node_eta [simp]: "\<lparr>node_uuid = node_uuid n, node_endpoint = node_endpoint n\<rparr> = n"
  by (cases n) simp

subsection \<open>Intervals as clockwise distances\<close>

text \<open>\<open>x - a\<close> is the clockwise distance from \<open>a\<close> to \<open>x\<close>.\<close>

lemma word_sub_less_iff:
  fixes a x b :: "'a::len word"
  shows "x - a < b - a \<longleftrightarrow>
    (if a \<le> b then a \<le> x \<and> x < b else a \<le> x \<or> x < b)"
proof -
  have bnd: "0 \<le> uint a" "uint a < 2 ^ LENGTH('a)" "0 \<le> uint x" "uint x < 2 ^ LENGTH('a)"
    "0 \<le> uint b" "uint b < 2 ^ LENGTH('a)"
    by auto
  show ?thesis
    unfolding word_less_alt word_le_def uint_sub_if' using bnd
    by (simp only: split: if_split) linarith
qed

lemma between_dist:
  "between a x b \<longleftrightarrow> x \<noteq> a \<and> x \<noteq> b \<and> (a = b \<or> x - a < b - a)"
  by (auto simp: between_def uuid_between_def word_sub_less_iff)

text \<open>Intervals do not depend on where the ring is cut.\<close>

lemma between_shift: "between (a - t) (x - t) (b - t) = between a x b"
  by (simp add: between_dist)

lemma between_self [simp]: "\<not> between a a b" "\<not> between a b b"
  by (auto simp: between_dist)

lemma between_full [simp]: "between a x a \<longleftrightarrow> x \<noteq> a"
  by (auto simp: between_dist)

text \<open>Positions relative to a node \<open>self\<close>: the ring is cut at \<open>self\<close>, which has position 0.\<close>

definition pos :: "uuid \<Rightarrow> uuid \<Rightarrow> uuid" where
  "pos self u = u - self"

lemma pos_self [simp]: "pos self self = 0"
  by (simp add: pos_def)

lemma pos_eq_0 [simp]: "pos self u = 0 \<longleftrightarrow> u = self"
  by (simp add: pos_def)

lemma pos_inj [simp]: "pos self u = pos self v \<longleftrightarrow> u = v"
  by (simp add: pos_def)

lemma pos_gt_0: "0 < pos self u \<longleftrightarrow> u \<noteq> self"
  by (simp add: word_gt_0)

lemma between_pos: "between a x b = between (pos self a) (pos self x) (pos self b)"
  by (simp add: pos_def between_shift)

lemma between_to_self [ring_simps]:
  "s \<noteq> self \<Longrightarrow> between s x self \<longleftrightarrow> pos self s < pos self x"
  by (subst between_pos [of _ _ _ self])
    (auto simp: between_def uuid_between_def word_gt_0)

lemma between_from_self:
  "between self x u \<longleftrightarrow> x \<noteq> self \<and> (u = self \<or> pos self x < pos self u)"
  by (subst between_pos [of _ _ _ self])
    (auto simp: between_def uuid_between_def word_gt_0)

lemma between_linear [ring_simps]:
  "pos self s < pos self n \<Longrightarrow>
   between s x n \<longleftrightarrow> pos self s < pos self x \<and> pos self x < pos self n"
  by (subst between_pos [of _ _ _ self]) (simp add: between_def uuid_between_def)

end
