(* ===== verification/Lru.thy ===== *)
theory Lru
  imports Uuid
begin

text \<open>
  The bounded cache (\<open>include/chord.lru.cache.h\<close>) and the pool of channels built on it
  (\<open>include/chord.channel.pool.h\<close>, \<open>src/chord.channel.pool.cc\<close>).  The cache keeps a list of
  pairs, most recently used first, and a map from keys to iterators into the list; an
  iterator is the number its list node got when it was inserted.  The specification is an
  association list in order of use: every operation of the two-part structure computes
  what the specification says, and the loop that evicts ends.
\<close>

record ('k, 'v) lru =
  lru_list :: "(nat \<times> 'k \<times> 'v) list"
  lru_map :: "('k \<times> nat) list"
  lru_fresh :: nat
  lru_capacity :: nat

definition new_lru :: "nat \<Rightarrow> ('k, 'v) lru" where
  "new_lru capacity = \<lparr>lru_list = [], lru_map = [], lru_fresh = 0, lru_capacity = capacity\<rparr>"

definition lru_clear :: "('k, 'v) lru \<Rightarrow> ('k, 'v) lru" where
  "lru_clear c = c\<lparr>lru_list := [], lru_map := []\<rparr>"

definition lru_size :: "('k, 'v) lru \<Rightarrow> nat" where
  "lru_size c = length (lru_list c)"

definition lru_empty :: "('k, 'v) lru \<Rightarrow> bool" where
  "lru_empty c = (lru_list c = [])"

definition lru_exists :: "'k \<Rightarrow> ('k, 'v) lru \<Rightarrow> bool" where
  "lru_exists k c = (map_of (lru_map c) k \<noteq> None)"

definition list_erase :: "nat \<Rightarrow> (nat \<times> 'k \<times> 'v) list \<Rightarrow> (nat \<times> 'k \<times> 'v) list" where
  "list_erase it xs = filter (\<lambda>e. fst e \<noteq> it) xs"

definition lru_erase :: "'k \<Rightarrow> ('k, 'v) lru \<Rightarrow> bool \<times> ('k, 'v) lru" where
  "lru_erase k c =
     (case map_of (lru_map c) k of
        None \<Rightarrow> (False, c)
      | Some it \<Rightarrow>
          (True, c\<lparr>lru_list := list_erase it (lru_list c), lru_map := omap_erase k (lru_map c)\<rparr>))"

text \<open>The eviction loop; \<open>None\<close> if it never ends.\<close>

partial_function (option) lru_evict :: "('k, 'v) lru \<Rightarrow> ('k, 'v) lru option" where
  "lru_evict c =
     (if lru_capacity c < length (lru_list c)
      then lru_evict (snd (lru_erase (fst (snd (last (lru_list c)))) c))
      else Some c)"

definition lru_put :: "'k::linorder \<Rightarrow> 'v \<Rightarrow> ('k, 'v) lru \<Rightarrow> ('k, 'v) lru option" where
  "lru_put k v c =
     (let c = snd (lru_erase k c);
          it = lru_fresh c
      in lru_evict (c\<lparr>lru_list := (it, k, v) # lru_list c,
                      lru_map := (if map_of (lru_map c) k = None then omap_put k it (lru_map c)
                                  else lru_map c),
                      lru_fresh := it + 1\<rparr>))"

definition lru_touch :: "'k \<Rightarrow> ('k, 'v) lru \<Rightarrow> ('k, 'v) lru" where
  "lru_touch k c =
     (case map_of (lru_map c) k of
        None \<Rightarrow> c
      | Some it \<Rightarrow>
          c\<lparr>lru_list := filter (\<lambda>e. fst e = it) (lru_list c) @ list_erase it (lru_list c)\<rparr>)"

text \<open>\<open>_get\<close>: \<open>Inl\<close> is the exception \<open>std::out_of_range\<close>.\<close>

definition lru_get :: "'k \<Rightarrow> ('k, 'v) lru \<Rightarrow> (unit + 'v) \<times> ('k, 'v) lru" where
  "lru_get k c =
     (case map_of (lru_map c) k of
        None \<Rightarrow> (Inl (), c)
      | Some it \<Rightarrow>
          (case map_of (lru_list (lru_touch k c)) it of
             None \<Rightarrow> (Inl (), lru_touch k c)
           | Some kv \<Rightarrow> (Inr (snd kv), lru_touch k c)))"

definition compute_if_absent ::
  "'k::linorder \<Rightarrow> ('k \<Rightarrow> 'v) \<Rightarrow> ('k, 'v) lru \<Rightarrow> ((unit + 'v) \<times> ('k, 'v) lru) option" where
  "compute_if_absent k f c =
     (case (if lru_exists k c then Some c else lru_put k (f k) c) of
        None \<Rightarrow> None
      | Some c \<Rightarrow> Some (lru_get k c))"

subsection \<open>Specification\<close>

definition spec_erase :: "'k \<Rightarrow> ('k \<times> 'v) list \<Rightarrow> ('k \<times> 'v) list" where
  "spec_erase k xs = filter (\<lambda>e. fst e \<noteq> k) xs"

definition spec_put :: "nat \<Rightarrow> 'k \<Rightarrow> 'v \<Rightarrow> ('k \<times> 'v) list \<Rightarrow> ('k \<times> 'v) list" where
  "spec_put cap k v xs = take cap ((k, v) # spec_erase k xs)"

definition spec_touch :: "'k \<Rightarrow> ('k \<times> 'v) list \<Rightarrow> ('k \<times> 'v) list" where
  "spec_touch k xs = (case map_of xs k of None \<Rightarrow> xs | Some v \<Rightarrow> (k, v) # spec_erase k xs)"

definition lru_abs :: "('k, 'v) lru \<Rightarrow> ('k \<times> 'v) list" where
  "lru_abs c = map snd (lru_list c)"

text \<open>The map points exactly to the nodes of the list, each key once.\<close>

definition lru_linked :: "('k::linorder, 'v) lru \<Rightarrow> bool" where
  "lru_linked c =
     (omap_wf (lru_map c) \<and>
      distinct (map fst (lru_list c)) \<and> distinct (map fst (lru_abs c)) \<and>
      (\<forall>e\<in>set (lru_list c). fst e < lru_fresh c) \<and>
      set (lru_map c) = (\<lambda>e. (fst (snd e), fst e)) ` set (lru_list c))"

definition lru_inv :: "('k::linorder, 'v) lru \<Rightarrow> bool" where
  "lru_inv c = (lru_linked c \<and> length (lru_list c) \<le> lru_capacity c)"

lemma lru_linkedD:
  assumes "lru_linked c"
  shows "omap_wf (lru_map c)" "distinct (map fst (lru_list c))" "distinct (map fst (lru_abs c))"
    "\<And>e. e \<in> set (lru_list c) \<Longrightarrow> fst e < lru_fresh c"
    "set (lru_map c) = (\<lambda>e. (fst (snd e), fst e)) ` set (lru_list c)"
  using assms by (simp_all add: lru_linked_def)

lemma omap_wf_distinct: "omap_wf m \<Longrightarrow> distinct (map fst m)"
  by (simp add: oset_wf_def strict_sorted_iff)

lemma lru_map_iff:
  assumes "lru_linked c"
  shows "map_of (lru_map c) k = Some it \<longleftrightarrow> (\<exists>v. (it, k, v) \<in> set (lru_list c))"
proof -
  have "map_of (lru_map c) k = Some it \<longleftrightarrow> (k, it) \<in> set (lru_map c)"
    using omap_wf_distinct [OF lru_linkedD(1) [OF assms]] by simp
  then show ?thesis using lru_linkedD(5) [OF assms] by force
qed

lemma lru_list_key_inj:
  assumes "lru_linked c" "e \<in> set (lru_list c)" "f \<in> set (lru_list c)"
  shows "fst (snd e) = fst (snd f) \<longleftrightarrow> e = f" "fst e = fst f \<longleftrightarrow> e = f"
proof -
  have "inj_on (\<lambda>e. fst (snd e)) (set (lru_list c))"
    using lru_linkedD(3) [OF assms(1)] by (simp add: lru_abs_def comp_def distinct_map)
  then show "fst (snd e) = fst (snd f) \<longleftrightarrow> e = f" using assms(2,3) by (auto dest: inj_onD)
  have "inj_on fst (set (lru_list c))"
    using lru_linkedD(2) [OF assms(1)] by (simp add: distinct_map)
  then show "fst e = fst f \<longleftrightarrow> e = f" using assms(2,3) by (auto dest: inj_onD)
qed

lemma lru_abs_iff: "lru_linked c \<Longrightarrow> map_of (lru_abs c) k = Some v \<longleftrightarrow> (\<exists>it. (it, k, v) \<in> set (lru_list c))"
  using lru_linkedD(3) [of c] by (force simp: lru_abs_def image_iff)

text \<open>Erasing by iterator erases by key.\<close>

lemma list_erase_key:
  assumes "lru_linked c" "map_of (lru_map c) k = Some it"
  shows "list_erase it (lru_list c) = filter (\<lambda>e. fst (snd e) \<noteq> k) (lru_list c)"
proof -
  obtain v where v: "(it, k, v) \<in> set (lru_list c)" using lru_map_iff [OF assms(1)] assms(2) by blast
  have "fst e \<noteq> it \<longleftrightarrow> fst (snd e) \<noteq> k" if "e \<in> set (lru_list c)" for e
    using lru_list_key_inj [OF assms(1) that v] by simp
  then show ?thesis unfolding list_erase_def by (intro filter_cong) auto
qed

lemma lru_map_key:
  assumes "lru_linked c"
  shows "map_of (lru_map c) k = None \<longleftrightarrow> k \<notin> fst ` set (lru_abs c)"
proof -
  have "fst ` set (lru_map c) = fst ` set (lru_abs c)"
    using lru_linkedD(5) [OF assms] by (simp add: lru_abs_def image_image)
  then show ?thesis by (simp add: map_of_eq_None_iff)
qed

lemma lru_erase_abs:
  assumes "lru_linked c"
  shows "lru_abs (snd (lru_erase k c)) = spec_erase k (lru_abs c)"
    and "fst (lru_erase k c) \<longleftrightarrow> k \<in> fst ` set (lru_abs c)"
proof -
  show "lru_abs (snd (lru_erase k c)) = spec_erase k (lru_abs c)"
  proof (cases "map_of (lru_map c) k")
    case None
    then have "k \<notin> fst ` set (lru_abs c)" using lru_map_key [OF assms] by simp
    then have "spec_erase k (lru_abs c) = lru_abs c"
      unfolding spec_erase_def by (intro filter_True) auto
    then show ?thesis using None by (simp add: lru_erase_def)
  next
    case (Some it)
    then show ?thesis
      by (simp add: lru_erase_def list_erase_key [OF assms Some] lru_abs_def spec_erase_def filter_map comp_def)
  qed
  show "fst (lru_erase k c) \<longleftrightarrow> k \<in> fst ` set (lru_abs c)"
    using lru_map_key [OF assms, of k] by (cases "map_of (lru_map c) k") (auto simp: lru_erase_def)
qed

lemma set_omap_erase: "omap_wf m \<Longrightarrow> set (omap_erase k m) = {e \<in> set m. fst e \<noteq> k}"
proof (induction k m rule: omap_erase.induct)
  case (2 k j w m)
  then show ?case using omap_wf_above [of j w m] by (force simp: map_of_eq_None_iff)
qed simp

lemma set_omap_put: "k \<notin> fst ` set m \<Longrightarrow> set (omap_put k v m) = insert (k, v) (set m)"
  by (induction k v m rule: omap_put.induct) auto

lemma lru_erase_linked:
  assumes "lru_linked c"
  shows "lru_linked (snd (lru_erase k c))"
proof (cases "map_of (lru_map c) k")
  case (Some it)
  note erase = list_erase_key [OF assms Some]
  have "set (omap_erase k (lru_map c)) =
      (\<lambda>e. (fst (snd e), fst e)) ` set (list_erase it (lru_list c))"
    using lru_linkedD(1,5) [OF assms] by (auto simp: set_omap_erase erase image_iff)
  then show ?thesis
    using Some lru_linkedD [OF assms] lru_erase_abs(1) [OF assms, of k]
    by (simp add: lru_linked_def lru_erase_def spec_erase_def list_erase_def distinct_map_filter)
qed (simp add: lru_erase_def assms)

lemma lru_erase_last:
  assumes "lru_linked c" "lru_list c \<noteq> []"
  shows "lru_list (snd (lru_erase (fst (snd (last (lru_list c)))) c)) = butlast (lru_list c)"
proof -
  let ?e = "last (lru_list c)"
  obtain it k v where e: "?e = (it, k, v)" by (cases ?e) auto
  have e_in: "(it, k, v) \<in> set (lru_list c)" using assms(2) e by (metis last_in_set)
  then have it: "map_of (lru_map c) k = Some it" using lru_map_iff [OF assms(1)] by blast
  obtain xs where xs: "lru_list c = xs @ [(it, k, v)]" using assms(2) e by (metis append_butlast_last_id)
  have "(it, k, v) \<notin> set xs" using lru_linkedD(2) [OF assms(1)] xs by force
  then have "\<forall>f\<in>set xs. fst f \<noteq> it"
    using lru_list_key_inj(2) [OF assms(1) _ e_in] xs by force
  then have "list_erase it (lru_list c) = xs" by (auto simp: list_erase_def xs intro!: filter_True)
  then show ?thesis using it e by (simp add: lru_erase_def xs)
qed

lemma lru_erase_capacity [simp]:
  "lru_capacity (snd (lru_erase k c)) = lru_capacity c" "lru_fresh (snd (lru_erase k c)) = lru_fresh c"
  by (simp_all add: lru_erase_def split: option.split)

text \<open>The eviction loop ends and keeps the most recently used pairs.\<close>

lemma lru_evict_take:
  assumes "lru_linked c"
  shows "\<exists>c'. lru_evict c = Some c' \<and> lru_linked c' \<and> lru_capacity c' = lru_capacity c \<and>
    lru_list c' = take (lru_capacity c) (lru_list c)"
  using assms
proof (induction "length (lru_list c)" arbitrary: c rule: less_induct)
  case less
  show ?case
  proof (cases "lru_capacity c < length (lru_list c)")
    case False
    then show ?thesis using less.prems by (subst lru_evict.simps) simp
  next
    case True
    let ?d = "snd (lru_erase (fst (snd (last (lru_list c)))) c)"
    have list: "lru_list ?d = butlast (lru_list c)"
      using True less.prems by (intro lru_erase_last) auto
    have "length (lru_list ?d) < length (lru_list c)" using True list by simp
    from less.hyps [OF this lru_erase_linked [OF less.prems]] obtain c' where c':
      "lru_evict ?d = Some c'" "lru_linked c'" "lru_capacity c' = lru_capacity c"
      "lru_list c' = take (lru_capacity c) (butlast (lru_list c))"
      using list by auto
    have "take (lru_capacity c) (butlast (lru_list c)) = take (lru_capacity c) (lru_list c)"
    proof -
      have "lru_capacity c \<le> length (lru_list c) - 1" using True by simp
      then show ?thesis by (simp add: butlast_conv_take min_absorb1)
    qed
    then show ?thesis using True c' by (subst lru_evict.simps) simp
  qed
qed

text \<open>\<open>put\<close> refines its specification.\<close>

lemma lru_put_refines:
  assumes "lru_inv c"
  shows "\<exists>c'. lru_put k v c = Some c' \<and> lru_inv c' \<and> lru_capacity c' = lru_capacity c \<and>
    lru_abs c' = spec_put (lru_capacity c) k v (lru_abs c)"
proof -
  let ?d = "snd (lru_erase k c)"
  have d: "lru_linked ?d" "lru_abs ?d = spec_erase k (lru_abs c)"
    using assms lru_erase_linked lru_erase_abs(1) by (auto simp: lru_inv_def)
  have absent: "map_of (lru_map ?d) k = None"
    using lru_map_key [OF d(1), of k] by (auto simp: d(2) spec_erase_def)
  let ?e = "?d\<lparr>lru_list := (lru_fresh ?d, k, v) # lru_list ?d,
    lru_map := omap_put k (lru_fresh ?d) (lru_map ?d), lru_fresh := lru_fresh ?d + 1\<rparr>"
  have "k \<notin> fst ` set (lru_map ?d)" using absent by (simp add: map_of_eq_None_iff)
  then have map: "set (lru_map ?e) = insert (k, lru_fresh ?d) (set (lru_map ?d))"
    by (simp add: set_omap_put)
  have fresh: "lru_fresh ?d \<notin> fst ` set (lru_list ?d)" using lru_linkedD(4) [OF d(1)] by force
  have key: "k \<notin> fst ` set (lru_abs ?d)" by (auto simp: d(2) spec_erase_def)
  have "lru_linked ?e"
    unfolding lru_linked_def map
    using lru_linkedD [OF d(1)] fresh key by (auto simp: lru_abs_def less_Suc_eq)
  from lru_evict_take [OF this] obtain c' where c': "lru_evict ?e = Some c'" "lru_linked c'"
    "lru_capacity c' = lru_capacity c" "lru_list c' = take (lru_capacity c) (lru_list ?e)"
    by auto
  have "lru_put k v c = Some c'"
    using c'(1) absent by (simp add: lru_put_def Let_def)
  moreover have "lru_abs c' = spec_put (lru_capacity c) k v (lru_abs c)"
    using c'(4) d(2) by (simp add: lru_abs_def spec_put_def take_map flip: take_map)
  moreover have "lru_inv c'" using c' by (simp add: lru_inv_def)
  ultimately show ?thesis using c'(3) by blast
qed

text \<open>\<open>touch\<close> moves the pair of a key to the front.\<close>

lemma lru_touch_list:
  assumes "lru_linked c" "(it, k, v) \<in> set (lru_list c)"
  shows "lru_list (lru_touch k c) = (it, k, v) # list_erase it (lru_list c)"
proof -
  have m: "map_of (lru_map c) k = Some it" using lru_map_iff [OF assms(1)] assms(2) by blast
  have "filter (\<lambda>e. fst e = it) (lru_list c) = filter (\<lambda>e. e = (it, k, v)) (lru_list c)"
    using lru_list_key_inj(2) [OF assms(1) _ assms(2)] by (intro filter_cong) auto
  also have "\<dots> = [(it, k, v)]"
  proof -
    obtain xs ys where xs: "lru_list c = xs @ (it, k, v) # ys" using split_list [OF assms(2)] by blast
    have "distinct (lru_list c)" using lru_linkedD(2) [OF assms(1)] by (simp add: distinct_map)
    then have "filter (\<lambda>e. e = (it, k, v)) xs = []" "filter (\<lambda>e. e = (it, k, v)) ys = []"
      by (auto simp: xs filter_empty_conv)
    then show ?thesis by (simp add: xs)
  qed
  finally show ?thesis using m by (simp add: lru_touch_def)
qed

lemma lru_touch_refines:
  assumes "lru_inv c"
  shows "lru_inv (lru_touch k c)" "lru_abs (lru_touch k c) = spec_touch k (lru_abs c)"
    "lru_capacity (lru_touch k c) = lru_capacity c"
proof -
  have linked: "lru_linked c" using assms by (simp add: lru_inv_def)
  show "lru_capacity (lru_touch k c) = lru_capacity c" by (simp add: lru_touch_def split: option.split)
  have "lru_inv (lru_touch k c) \<and> lru_abs (lru_touch k c) = spec_touch k (lru_abs c)"
  proof (cases "map_of (lru_map c) k")
    case None
    then have "map_of (lru_abs c) k = None"
      using lru_map_key [OF linked] by (simp add: map_of_eq_None_iff)
    then show ?thesis using None assms by (simp add: lru_touch_def spec_touch_def)
  next
    case (Some it)
    then obtain v where v: "(it, k, v) \<in> set (lru_list c)" using lru_map_iff [OF linked] by blast
    note list = lru_touch_list [OF linked v]
    obtain xs ys where xs: "lru_list c = xs @ (it, k, v) # ys" using split_list [OF v] by blast
    have "it \<notin> fst ` set (xs @ ys)" using lru_linkedD(2) [OF linked] by (auto simp: xs)
    then have erase: "list_erase it (lru_list c) = xs @ ys"
    proof -
      have "filter (\<lambda>e. fst e \<noteq> it) (xs @ ys) = xs @ ys"
        using \<open>it \<notin> fst ` set (xs @ ys)\<close> by (intro filter_True) auto
      then show ?thesis by (simp add: list_erase_def xs)
    qed
    have abs: "map_of (lru_abs c) k = Some v" using lru_abs_iff [OF linked] v by blast
    have "lru_abs (lru_touch k c) = spec_touch k (lru_abs c)"
      using abs list_erase_key [OF linked Some]
      by (simp add: lru_abs_def list spec_touch_def spec_erase_def filter_map comp_def)
    moreover have "lru_inv (lru_touch k c)"
      using assms Some list erase lru_linkedD [OF linked]
      by (auto simp: lru_inv_def lru_linked_def lru_touch_def lru_abs_def xs)
    ultimately show ?thesis by simp
  qed
  then show "lru_inv (lru_touch k c)" "lru_abs (lru_touch k c) = spec_touch k (lru_abs c)" by auto
qed

lemma lru_get_refines:
  assumes "lru_inv c"
  shows "lru_get k c =
    (case map_of (lru_abs c) k of None \<Rightarrow> Inl () | Some v \<Rightarrow> Inr v, lru_touch k c)"
proof -
  have linked: "lru_linked c" using assms by (simp add: lru_inv_def)
  show ?thesis
  proof (cases "map_of (lru_map c) k")
    case None
    then have "map_of (lru_abs c) k = None"
      using lru_map_key [OF linked] by (simp add: map_of_eq_None_iff)
    then show ?thesis using None by (simp add: lru_get_def lru_touch_def)
  next
    case (Some it)
    then obtain v where v: "(it, k, v) \<in> set (lru_list c)" using lru_map_iff [OF linked] by blast
    then have "map_of (lru_abs c) k = Some v" using lru_abs_iff [OF linked] by blast
    then show ?thesis using Some lru_touch_list [OF linked v] by (simp add: lru_get_def)
  qed
qed

subsection \<open>Caches and the pool of channels\<close>

text \<open>What the pool needs of a cache: a value computed for a key is kept for that key until
  it is dropped.\<close>

locale cache =
  fixes inv :: "'s \<Rightarrow> bool"
    and lookup :: "'s \<Rightarrow> 'k \<Rightarrow> 'v option"
    and compute :: "'k \<Rightarrow> ('k \<Rightarrow> 'v) \<Rightarrow> 's \<Rightarrow> ((unit + 'v) \<times> 's) option"
  assumes compute_value: "inv s \<Longrightarrow>
      \<exists>s'. compute k f s = Some (Inr (case lookup s k of Some v \<Rightarrow> v | None \<Rightarrow> f k), s') \<and> inv s' \<and>
        lookup s' k = Some (case lookup s k of Some v \<Rightarrow> v | None \<Rightarrow> f k) \<and>
        (\<forall>j. j \<noteq> k \<longrightarrow> lookup s' j = None \<or> lookup s' j = lookup s j)"
begin

text \<open>Whatever holds of every computed value holds of every value handed out.\<close>

lemma compute_origin:
  assumes "inv s" "\<forall>j v. lookup s j = Some v \<longrightarrow> P j v" "P k (f k)" "compute k f s = Some (r, s')"
  shows "\<exists>v. r = Inr v \<and> P k v \<and> inv s' \<and> (\<forall>j w. lookup s' j = Some w \<longrightarrow> P j w)"
proof -
  let ?v = "case lookup s k of Some v \<Rightarrow> v | None \<Rightarrow> f k"
  obtain s2 where s2: "compute k f s = Some (Inr ?v, s2)" "inv s2" "lookup s2 k = Some ?v"
    "\<forall>j. j \<noteq> k \<longrightarrow> lookup s2 j = None \<or> lookup s2 j = lookup s j"
    using compute_value [OF assms(1), of k f] by blast
  have v: "P k ?v" using assms(2,3) by (simp split: option.split)
  have "P j w" if "lookup s2 j = Some w" for j w
    using that s2(3,4) assms(2) v by (cases "j = k") auto
  then show ?thesis using s2 assms(4) v by auto
qed

text \<open>A second request for a key still held ignores the new function.\<close>

lemma compute_twice:
  assumes "inv s" "compute k f s = Some (r, s')"
  shows "\<exists>s''. compute k g s' = Some (r, s'')"
  using assms compute_value [OF assms(1), of k f] compute_value [of s' k g] by fastforce

end

definition lru_pool_inv :: "('k::linorder, 'v) lru \<Rightarrow> bool" where
  "lru_pool_inv c = (lru_inv c \<and> 0 < lru_capacity c)"

definition lru_lookup :: "('k, 'v) lru \<Rightarrow> 'k \<Rightarrow> 'v option" where
  "lru_lookup c k = map_of (lru_abs c) k"

lemma map_of_spec_erase: "map_of (spec_erase k xs) j = (if j = k then None else map_of xs j)"
  by (induction xs) (auto simp: spec_erase_def)

lemma map_of_take: "map_of (take n xs) j = None \<or> map_of (take n xs) j = map_of xs j"
  by (induction xs arbitrary: n) (auto simp: take_Cons split: nat.split)

lemma lookup_touch: "map_of (spec_touch k xs) = map_of xs"
  by (auto simp: fun_eq_iff spec_touch_def map_of_spec_erase split: option.split)

lemma compute_if_absent_spec:
  assumes "lru_pool_inv c"
  shows "\<exists>c'. compute_if_absent k f c =
      Some (Inr (case lru_lookup c k of Some v \<Rightarrow> v | None \<Rightarrow> f k), c') \<and> lru_pool_inv c' \<and>
    lru_lookup c' k = Some (case lru_lookup c k of Some v \<Rightarrow> v | None \<Rightarrow> f k) \<and>
    (\<forall>j. j \<noteq> k \<longrightarrow> lru_lookup c' j = None \<or> lru_lookup c' j = lru_lookup c j)"
proof -
  have inv: "lru_inv c" and linked: "lru_linked c" using assms by (simp_all add: lru_pool_inv_def lru_inv_def)
  have key: "lru_exists k c \<longleftrightarrow> lru_lookup c k \<noteq> None"
    using lru_map_key [OF linked] by (simp add: lru_exists_def lru_lookup_def map_of_eq_None_iff)
  show ?thesis
  proof (cases "lru_lookup c k")
    case (Some v)
    then show ?thesis
      using assms key lru_touch_refines [OF inv, of k] lru_get_refines [OF inv, of k]
      by (simp add: compute_if_absent_def lru_pool_inv_def lru_lookup_def lookup_touch)
  next
    case None
    obtain c' where c': "lru_put k (f k) c = Some c'" "lru_inv c'" "lru_capacity c' = lru_capacity c"
      "lru_abs c' = spec_put (lru_capacity c) k (f k) (lru_abs c)"
      using lru_put_refines [OF inv] by blast
    have "0 < lru_capacity c" using assms by (simp add: lru_pool_inv_def)
    then obtain n where n: "lru_capacity c = Suc n" by (cases "lru_capacity c") auto
    have k: "map_of (lru_abs c') k = Some (f k)" by (simp add: c'(4) spec_put_def n)
    have "map_of (lru_abs c') j = None \<or> map_of (lru_abs c') j = map_of (lru_abs c) j" if "j \<noteq> k" for j
      using that map_of_take [of n "spec_erase k (lru_abs c)" j]
      by (simp add: c'(4) spec_put_def n map_of_spec_erase)
    then show ?thesis
      using assms key None c' k lru_touch_refines [OF c'(2), of k] lru_get_refines [OF c'(2), of k]
      by (simp add: compute_if_absent_def lru_pool_inv_def lru_lookup_def lookup_touch)
  qed
qed

interpretation lru_cache: cache lru_pool_inv lru_lookup compute_if_absent
  by unfold_locales (rule compute_if_absent_spec)

text \<open>The pool caches channels by the identifier of the node; making a channel to an endpoint
  is gRPC's, \<open>mk\<close> here.\<close>

type_synonym 'c channel_pool = "(uuid, 'c) lru"

definition new_pool :: "'c channel_pool" where
  "new_pool = new_lru 256"

definition pool_put :: "node \<Rightarrow> 'c \<Rightarrow> 'c channel_pool \<Rightarrow> 'c channel_pool option" where
  "pool_put n ch p = lru_put (node_uuid n) ch p"

definition pool_get ::
  "(endpoint \<Rightarrow> 'c) \<Rightarrow> node \<Rightarrow> 'c channel_pool \<Rightarrow> ((unit + 'c) \<times> 'c channel_pool) option" where
  "pool_get mk n p = compute_if_absent (node_uuid n) (\<lambda>_. mk (node_endpoint n)) p"

lemma new_pool_inv: "lru_pool_inv new_pool"
  by (simp add: new_pool_def new_lru_def lru_pool_inv_def lru_inv_def lru_linked_def lru_abs_def)

text \<open>Channels are kept by identifier: a node of the same identifier at another address is called on
  the channel to the old one.\<close>

lemma pool_keeps_channel:
  assumes "lru_pool_inv p" "node_uuid n' = node_uuid n" "pool_get mk n p = Some (r, p')"
  shows "\<exists>p''. pool_get mk n' p' = Some (r, p'')"
  using lru_cache.compute_twice [OF assms(1) assms(3) [unfolded pool_get_def]] assms(2)
  by (simp add: pool_get_def)

end
