(* ===== verification/Path.thy ===== *)
theory Path
  imports Prelude
begin

text \<open>
  Paths (\<open>include/chord.path.h\<close>, \<open>src/chord.path.cc\<close>).  The class wraps a
  \<open>std::filesystem::path\<close>; a path is its text, and the operations of the standard library
  the class calls (iteration over the elements, \<open>operator/=\<close>, \<open>parent_path\<close>, \<open>filename\<close>,
  \<open>relative_path\<close>) are written out for POSIX paths.  Directory listings belong to the file
  system and are in \<open>File_System\<close>.  The lemmas give the normal form \<open>canonical\<close> computes and show
  that a canonical path appended to a directory cannot leave it.
\<close>

type_synonym path = string

abbreviation slash :: char where
  "slash \<equiv> CHR ''/''"

subsection \<open>std::filesystem::path on POSIX\<close>

fun segs :: "string \<Rightarrow> string list" where
  "segs [] = [[]]"
| "segs (c # cs) =
     (if c = slash then [] # segs cs
      else (case segs cs of [] \<Rightarrow> [[c]] | s # ss \<Rightarrow> (c # s) # ss))"

definition names :: "path \<Rightarrow> string list" where
  "names p = filter (\<lambda>s. s \<noteq> []) (segs p)"

definition is_absolute :: "path \<Rightarrow> bool" where
  "is_absolute p = (case p of [] \<Rightarrow> False | c # _ \<Rightarrow> c = slash)"

definition ends_with_slash :: "path \<Rightarrow> bool" where
  "ends_with_slash p = (p \<noteq> [] \<and> last p = slash)"

definition trailing :: "path \<Rightarrow> bool" where
  "trailing p = (names p \<noteq> [] \<and> ends_with_slash p)"

text \<open>The elements of the iteration \<open>begin() .. end()\<close>: the root directory, the file names,
  and an empty element after a trailing separator.\<close>

definition elements :: "path \<Rightarrow> string list" where
  "elements p = (if is_absolute p then [''/''] else []) @ names p @ (if trailing p then [[]] else [])"

definition fs_append :: "path \<Rightarrow> path \<Rightarrow> path" where
  "fs_append a b =
     (if is_absolute b then b
      else if a \<noteq> [] \<and> last a \<noteq> slash then a @ ''/'' @ b
      else a @ b)"

definition all_slashes :: "path \<Rightarrow> bool" where
  "all_slashes p = list_all (\<lambda>c. c = slash) p"

definition strip_slashes :: "path \<Rightarrow> path" where
  "strip_slashes p = rev (dropWhile (\<lambda>c. c = slash) (rev p))"

definition fs_parent_path :: "path \<Rightarrow> path" where
  "fs_parent_path p =
     (if all_slashes p then p
      else if last p = slash then strip_slashes p
      else
        let q = rev (dropWhile (\<lambda>c. c \<noteq> slash) (rev p)) in
        if q = [] then []
        else if all_slashes q then ''/''
        else strip_slashes q)"

definition fs_filename :: "path \<Rightarrow> string" where
  "fs_filename p = rev (takeWhile (\<lambda>c. c \<noteq> slash) (rev p))"

definition fs_relative_path :: "path \<Rightarrow> path" where
  "fs_relative_path p = dropWhile (\<lambda>c. c = slash) p"

subsection \<open>chord::path\<close>

definition filename :: "path \<Rightarrow> path" where
  "filename p = fs_filename p"

definition parent_path :: "path \<Rightarrow> path" where
  "parent_path p = fs_parent_path p"

definition extension :: "path \<Rightarrow> path" where
  "extension p =
     (let f = fs_filename p;
          ext = takeWhile (\<lambda>c. c \<noteq> CHR ''.'') (rev f);
          stem = drop (Suc (length ext)) (rev f)
      in if f = ''.'' \<or> f = ''..'' \<or> CHR ''.'' \<notin> set f \<or> stem = [] then []
         else CHR ''.'' # rev ext)"

definition canonical_step :: "string \<Rightarrow> path \<Rightarrow> path" where
  "canonical_step dir result =
     (if dir = ''..'' then fs_parent_path result
      else if dir = ''.'' then result
      else if dir = ''/'' \<and> result \<noteq> [] \<and> last result = slash then result
      else fs_append result dir)"

definition canonical :: "path \<Rightarrow> path" where
  "canonical p = fold canonical_step (elements p) []"

text \<open>\<open>operator/\<close> and \<open>operator/=\<close> append the relative part of the right operand.\<close>

definition path_append :: "path \<Rightarrow> path \<Rightarrow> path" where
  "path_append p q = fs_append p (fs_relative_path q)"

text \<open>Comparison is by root directory and then by elements.\<close>

definition path_eq :: "path \<Rightarrow> path \<Rightarrow> bool" where
  "path_eq p q = (elements p = elements q)"

definition path_less :: "path \<Rightarrow> path \<Rightarrow> bool" where
  "path_less p q =
     (if is_absolute p = is_absolute q then elements p < elements q
      else is_absolute q)"

definition all_paths_step :: "string \<Rightarrow> path list \<times> path \<Rightarrow> path list \<times> path" where
  "all_paths_step dir s =
     (let current = path_append (snd s) dir in (fst s @ [current], current))"

text \<open>The paths \<open>all_paths\<close> puts into its set, in the order they are put.\<close>

definition all_paths :: "path \<Rightarrow> path list" where
  "all_paths p = fst (fold all_paths_step (elements (canonical p)) ([], ''/''))"

text \<open>\<open>operator-\<close> uses the right operand as a regular expression and removes every match of it,
  wherever it is.  Patterns of ordinary characters and dots are modelled; \<open>None\<close> is a pattern
  with other operators.\<close>

definition plain_regex :: "string \<Rightarrow> bool" where
  "plain_regex pat = list_all (\<lambda>c. c \<notin> set ''^$*+?()[]{}|'' \<and> c \<noteq> CHR 0x5C) pat"

definition regex_char :: "char \<Rightarrow> char \<Rightarrow> bool" where
  "regex_char p c = (if p = CHR ''.'' then c \<noteq> CHR 0x0A \<and> c \<noteq> CHR 0x0D else p = c)"

definition regex_prefix :: "string \<Rightarrow> string \<Rightarrow> bool" where
  "regex_prefix pat s = (length pat \<le> length s \<and> list_all2 regex_char pat (take (length pat) s))"

function remove_matches :: "string \<Rightarrow> string \<Rightarrow> string" where
  "remove_matches pat [] = []"
| "remove_matches pat (c # cs) =
     (if pat \<noteq> [] \<and> regex_prefix pat (c # cs) then remove_matches pat (drop (length pat) (c # cs))
      else c # remove_matches pat cs)"
  by pat_completeness auto
termination by (relation "measure (\<lambda>(pat, s). length s)") (auto simp: neq_Nil_conv)

definition path_minus :: "path \<Rightarrow> path \<Rightarrow> path option" where
  "path_minus l r =
     (let can_rop = canonical r; can_lop = canonical l
      in if can_rop = [] \<or> path_eq can_rop ''/'' then Some can_lop
         else if plain_regex can_rop then Some (canonical (remove_matches can_rop can_lop))
         else None)"

subsection \<open>Segments\<close>

lemma segs_nonempty [simp]: "segs p \<noteq> []"
  by (induction p) (auto split: list.splits)

lemma segs_slash: "segs (a @ slash # b) = segs a @ segs b"
  by (induction a) (auto split: list.splits)

lemma segs_noslash: "slash \<notin> set s \<Longrightarrow> segs s = [s]"
  by (induction s) auto

lemma segs_no_slash_inside: "s \<in> set (segs p) \<Longrightarrow> slash \<notin> set s"
  by (induction p arbitrary: s) (auto split: list.splits if_splits)

lemma names_Nil [simp]: "names [] = []"
  by (simp add: names_def)

lemma names_slash: "names (a @ slash # b) = names a @ names b"
  by (simp add: names_def segs_slash)

lemma names_slash_Cons [simp]: "names (slash # b) = names b"
  using names_slash [of "[]" b] by simp

lemma names_noslash: "slash \<notin> set s \<Longrightarrow> names s = (if s = [] then [] else [s])"
  by (simp add: names_def segs_noslash)

definition clean :: "string list \<Rightarrow> bool" where
  "clean ns = list_all (\<lambda>s. s \<noteq> [] \<and> slash \<notin> set s) ns"

lemma clean_simps [simp]:
  "clean []"
  "clean (s # ns) \<longleftrightarrow> s \<noteq> [] \<and> slash \<notin> set s \<and> clean ns"
  "clean (ns @ ms) \<longleftrightarrow> clean ns \<and> clean ms"
  by (auto simp: clean_def)

lemma clean_butlast: "clean ns \<Longrightarrow> clean (butlast ns)"
  by (auto simp: clean_def list_all_iff dest: in_set_butlastD)

lemma clean_names [simp]: "clean (names p)"
  using segs_no_slash_inside by (auto simp: clean_def names_def list_all_iff)

subsection \<open>Rendering a stack of names\<close>

fun join :: "string list \<Rightarrow> string" where
  "join [] = []"
| "join [s] = s"
| "join (s # t # ns) = s @ slash # join (t # ns)"

lemma join_Cons: "join (s # ns) = (if ns = [] then s else s @ slash # join ns)"
  by (cases ns) auto

lemma join_snoc: "join (ns @ [s]) = (if ns = [] then s else join ns @ slash # s)"
  by (induction ns) (auto simp: join_Cons)

lemma join_eq_Nil: "clean ns \<Longrightarrow> join ns = [] \<longleftrightarrow> ns = []"
  by (cases ns) (auto simp: join_Cons)

lemma names_join: "clean ns \<Longrightarrow> names (join ns) = ns"
  by (induction ns) (auto simp: join_Cons names_noslash names_slash)

lemma last_name: "s \<noteq> [] \<Longrightarrow> slash \<notin> set s \<Longrightarrow> last s \<noteq> slash"
  by (metis last_in_set)

lemma last_join: "clean ns \<Longrightarrow> ns \<noteq> [] \<Longrightarrow> last (join ns) \<noteq> slash"
  by (cases ns rule: rev_cases) (auto simp: join_snoc last_name)

definition render :: "bool \<Rightarrow> string list \<Rightarrow> path" where
  "render rt ns = (if rt then ''/'' else []) @ join ns"

lemma names_render [simp]: "clean ns \<Longrightarrow> names (render rt ns) = ns"
  by (simp add: render_def names_join)

lemma hd_join: "clean ns \<Longrightarrow> ns \<noteq> [] \<Longrightarrow> hd (join ns) \<noteq> slash"
  by (cases ns) (auto simp: join_Cons hd_append neq_Nil_conv)

lemma absolute_render [simp]: "clean ns \<Longrightarrow> is_absolute (render rt ns) = rt"
  using hd_join [of ns] by (cases "ns = []") (auto simp: render_def is_absolute_def split: list.splits)

lemma last_render: "clean ns \<Longrightarrow> ns \<noteq> [] \<Longrightarrow> last (render rt ns) \<noteq> slash"
  by (simp add: render_def last_join join_eq_Nil)

lemma render_eq_Nil: "clean ns \<Longrightarrow> render rt ns = [] \<longleftrightarrow> \<not> rt \<and> ns = []"
  by (simp add: render_def join_eq_Nil)

lemma append_render:
  "clean ns \<Longrightarrow> d \<noteq> [] \<Longrightarrow> slash \<notin> set d \<Longrightarrow> fs_append (render rt ns) d = render rt (ns @ [d])"
  using last_render [of ns rt] join_eq_Nil [of ns]
  by (cases "ns = []")
    (auto simp: fs_append_def is_absolute_def render_def join_snoc split: list.splits)

lemma append_render_Nil:
  "clean ns \<Longrightarrow> fs_append (render rt ns) [] = render rt ns @ (if ns = [] then [] else ''/'')"
  using last_render [of ns rt] render_eq_Nil [of ns rt]
  by (auto simp: fs_append_def is_absolute_def render_def)

lemma dropWhile_name:
  "slash \<notin> set s \<Longrightarrow> dropWhile (\<lambda>c. c \<noteq> slash) (rev s @ xs) = dropWhile (\<lambda>c. c \<noteq> slash) xs"
  by (rule dropWhile_append2) auto

lemma strip_render:
  assumes "clean ns" "ns \<noteq> []"
  shows "strip_slashes (render rt ns @ ''/'') = render rt ns"
proof -
  have ne: "render rt ns \<noteq> []" using assms by (simp add: render_eq_Nil)
  then obtain x xs where x: "rev (render rt ns) = x # xs" by (cases "rev (render rt ns)") auto
  then have "x = last (render rt ns)" by (metis hd_rev list.sel(1))
  then have "x \<noteq> slash" using last_render [OF assms] by simp
  then have "dropWhile (\<lambda>c. c = slash) (rev (render rt ns)) = rev (render rt ns)" by (simp add: x)
  then show ?thesis by (simp add: strip_slashes_def)
qed

lemma not_all_slashes: "p \<noteq> [] \<Longrightarrow> last p \<noteq> slash \<Longrightarrow> \<not> all_slashes p"
  unfolding all_slashes_def list_all_iff by (metis last_in_set)

lemma parent_render:
  assumes "clean ns"
  shows "fs_parent_path (render rt ns) = render rt (butlast ns)"
proof (cases ns rule: rev_cases)
  case Nil
  then show ?thesis by (simp add: fs_parent_path_def render_def all_slashes_def)
next
  case (snoc ms m)
  with assms have m: "m \<noteq> []" "slash \<notin> set m" "clean ms" by auto
  let ?r = "render rt (ms @ [m])"
  have lastr: "last ?r \<noteq> slash" and ne: "?r \<noteq> []"
    using assms snoc last_render [of ns rt] render_eq_Nil [of ns rt] by auto
  have eq: "?r = (if ms = [] then (if rt then ''/'' else []) else render rt ms @ ''/'') @ m"
    by (simp add: render_def join_snoc)
  show ?thesis
  proof (cases "ms = []")
    case True
    then show ?thesis
      using snoc lastr ne m not_all_slashes [OF ne lastr]
      by (simp add: fs_parent_path_def eq dropWhile_name render_def Let_def)
        (auto simp: all_slashes_def)
  next
    case False
    have q: "rev (dropWhile (\<lambda>c. c \<noteq> slash) (rev ?r)) = render rt ms @ ''/''"
      using m False by (simp add: eq dropWhile_name)
    have "\<not> all_slashes (render rt ms @ ''/'')"
      using last_render [OF m(3) False, of rt] render_eq_Nil [OF m(3), of rt] False
        not_all_slashes [of "render rt ms"]
      by (auto simp: all_slashes_def)
    then show ?thesis
      using snoc lastr ne not_all_slashes [OF ne lastr] strip_render [OF m(3) False, of rt] q
      by (simp add: fs_parent_path_def Let_def)
  qed
qed

subsection \<open>The normal form\<close>

text \<open>\<open>..\<close> pops the stack of names, \<open>.\<close> leaves it, any other name is pushed.\<close>

definition stack_step :: "string \<Rightarrow> string list \<Rightarrow> string list" where
  "stack_step d ns = (if d = ''..'' then butlast ns else if d = ''.'' then ns else ns @ [d])"

definition stack :: "string list \<Rightarrow> string list \<Rightarrow> string list" where
  "stack ds ns = fold stack_step ds ns"

lemma clean_stack_step: "clean ns \<Longrightarrow> d \<noteq> [] \<Longrightarrow> slash \<notin> set d \<Longrightarrow> clean (stack_step d ns)"
  by (simp add: stack_step_def clean_butlast)

lemma clean_stack: "clean ds \<Longrightarrow> clean ns \<Longrightarrow> clean (stack ds ns)"
  by (induction ds arbitrary: ns) (auto simp: stack_def clean_stack_step)

lemma canonical_step_render:
  "clean ns \<Longrightarrow> d \<noteq> [] \<Longrightarrow> slash \<notin> set d \<Longrightarrow>
   canonical_step d (render rt ns) = render rt (stack_step d ns)"
  by (auto simp: canonical_step_def stack_step_def parent_render append_render)

lemma fold_canonical_render:
  "clean ds \<Longrightarrow> clean ns \<Longrightarrow>
   fold canonical_step ds (render rt ns) = render rt (stack ds ns)"
proof (induction ds arbitrary: ns)
  case (Cons d ds)
  then show ?case by (simp add: canonical_step_render clean_stack_step stack_def)
qed (simp add: stack_def)

lemma canonical_step_root: "canonical_step ''/'' (render False []) = render True []"
  by (simp add: canonical_step_def render_def fs_append_def is_absolute_def)

lemma canonical_form:
  "canonical p =
     (let ns = stack (names p) [] in
      render (is_absolute p) ns @ (if trailing p \<and> ns \<noteq> [] then ''/'' else []))"
proof -
  let ?ns = "stack (names p) []"
  have c: "clean ?ns" by (simp add: clean_stack)
  have root: "fold canonical_step (if is_absolute p then [''/''] else []) [] = render (is_absolute p) []"
    using canonical_step_root by (simp add: render_def)
  have body: "fold canonical_step (names p) (render (is_absolute p) []) = render (is_absolute p) ?ns"
    by (simp add: fold_canonical_render)
  have tail: "canonical_step [] (render rt ?ns) = render rt ?ns @ (if ?ns = [] then [] else ''/'')" for rt
    using append_render_Nil [OF c] by (simp add: canonical_step_def)
  show ?thesis
    using tail [of "is_absolute p"]
    by (cases "?ns = []") (simp_all add: canonical_def elements_def root body Let_def)
qed

lemma ends_render: "clean ns \<Longrightarrow> ends_with_slash (render rt ns) \<longleftrightarrow> rt \<and> ns = []"
  using last_render [of ns rt] render_eq_Nil [of ns rt]
  by (cases "ns = []") (auto simp: ends_with_slash_def render_def)

lemma canonical_parts:
  "names (canonical p) = stack (names p) []"
  "is_absolute (canonical p) = is_absolute p"
  "trailing (canonical p) = (trailing p \<and> stack (names p) [] \<noteq> [])"
proof -
  let ?ns = "stack (names p) []"
  have c: "clean ?ns" by (simp add: clean_stack)
  have n: "names (render rt ?ns @ ''/'') = ?ns" for rt
    using names_slash [of "render rt ?ns" "[]"] c by simp
  show names: "names (canonical p) = ?ns"
    by (simp add: canonical_form Let_def n c)
  have "is_absolute (render rt ?ns @ ''/'') = rt" if "?ns \<noteq> []" for rt
    using absolute_render [OF c, of rt] render_eq_Nil [OF c, of rt] that
    by (simp add: is_absolute_def split: list.splits)
  then show "is_absolute (canonical p) = is_absolute p"
    by (simp add: canonical_form Let_def c)
  show "trailing (canonical p) = (trailing p \<and> ?ns \<noteq> [])"
    unfolding trailing_def names
    using ends_render [OF c] by (auto simp: canonical_form Let_def ends_with_slash_def trailing_def)
qed

definition dot_free :: "string list \<Rightarrow> bool" where
  "dot_free ns = (''..'' \<notin> set ns \<and> ''.'' \<notin> set ns)"

lemma dot_free_stack: "dot_free ns \<Longrightarrow> dot_free (stack ds ns)"
proof (induction ds arbitrary: ns)
  case (Cons d ds)
  have "dot_free (stack_step d ns)"
    using Cons.prems by (auto simp: dot_free_def stack_step_def dest: in_set_butlastD)
  with Cons.IH show ?case by (simp add: stack_def)
qed (simp add: stack_def)

lemma stack_dot_free: "dot_free ds \<Longrightarrow> stack ds ns = ns @ ds"
  by (induction ds arbitrary: ns) (auto simp: stack_def stack_step_def dot_free_def)

lemma dot_free_canonical: "dot_free (names (canonical p))"
  using dot_free_stack [of "[]" "names p"] by (simp add: canonical_parts dot_free_def)

text \<open>\<open>canonical\<close> is a normal form: a second application changes nothing.\<close>

lemma canonical_canonical [simp]: "canonical (canonical p) = canonical p"
  using dot_free_canonical [of p]
  by (simp add: canonical_form [of "canonical p"] canonical_parts stack_dot_free Let_def)
    (simp add: canonical_form Let_def canonical_parts)

subsection \<open>Appending below a directory\<close>

lemma names_relative [simp]: "names (fs_relative_path q) = names q"
  by (induction q) (auto simp: fs_relative_path_def)

lemma relative_not_absolute [simp]: "\<not> is_absolute (fs_relative_path q)"
  by (induction q) (auto simp: is_absolute_def fs_relative_path_def)

lemma names_append_ended:
  "a = [] \<or> last a = slash \<Longrightarrow> names (a @ b) = names a @ names b"
proof (cases a rule: rev_cases)
  case (snoc xs x)
  assume "a = [] \<or> last a = slash"
  with snoc have "a @ b = xs @ slash # b" "a = xs @ slash # []" by auto
  then show ?thesis using names_slash [of xs b] names_slash [of xs "[]"] by simp
qed simp

lemma names_path_append: "names (path_append d q) = names d @ names q"
  using names_slash [of d "fs_relative_path q"] names_append_ended [of d "fs_relative_path q"]
  by (auto simp: path_append_def fs_append_def)

lemma absolute_path_append [simp]: "is_absolute (path_append d q) = is_absolute d"
  using relative_not_absolute [of q] by (cases d) (auto simp: path_append_def fs_append_def is_absolute_def)

text \<open>A path in normal form that names a file is its parent directory and its last name.\<close>

definition names_file :: "path \<Rightarrow> bool" where
  "names_file p = (canonical p = p \<and> names p \<noteq> [] \<and> \<not> ends_with_slash p)"

lemma names_file_render:
  assumes "names_file p"
  shows "p = render (is_absolute p) (names p)"
proof -
  have p: "canonical p = p" "\<not> trailing p" using assms by (auto simp: names_file_def trailing_def)
  then have "canonical p = render (is_absolute p) (stack (names p) [])"
    by (simp add: canonical_form Let_def del: canonical_canonical)
  moreover have "stack (names p) [] = names p" using canonical_parts(1) [of p] p(1) by simp
  ultimately show ?thesis using p(1) by simp
qed

lemma filename_render:
  assumes "clean (ms @ [m])"
  shows "fs_filename (render rt (ms @ [m])) = m"
proof -
  have m: "slash \<notin> set m" using assms by simp
  have tw: "takeWhile (\<lambda>c. c \<noteq> slash) (rev m @ xs) = rev m @ takeWhile (\<lambda>c. c \<noteq> slash) xs" for xs
    using m by (intro takeWhile_append2) auto
  have "rev (render rt (ms @ [m])) = rev m @ rev (if ms = [] then (if rt then ''/'' else []) else render rt ms @ ''/'')"
    by (simp add: render_def join_snoc)
  then show ?thesis unfolding fs_filename_def by (simp only: tw) simp
qed

lemma parent_and_name:
  assumes "names_file p"
  shows "names (parent_path p) = butlast (names p)" "filename p = last (names p)"
    "names (filename p) = [last (names p)]" "is_absolute (parent_path p) = is_absolute p"
    "parent_path p = render (is_absolute p) (butlast (names p))"
proof -
  have c: "clean (names p)" "clean (butlast (names p))" by (simp_all add: clean_butlast)
  have ne: "names p \<noteq> []" using assms by (simp add: names_file_def)
  have par: "parent_path p = render (is_absolute p) (butlast (names p))"
    using parent_render [OF c(1), of "is_absolute p"] names_file_render [OF assms]
    by (simp add: parent_path_def)
  then show "names (parent_path p) = butlast (names p)" "is_absolute (parent_path p) = is_absolute p"
    "parent_path p = render (is_absolute p) (butlast (names p))"
    using c by simp_all
  have "clean (butlast (names p) @ [last (names p)])" using c ne by simp
  then have "fs_filename (render (is_absolute p) (butlast (names p) @ [last (names p)])) = last (names p)"
    by (rule filename_render)
  then show f: "filename p = last (names p)"
    using ne names_file_render [OF assms] by (simp add: filename_def)
  have "last (names p) \<in> set (names p)" using ne by simp
  then have "last (names p) \<noteq> []" "slash \<notin> set (last (names p))"
    using segs_no_slash_inside by (auto simp: names_def)
  then show "names (filename p) = [last (names p)]" by (simp add: f names_noslash)
qed

end
