(* ===== verification/Outcome.thy ===== *)
theory Outcome
  imports Prelude
begin

text \<open>
  What comes of a computation: a value, an exception, or \<open>Undefined\<close> where C++ gives no behaviour.
\<close>

datatype exn = Grpc_exception status_code | Chord_exception | Io_failure | Std_exception

datatype 'a outcome = Returns 'a | Throws exn | Undefined

definition out_bind :: "'a outcome \<Rightarrow> ('a \<Rightarrow> 'b outcome) \<Rightarrow> 'b outcome" where
  "out_bind m f = (case m of Returns x \<Rightarrow> f x | Throws e \<Rightarrow> Throws e | Undefined \<Rightarrow> Undefined)"

lemma out_bind_Returns: "out_bind m f = Returns y \<longleftrightarrow> (\<exists>x. m = Returns x \<and> f x = Returns y)"
  by (simp add: out_bind_def split: outcome.split)

lemma out_bind_simps [simp]:
  "out_bind (Returns x) f = f x" "out_bind (Throws e) g = Throws e" "out_bind Undefined h = Undefined"
  by (simp_all add: out_bind_def)

end
