(* ===== verification/Log.thy ===== *)
theory Log
  imports Outcome
begin

text \<open>
  The settings of the loggers (\<open>include/chord.log.h\<close>, \<open>src/chord.log.cc\<close>).  A sink points to a
  formatter and a logger to sinks of the same settings; the pointers are names here, as moving a
  map of the standard library leaves its elements where they are.  The pointer of a sink to its
  formatter has no initial value: until it is set it is \<open>Uninitialised\<close>, and reading through
  it is undefined.  The set of
  pointers of a logger is kept in the order of the names; the code has it in the order of
  addresses.
\<close>

record formatter =
  fmt_pattern :: string

definition formatter_eq :: "formatter \<Rightarrow> formatter \<Rightarrow> bool" where
  "formatter_eq a b = (fmt_pattern a = fmt_pattern b)"

definition formatter_less :: "formatter \<Rightarrow> formatter \<Rightarrow> bool" where
  "formatter_less a b = (fmt_pattern a < fmt_pattern b)"

subsection \<open>Kinds of sinks\<close>

datatype sink_type = CONSOLE | FILE_ROTATING | FILE_DAILY | FILE

fun mapped_type :: "sink_type \<Rightarrow> string" where
  "mapped_type CONSOLE = ''console''"
| "mapped_type FILE_ROTATING = ''file-rotating''"
| "mapped_type FILE_DAILY = ''file-daily''"
| "mapped_type FILE = ''file''"

text \<open>The set of all kinds, in its order.\<close>

definition sink_types :: "sink_type list" where
  "sink_types = [CONSOLE, FILE, FILE_DAILY, FILE_ROTATING]"

definition sink_type_from :: "string \<Rightarrow> sink_type outcome" where
  "sink_type_from s =
     (case List.find (\<lambda>t. mapped_type t = s) sink_types of
        Some t \<Rightarrow> Returns t
      | None \<Rightarrow> Throws Chord_exception)"

definition sink_type_less :: "sink_type \<Rightarrow> sink_type \<Rightarrow> bool" where
  "sink_type_less a b = (mapped_type a < mapped_type b)"

lemma sink_types_sorted: "sorted_wrt sink_type_less sink_types"
  by (simp add: sink_types_def sink_type_less_def list_less_def lexord_simps)

lemma sink_types_all: "t \<in> set sink_types"
  by (cases t) (simp_all add: sink_types_def)

lemma mapped_type_inj: "mapped_type s = mapped_type t \<longleftrightarrow> s = t"
  by (cases s; cases t) simp_all

text \<open>Reading the name of a kind gives the kind back, and any other name throws.\<close>

lemma sink_type_from_name: "sink_type_from s = Returns t \<longleftrightarrow> s = mapped_type t"
proof (cases "List.find (\<lambda>t. mapped_type t = s) sink_types")
  case None
  then have "sink_type_from s = Throws Chord_exception" by (simp add: sink_type_from_def)
  moreover have "mapped_type t \<noteq> s" using None sink_types_all [of t] unfolding find_None_iff by blast
  ultimately show ?thesis by auto
next
  case (Some u)
  then have "mapped_type u = s" by (auto simp: find_Some_iff)
  then show ?thesis using Some by (auto simp: sink_type_from_def mapped_type_inj)
qed

subsection \<open>Settings\<close>

datatype 'a pointer = Uninitialised | To 'a

record sink =
  sink_kind :: sink_type
  sink_path :: string
  sink_formatter :: "string pointer"
  sink_level :: string

record log_logger =
  logger_sinks :: "string list"
  logger_filter :: string
  logger_level :: string

record logging =
  log_level :: string
  log_formatters :: "(string \<times> formatter) list"
  log_sinks :: "(string \<times> sink) list"
  log_loggers :: "(string \<times> log_logger) list"

definition default_sink :: sink where
  "default_sink = \<lparr>sink_kind = CONSOLE, sink_path = [], sink_formatter = Uninitialised, sink_level = []\<rparr>"

definition default_logger :: log_logger where
  "default_logger = \<lparr>logger_sinks = [], logger_filter = [], logger_level = []\<rparr>"

definition default_logging :: logging where
  "default_logging = \<lparr>log_level = [], log_formatters = [], log_sinks = [], log_loggers = []\<rparr>"

text \<open>Two sinks are compared by all three members at once, and the formatters are looked at only
  when the first two are less, through the pointers.\<close>

definition follow :: "string pointer \<Rightarrow> (string \<times> 'a) list \<Rightarrow> 'a outcome" where
  "follow p m =
     (case p of Uninitialised \<Rightarrow> Undefined | To k \<Rightarrow> (case map_of m k of Some x \<Rightarrow> Returns x | None \<Rightarrow> Undefined))"

definition sink_less :: "(string \<times> formatter) list \<Rightarrow> sink \<Rightarrow> sink \<Rightarrow> bool outcome" where
  "sink_less formatters a b =
     (if sink_type_less (sink_kind a) (sink_kind b) \<and> sink_path a < sink_path b
      then
        out_bind (follow (sink_formatter a) formatters) (\<lambda>f.
        out_bind (follow (sink_formatter b) formatters) (\<lambda>g. Returns (formatter_less f g)))
      else Returns False)"

end
