(* ===== verification/Context.thy ===== *)
theory Context
  imports Uuid Path Log
begin

text \<open>
  The configuration of a peer (\<open>include/chord.context.h\<close>, \<open>src/chord.context.cc\<close>).
  The back pointer to the router is left out: it only serves \<open>set_uuid\<close>, which resets the router
  of the same peer; \<open>Router.context_set_uuid\<close> models that call with the router at hand.
  The initial identifier is random, so it is an argument of \<open>default_context\<close>.
\<close>

record peer_context =
  ctx_uuid :: uuid
  ctx_bootstrap :: bool
  ctx_upnp :: bool
  ctx_no_controller :: bool
  ctx_register_shutdown_handler :: bool
  ctx_monitor :: bool
  ctx_data_directory :: path
  ctx_meta_directory :: path
  ctx_config :: path
  ctx_bind_addr :: endpoint
  ctx_advertise_addr :: endpoint
  ctx_join_addr :: endpoint
  ctx_stabilize_period_ms :: nat
  ctx_check_period_ms :: nat
  ctx_client_timeout_ms :: int
  ctx_replication_cnt :: "32 word"
  ctx_logging :: logging

definition default_context :: "uuid \<Rightarrow> peer_context" where
  "default_context u =
     \<lparr>ctx_uuid = u,
      ctx_bootstrap = False, ctx_upnp = False, ctx_no_controller = False,
      ctx_register_shutdown_handler = False, ctx_monitor = False,
      ctx_data_directory = ''./data'', ctx_meta_directory = ''./metadata'',
      ctx_config = ''./config.yml'',
      ctx_bind_addr = ''0.0.0.0:50050'', ctx_advertise_addr = ''0.0.0.0:50050'',
      ctx_join_addr = [],
      ctx_stabilize_period_ms = 10000, ctx_check_period_ms = 10000,
      ctx_client_timeout_ms = 4000, ctx_replication_cnt = 1,
      ctx_logging = default_logging\<rparr>"

definition ctx_node :: "peer_context \<Rightarrow> node" where
  "ctx_node ctx = \<lparr>node_uuid = ctx_uuid ctx, node_endpoint = ctx_advertise_addr ctx\<rparr>"

definition journal_directory :: "peer_context \<Rightarrow> path" where
  "journal_directory ctx = path_append (ctx_meta_directory ctx) ''journal''"

datatype context_error = Bind_equals_join | Meta_equals_data

definition validate :: "peer_context \<Rightarrow> context_error + unit" where
  "validate ctx =
     (if ctx_bind_addr ctx = ctx_join_addr ctx then Inl Bind_equals_join
      else if path_eq (ctx_meta_directory ctx) (ctx_data_directory ctx) then Inl Meta_equals_data
      else Inr ())"

lemma ctx_node_simps [simp]:
  "node_uuid (ctx_node ctx) = ctx_uuid ctx"
  "node_endpoint (ctx_node ctx) = ctx_advertise_addr ctx"
  by (simp_all add: ctx_node_def)

end
