(* ===== verification/Router.thy ===== *)
theory Router
  imports Context
begin

text \<open>
  The routing table of a peer (\<open>include/chord.router.h\<close>, \<open>src/chord.router.cc\<close>): an
  array of 256 fingers, each with the identifier where its interval starts and the node
  known for it, and the predecessor.  The operations take the peer's context, which the
  class holds by reference, and return the new state; the signals an operation emits are
  returned as a list of events in the order of emission.  The mutex makes every public
  operation one step, so it has no counterpart here.
\<close>

definition BITS :: nat where
  "BITS = 256"

record router_entry =
  ent_uuid :: uuid
  ent_node :: "node option"

record router =
  successors :: "router_entry list"
  router_predecessor :: "node option"

datatype router_event =
    Successor_fail node
  | Predecessor_fail node
  | Successor_update node node
  | Predecessor_update node node

definition entry_valid :: "router_entry \<Rightarrow> bool" where
  "entry_valid e = (ent_node e \<noteq> None)"

text \<open>\<open>std::numeric_limits<uint256_t>::max()\<close>\<close>

definition uuid_max :: uuid where
  "uuid_max = - 1"

definition calc_successor_uuid_for_index :: "uuid \<Rightarrow> nat \<Rightarrow> uuid" where
  "calc_successor_uuid_for_index self i = (self + 2 ^ i) mod uuid_max"

subsection \<open>Initialisation\<close>

definition init_entries :: "peer_context \<Rightarrow> router_entry list" where
  "init_entries ctx =
     map (\<lambda>i. \<lparr>ent_uuid = calc_successor_uuid_for_index (ctx_uuid ctx) i, ent_node = None\<rparr>) [0..<BITS]"

definition router_init :: "peer_context \<Rightarrow> router \<Rightarrow> router" where
  "router_init ctx r = r\<lparr>successors := init_entries ctx\<rparr>"

definition new_router :: "peer_context \<Rightarrow> router" where
  "new_router ctx = \<lparr>successors = init_entries ctx, router_predecessor = None\<rparr>"

definition cleanup :: "peer_context \<Rightarrow> router \<Rightarrow> router" where
  "cleanup ctx r = router_init ctx (r\<lparr>router_predecessor := None\<rparr>)"

definition router_reset :: "peer_context \<Rightarrow> router \<Rightarrow> router" where
  "router_reset ctx r = cleanup ctx r"

definition context_set_uuid :: "uuid \<Rightarrow> peer_context \<Rightarrow> router \<Rightarrow> peer_context \<times> router" where
  "context_set_uuid u ctx r = (let ctx' = ctx\<lparr>ctx_uuid := u\<rparr> in (ctx', router_reset ctx' r))"

subsection \<open>Queries\<close>

definition has_successor :: "router \<Rightarrow> bool" where
  "has_successor r = entry_valid (successors r ! 0)"

definition has_predecessor :: "router \<Rightarrow> bool" where
  "has_predecessor r = (router_predecessor r \<noteq> None)"

definition router_successor :: "router \<Rightarrow> node option" where
  "router_successor r = ent_node (successors r ! 0)"

definition successor_or_self :: "peer_context \<Rightarrow> router \<Rightarrow> node" where
  "successor_or_self ctx r = (case router_successor r of Some n \<Rightarrow> n | None \<Rightarrow> ctx_node ctx)"

text \<open>The nodes of the valid fingers, in the order of the array.\<close>

definition entry_nodes :: "router_entry list \<Rightarrow> node list" where
  "entry_nodes es = List.map_filter ent_node es"

definition get_nodes :: "router \<Rightarrow> node list" where
  "get_nodes r = oset_of node_uuid (entry_nodes (successors r))"

definition get_start :: "router \<Rightarrow> nat \<Rightarrow> uuid" where
  "get_start r index = ent_uuid (successors r ! index)"

subsection \<open>Learning of a node\<close>

definition entry_hit :: "peer_context \<Rightarrow> node \<Rightarrow> router_entry \<Rightarrow> bool" where
  "entry_hit ctx n e =
     between (ent_uuid e) (node_uuid n)
       (case ent_node e of Some m \<Rightarrow> node_uuid m | None \<Rightarrow> ctx_uuid ctx)"

definition update_entry :: "peer_context \<Rightarrow> node \<Rightarrow> router_entry \<Rightarrow> router_entry" where
  "update_entry ctx n e = (if entry_hit ctx n e then e\<lparr>ent_node := Some n\<rparr> else e)"

definition replaces_predecessor :: "peer_context \<Rightarrow> node \<Rightarrow> node option \<Rightarrow> bool" where
  "replaces_predecessor ctx n p =
     (case p of None \<Rightarrow> True
      | Some m \<Rightarrow> n \<noteq> m \<and> between (node_uuid m) (node_uuid n) (ctx_uuid ctx))"

definition update :: "peer_context \<Rightarrow> node \<Rightarrow> router \<Rightarrow> bool \<times> router \<times> router_event list" where
  "update ctx n r =
     (if n = ctx_node ctx then (False, r, [])
      else
        let es = successors r;
            p = router_predecessor r;
            old_successor = (if entry_hit ctx n (es ! 0) then ent_node (es ! 0) else None);
            old_predecessor =
              (if replaces_predecessor ctx n p
               then Some (case p of Some m \<Rightarrow> m | None \<Rightarrow> ctx_node ctx) else None);
            p' = (if replaces_predecessor ctx n p then Some n else p)
        in (list_ex (entry_hit ctx n) es,
            r\<lparr>successors := map (update_entry ctx n) es, router_predecessor := p'\<rparr>,
            (case old_successor of Some m \<Rightarrow> [Successor_update m n] | None \<Rightarrow> []) @
            (case old_predecessor of Some m \<Rightarrow> [Predecessor_update m n] | None \<Rightarrow> [])))"

definition learn :: "peer_context \<Rightarrow> node \<Rightarrow> router \<Rightarrow> router" where
  "learn ctx n r = fst (snd (update ctx n r))"

definition update_set :: "peer_context \<Rightarrow> node list \<Rightarrow> router \<Rightarrow> router" where
  "update_set ctx ns r = fold (learn ctx) ns r"

subsection \<open>Forgetting a node\<close>

text \<open>The loop over the fingers from the last to the first.  \<open>repl\<close> is the node of the entry
  the iterator \<open>replacement\<close> points to, \<open>None\<close> for \<open>rend()\<close>: the entry it points to was
  visited before (or is the current one), and no visited entry changes again.\<close>

definition next_predecessor :: "uuid \<Rightarrow> node \<Rightarrow> node option \<Rightarrow> node option" where
  "next_predecessor u n p =
     (case p of
        None \<Rightarrow> None
      | Some m \<Rightarrow> if u = node_uuid m \<and> node_uuid n \<noteq> u then Some n else Some m)"

definition next_replacement :: "peer_context \<Rightarrow> uuid \<Rightarrow> node \<Rightarrow> node option \<Rightarrow> node option" where
  "next_replacement ctx u n repl =
     (if node_uuid n \<noteq> u \<and> node_uuid n \<noteq> ctx_uuid ctx then Some n else repl)"

fun remove_loop ::
  "peer_context \<Rightarrow> uuid \<Rightarrow> router_entry list \<Rightarrow> node option \<Rightarrow> node option
    \<Rightarrow> router_entry list \<times> node option" where
  "remove_loop ctx u [] p repl = ([], p)"
| "remove_loop ctx u (e # es) p repl =
     (case ent_node e of
        None \<Rightarrow>
          (let rest = remove_loop ctx u es p repl in (e # fst rest, snd rest))
      | Some n \<Rightarrow>
          (let rest = remove_loop ctx u es (next_predecessor u n p) (next_replacement ctx u n repl)
           in ((if node_uuid n = u then e\<lparr>ent_node := repl\<rparr> else e) # fst rest, snd rest)))"

definition remove_initial :: "peer_context \<Rightarrow> uuid \<Rightarrow> router_entry list \<Rightarrow> node option" where
  "remove_initial ctx u es =
     (case ent_node (last es) of
        None \<Rightarrow> None
      | Some n \<Rightarrow> if node_uuid n = u \<and> node_uuid n \<noteq> ctx_uuid ctx then None else Some n)"

definition remove :: "peer_context \<Rightarrow> uuid \<Rightarrow> bool \<Rightarrow> router \<Rightarrow> bool \<times> router \<times> router_event list" where
  "remove ctx u signal r =
     (let es = successors r;
          p = router_predecessor r;
          successor_failed =
            (case ent_node (es ! 0) of
               Some n \<Rightarrow> if node_uuid n = u then Some n else None | None \<Rightarrow> None);
          predecessor_failed =
            (case p of Some n \<Rightarrow> if node_uuid n = u then Some n else None | None \<Rightarrow> None);
          (res, p1) = remove_loop ctx u (rev es) p (remove_initial ctx u es);
          p2 = (case p1 of Some n \<Rightarrow> if node_uuid n = u then None else Some n | None \<Rightarrow> None);
          events =
            (if signal then
               (case successor_failed of Some n \<Rightarrow> [Successor_fail n] | None \<Rightarrow> []) @
               (case predecessor_failed of Some n \<Rightarrow> [Predecessor_fail n] | None \<Rightarrow> [])
             else [])
      in (False, r\<lparr>successors := rev res, router_predecessor := p2\<rparr>, events))"

definition remove_node :: "peer_context \<Rightarrow> node \<Rightarrow> bool \<Rightarrow> router \<Rightarrow> bool \<times> router \<times> router_event list" where
  "remove_node ctx n signal r = remove ctx (node_uuid n) signal r"

definition forget :: "peer_context \<Rightarrow> uuid \<Rightarrow> router \<Rightarrow> router" where
  "forget ctx u r = fst (snd (remove ctx u True r))"

subsection \<open>Routing\<close>

text \<open>The loop over the fingers from the last to the first that collects the nodes between
  \<open>self\<close> and the identifier; a node equal to the one before it is not repeated.\<close>

fun preceding_loop :: "uuid \<Rightarrow> uuid \<Rightarrow> router_entry list \<Rightarrow> node list \<Rightarrow> node list" where
  "preceding_loop self u [] ret = ret"
| "preceding_loop self u (e # es) ret =
     (case ent_node e of
        None \<Rightarrow> preceding_loop self u es ret
      | Some n \<Rightarrow>
          if between self (node_uuid n) u \<and> (ret = [] \<or> last ret \<noteq> n)
          then preceding_loop self u es (ret @ [n])
          else preceding_loop self u es ret)"

definition closest_preceding_nodes :: "peer_context \<Rightarrow> router \<Rightarrow> uuid \<Rightarrow> node list" where
  "closest_preceding_nodes ctx r u =
     (let ret = preceding_loop (ctx_uuid ctx) u (rev (successors r)) []
      in if ret = [] \<or> hd ret \<noteq> ctx_node ctx then ret @ [ctx_node ctx] else ret)"

definition closest_preceding_node :: "peer_context \<Rightarrow> router \<Rightarrow> uuid \<Rightarrow> node option" where
  "closest_preceding_node ctx r u = Some (hd (closest_preceding_nodes ctx r u))"

end
