(* ===== verification/Messages.thy ===== *)
theory Messages
  imports Uuid Context
begin

text \<open>
  The messages of the ring protocol (\<open>chord.common.proto\<close>, \<open>chord.proto\<close>) and the
  helpers of \<open>src/chord.common.cc\<close> and \<open>include/chord.common.h\<close> that build and read
  them.  A \<open>RouterEntry\<close> carries the decimal text of an identifier and an endpoint; it is
  a \<open>node\<close> here, with the identifier decoded.  Sub-messages are optional, as in
  protobuf, and reading an absent one gives the empty entry.
\<close>

type_synonym entry = node

record header =
  hdr_src :: "entry option"

record join_request =
  jreq_header :: "header option"

record join_response =
  jres_header :: "header option"
  jres_successor :: "entry option"
  jres_predecessor :: "entry option"

record successor_request =
  sreq_header :: "header option"
  sreq_id :: uuid

record successor_response =
  sres_header :: "header option"
  sres_successor :: "entry option"

record stabilize_request =
  streq_header :: "header option"

record stabilize_response =
  stres_header :: "header option"
  stres_predecessor :: "entry option"

record notify_request =
  nreq_header :: "header option"
  nreq_old_node :: "entry option"
  nreq_new_node :: "entry option"

record leave_request =
  lreq_header :: "header option"
  lreq_entries :: "entry list"

record ping_request =
  preq_header :: "header option"

record ping_response =
  pres_header :: "header option"

text \<open>The notify and leave responses have a header nobody sets.\<close>

type_synonym empty_response = unit

text \<open>An entry that was never set: no identifier, no endpoint.\<close>

definition default_entry :: entry where
  "default_entry = \<lparr>node_uuid = 0, node_endpoint = []\<rparr>"

definition entry_of :: "entry option \<Rightarrow> entry" where
  "entry_of e = (case e of Some n \<Rightarrow> n | None \<Rightarrow> default_entry)"

subsection \<open>Building messages\<close>

definition make_entry :: "node \<Rightarrow> entry" where
  "make_entry n = \<lparr>node_uuid = node_uuid n, node_endpoint = node_endpoint n\<rparr>"

definition make_header_node :: "node \<Rightarrow> header" where
  "make_header_node n = \<lparr>hdr_src = Some (make_entry n)\<rparr>"

definition make_header :: "peer_context \<Rightarrow> header" where
  "make_header ctx =
     \<lparr>hdr_src = Some \<lparr>node_uuid = ctx_uuid ctx, node_endpoint = ctx_advertise_addr ctx\<rparr>\<rparr>"

subsection \<open>Reading messages\<close>

definition has_valid_header :: "header option \<Rightarrow> bool" where
  "has_valid_header h = (case h of Some h \<Rightarrow> hdr_src h \<noteq> None | None \<Rightarrow> False)"

definition make_node :: "entry \<Rightarrow> node" where
  "make_node e = \<lparr>node_uuid = node_uuid e, node_endpoint = node_endpoint e\<rparr>"

text \<open>\<open>s.substr(0, s.rfind(c))\<close> and \<open>s.substr(s.rfind(c) + 1)\<close>; the first is the whole string
  when there is no \<open>c\<close>.\<close>

definition before_last :: "char \<Rightarrow> string \<Rightarrow> string" where
  "before_last c s = (if c \<in> set s then rev (tl (dropWhile (\<lambda>d. d \<noteq> c) (rev s))) else s)"

definition after_last :: "char \<Rightarrow> string \<Rightarrow> string" where
  "after_last c s = rev (takeWhile (\<lambda>d. d \<noteq> c) (rev s))"

text \<open>The node of an entry as the server sees it: the host is the one the connection comes
  from, only the port is the advertised one.\<close>

definition make_node_peer :: "string \<Rightarrow> entry \<Rightarrow> node" where
  "make_node_peer peer e =
     (if CHR '':'' \<in> set (node_endpoint e)
      then \<lparr>node_uuid = node_uuid e,
            node_endpoint =
              before_last CHR '':'' peer @ '':'' @ after_last CHR '':'' (node_endpoint e)\<rparr>
      else \<lparr>node_uuid = node_uuid e, node_endpoint = node_endpoint e\<rparr>)"

definition header_entry :: "header option \<Rightarrow> entry" where
  "header_entry h = (case h of Some h \<Rightarrow> entry_of (hdr_src h) | None \<Rightarrow> default_entry)"

definition source_of :: "header option \<Rightarrow> node" where
  "source_of h = make_node (header_entry h)"

definition source_of_peer :: "string \<Rightarrow> header option \<Rightarrow> node" where
  "source_of_peer peer h = make_node_peer peer (header_entry h)"

subsection \<open>Round trips\<close>

lemma make_entry_id [simp]: "make_entry n = n"
  by (simp add: make_entry_def)

lemma make_node_id [simp]: "make_node n = n"
  by (simp add: make_node_def)

lemma make_header_valid [simp]: "has_valid_header (Some (make_header ctx))"
  by (simp add: make_header_def has_valid_header_def)

lemma source_of_make_header [simp]: "source_of (Some (make_header ctx)) = ctx_node ctx"
  by (simp add: source_of_def header_entry_def make_header_def entry_of_def ctx_node_def)

lemma make_node_peer_uuid [simp]: "node_uuid (make_node_peer peer e) = node_uuid e"
  by (simp add: make_node_peer_def)

lemma before_after_last:
  assumes "c \<in> set s"
  shows "s = before_last c s @ [c] @ after_last c s"
proof -
  obtain ys zs where s: "rev s = ys @ c # zs" and ys: "c \<notin> set ys"
    using assms split_list_first [of c "rev s"] by auto
  have "takeWhile (\<lambda>d. d \<noteq> c) (ys @ c # zs) = ys" "dropWhile (\<lambda>d. d \<noteq> c) (ys @ c # zs) = c # zs"
    using ys by (induction ys) auto
  then have "before_last c s = rev zs" "after_last c s = rev ys"
    using assms by (simp_all add: before_last_def after_last_def s)
  moreover have "s = rev (ys @ c # zs)" using s by (metis rev_rev_ident)
  ultimately show ?thesis by simp
qed

text \<open>A node announcing itself from its own host is taken as it is; any other entry with a
  port is moved to the caller's host.\<close>

lemma make_node_peer_same_host:
  assumes "CHR '':'' \<in> set (node_endpoint n)"
    and "before_last CHR '':'' peer = before_last CHR '':'' (node_endpoint n)"
  shows "make_node_peer peer n = n"
  using before_after_last [OF assms(1)] assms by (cases n) (simp add: make_node_peer_def)

end
