(* ===== verification/Run.thy ===== *)
theory Run
  imports Outcome
begin

text \<open>
  How the model writes C++ functions that change state.  A function takes the state and
  comes back with an outcome and the new state, or not at all (\<open>None\<close>): the outcome is the
  value returned, an exception, or \<open>Undefined\<close> where the code has no defined behaviour (an
  empty optional or the end of a container dereferenced).  \<open>bnd\<close> runs one function after the
  other and stops at the first exception.
\<close>

type_synonym ('s, 'a) run = "'s \<Rightarrow> ('a outcome \<times> 's) option"

definition ret :: "'a \<Rightarrow> ('s, 'a) run" where
  "ret x s = Some (Returns x, s)"

definition raise :: "exn \<Rightarrow> ('s, 'a) run" where
  "raise e s = Some (Throws e, s)"

definition no_behaviour :: "('s, 'a) run" where
  "no_behaviour s = Some (Undefined, s)"

definition bnd :: "('s, 'a) run \<Rightarrow> ('a \<Rightarrow> ('s, 'b) run) \<Rightarrow> ('s, 'b) run" where
  "bnd m f s =
     (case m s of
        None \<Rightarrow> None
      | Some (r, s') \<Rightarrow>
          (case r of
             Returns x \<Rightarrow> f x s'
           | Throws e \<Rightarrow> Some (Throws e, s')
           | Undefined \<Rightarrow> Some (Undefined, s')))"

definition on_exception :: "('s, 'a) run \<Rightarrow> (exn \<Rightarrow> ('s, 'a) run option) \<Rightarrow> ('s, 'a) run" where
  "on_exception m h s =
     (case m s of
        None \<Rightarrow> None
      | Some (r, s') \<Rightarrow>
          (case r of
             Throws e \<Rightarrow> (case h e of Some k \<Rightarrow> k s' | None \<Rightarrow> Some (Throws e, s'))
           | _ \<Rightarrow> Some (r, s')))"

definition gets :: "('s \<Rightarrow> 'a) \<Rightarrow> ('s, 'a) run" where
  "gets f s = Some (Returns (f s), s)"

definition modify :: "('s \<Rightarrow> 's) \<Rightarrow> ('s, unit) run" where
  "modify f s = Some (Returns (), f s)"

text \<open>A computation that reads the state and may fail.\<close>

definition reads :: "('s \<Rightarrow> 'a outcome) \<Rightarrow> ('s, 'a) run" where
  "reads f s = Some (f s, s)"

fun for_each :: "'a list \<Rightarrow> ('a \<Rightarrow> ('s, unit) run) \<Rightarrow> ('s, unit) run" where
  "for_each [] f = ret ()"
| "for_each (x # xs) f = bnd (f x) (\<lambda>_. for_each xs f)"

lemma run_simps [simp]:
  "bnd (ret x) f = f x" "bnd (raise e) g = raise e" "bnd no_behaviour h = no_behaviour"
  by (simp_all add: fun_eq_iff bnd_def ret_def raise_def no_behaviour_def)

lemma bnd_gets [simp]: "bnd (gets f) g s = g (f s) s"
  by (simp add: bnd_def gets_def)

lemma bnd_modify [simp]: "bnd (modify f) g s = g () (f s)"
  by (simp add: bnd_def modify_def)

lemma bnd_Some:
  "bnd m f s = Some (Returns y, t) \<longleftrightarrow>
     (\<exists>x s'. m s = Some (Returns x, s') \<and> f x s' = Some (Returns y, t))"
  by (auto simp: bnd_def split: option.splits outcome.splits prod.splits)

lemma bnd_returns [simp]: "m s = Some (Returns x, s') \<Longrightarrow> bnd m f s = f x s'"
  by (simp add: bnd_def)

text \<open>What every step keeps, the sequence keeps.\<close>

definition keeps :: "('s \<Rightarrow> bool) \<Rightarrow> ('s, 'a) run \<Rightarrow> bool" where
  "keeps I m = (\<forall>s r s'. I s \<longrightarrow> m s = Some (r, s') \<longrightarrow> I s')"

named_theorems keeps_rules \<open>invariants kept by the steps of a function\<close>

lemma keepsD: "keeps I m \<Longrightarrow> I s \<Longrightarrow> m s = Some (r, s') \<Longrightarrow> I s'"
  by (auto simp: keeps_def)

lemma keepsI: "(\<And>s r s'. I s \<Longrightarrow> m s = Some (r, s') \<Longrightarrow> I s') \<Longrightarrow> keeps I m"
  by (simp add: keeps_def)

lemma keeps_bnd [keeps_rules]:
  assumes m: "keeps I m" and f: "\<And>x. keeps I (f x)"
  shows "keeps I (bnd m f)"
proof (rule keepsI)
  fix s r s' assume s: "I s" "bnd m f s = Some (r, s')"
  then obtain q t where q: "m s = Some (q, t)" by (auto simp: bnd_def split: option.splits)
  then have "I t" using m s(1) by (blast dest: keepsD)
  then show "I s'" using s(2) q f by (cases q) (auto simp: bnd_def dest: keepsD)
qed

lemma keeps_on_exception [keeps_rules]:
  assumes m: "keeps I m" and h: "\<And>e k. h e = Some k \<Longrightarrow> keeps I k"
  shows "keeps I (on_exception m h)"
proof (rule keepsI)
  fix s r s' assume s: "I s" "on_exception m h s = Some (r, s')"
  then obtain q t where q: "m s = Some (q, t)" by (auto simp: on_exception_def split: option.splits)
  then have t: "I t" using m s(1) by (blast dest: keepsD)
  show "I s'"
  proof (cases q)
    case (Throws e)
    then show ?thesis using s(2) q t h by (cases "h e") (auto simp: on_exception_def dest: keepsD)
  qed (use s(2) q t in \<open>auto simp: on_exception_def\<close>)
qed

lemma keeps_basic [keeps_rules]:
  "keeps I (ret x)" "keeps I (raise e)" "keeps I no_behaviour" "keeps I (gets f)" "keeps I (reads g)"
  by (auto simp: keeps_def ret_def raise_def no_behaviour_def gets_def reads_def)

lemma keeps_modify [keeps_rules]: "(\<And>s. I s \<Longrightarrow> I (f s)) \<Longrightarrow> keeps I (modify f)"
  by (auto simp: keeps_def modify_def)

lemma keeps_if [keeps_rules]: "(b \<Longrightarrow> keeps I m) \<Longrightarrow> (\<not> b \<Longrightarrow> keeps I n) \<Longrightarrow> keeps I (if b then m else n)"
  by simp

lemma keeps_option [keeps_rules]:
  "keeps I m \<Longrightarrow> (\<And>x. keeps I (f x)) \<Longrightarrow> keeps I (case v of None \<Rightarrow> m | Some x \<Rightarrow> f x)"
  by (simp split: option.split)

lemma keeps_prod [keeps_rules]: "(\<And>x y. keeps I (f x y)) \<Longrightarrow> keeps I (case p of (x, y) \<Rightarrow> f x y)"
  by (cases p) simp

lemma keeps_let [keeps_rules]: "keeps I (f x) \<Longrightarrow> keeps I (let y = x in f y)"
  by simp

lemma keeps_for_each [keeps_rules]: "(\<And>x. keeps I (f x)) \<Longrightarrow> keeps I (for_each xs f)"
  by (induction xs) (auto intro: keeps_rules)

end
