(* ===== verification/Peers.thy ===== *)
theory Peers
  imports Router Messages Run
begin

text \<open>
  The processes of a ring and the remote calls between them.  A peer keeps the objects
  \<open>ChordFacade\<close> owns: its context, its router, the index of the next finger to fix and the
  signals sent to its listeners, newest last.  A \<open>world\<close> is the store of all processes by
  the address they listen on; the handlers read and write their own process in it, since a
  remote call may come back to the caller before it returns.  The stubs gRPC generates are
  the record \<open>stubs\<close>, a parameter of everything that calls out: given the caller's
  address, the target's address and the request, a stub returns status and response and
  the store after the call; \<open>None\<close> is a call that never returns.
\<close>

datatype chord_signal =
    Router_signal router_event
  | On_join node
  | On_leave node node
  | On_predecessor_update node node
  | On_successor_fail node

record peer =
  peer_ctx :: peer_context
  peer_router :: router
  peer_next :: nat
  peer_signals :: "chord_signal list"

record world =
  peers :: "endpoint \<Rightarrow> peer"
  alive :: "endpoint \<Rightarrow> bool"

type_synonym ('req, 'res) stub =
  "endpoint \<Rightarrow> endpoint \<Rightarrow> 'req \<Rightarrow> world \<Rightarrow> ((status_code \<times> 'res) \<times> world) option"

record stubs =
  stub_join :: "(join_request, join_response) stub"
  stub_successor :: "(successor_request, successor_response) stub"
  stub_stabilize :: "(stabilize_request, stabilize_response) stub"
  stub_notify :: "(notify_request, empty_response) stub"
  stub_leave :: "(leave_request, empty_response) stub"
  stub_ping :: "(ping_request, ping_response) stub"

subsection \<open>A process reading and writing its own state\<close>

definition self_ctx :: "endpoint \<Rightarrow> world \<Rightarrow> peer_context" where
  "self_ctx me w = peer_ctx (peers w me)"

definition self_router :: "endpoint \<Rightarrow> world \<Rightarrow> router" where
  "self_router me w = peer_router (peers w me)"

definition update_peer :: "endpoint \<Rightarrow> (peer \<Rightarrow> peer) \<Rightarrow> world \<Rightarrow> world" where
  "update_peer me f w = w\<lparr>peers := (peers w)(me := f (peers w me))\<rparr>"

definition emit :: "endpoint \<Rightarrow> chord_signal list \<Rightarrow> world \<Rightarrow> world" where
  "emit me evs = update_peer me (\<lambda>p. p\<lparr>peer_signals := peer_signals p @ evs\<rparr>)"

definition set_router :: "endpoint \<Rightarrow> router \<Rightarrow> world \<Rightarrow> world" where
  "set_router me r = update_peer me (\<lambda>p. p\<lparr>peer_router := r\<rparr>)"

text \<open>\<open>router->update(n)\<close>, \<open>router->remove(u, signal)\<close> and \<open>router->reset()\<close> on the own router.\<close>

definition router_update :: "endpoint \<Rightarrow> node \<Rightarrow> world \<Rightarrow> world" where
  "router_update me n w =
     (case update (self_ctx me w) n (self_router me w) of
        (_, r, evs) \<Rightarrow> emit me (List.map Router_signal evs) (set_router me r w))"

definition router_remove :: "endpoint \<Rightarrow> uuid \<Rightarrow> bool \<Rightarrow> world \<Rightarrow> world" where
  "router_remove me u signal w =
     (case remove (self_ctx me w) u signal (self_router me w) of
        (_, r, evs) \<Rightarrow> emit me (List.map Router_signal evs) (set_router me r w))"

definition router_clear :: "endpoint \<Rightarrow> world \<Rightarrow> world" where
  "router_clear me w = set_router me (router_reset (self_ctx me w) (self_router me w)) w"

definition self_successor :: "endpoint \<Rightarrow> world \<Rightarrow> node option" where
  "self_successor me w = router_successor (self_router me w)"

definition self_predecessor :: "endpoint \<Rightarrow> world \<Rightarrow> node option" where
  "self_predecessor me w = router_predecessor (self_router me w)"

definition self_node :: "endpoint \<Rightarrow> world \<Rightarrow> node" where
  "self_node me w = ctx_node (self_ctx me w)"

text \<open>The process dies.\<close>

definition crash :: "endpoint \<Rightarrow> world \<Rightarrow> world" where
  "crash me w = w\<lparr>alive := (alive w)(me := False)\<rparr>"

subsection \<open>Reading back\<close>

lemma update_peer_same [simp]: "peers (update_peer me f w) me = f (peers w me)"
  by (simp add: update_peer_def)

lemma update_peer_other [simp]: "other \<noteq> me \<Longrightarrow> peers (update_peer me f w) other = peers w other"
  by (simp add: update_peer_def)

lemma update_peer_alive [simp]: "alive (update_peer me f w) = alive w"
  by (simp add: update_peer_def)

lemma update_peer_id: "f (peers w me) = peers w me \<Longrightarrow> update_peer me f w = w"
  by (simp add: update_peer_def)

lemma emit_Nil [simp]: "emit me [] w = w"
  by (simp add: emit_def update_peer_id)

lemma self_emit [simp]:
  "self_ctx x (emit me evs w) = self_ctx x w" "self_router x (emit me evs w) = self_router x w"
  "alive (emit me evs w) = alive w"
  by (cases "x = me"; simp add: self_ctx_def self_router_def emit_def)+

lemma self_set_router [simp]:
  "self_ctx x (set_router me r w) = self_ctx x w"
  "self_router x (set_router me r w) = (if x = me then r else self_router x w)"
  "alive (set_router me r w) = alive w"
  by (cases "x = me"; simp add: self_ctx_def self_router_def set_router_def)+

lemma set_router_id [simp]: "set_router me (self_router me w) w = w"
  by (simp add: set_router_def self_router_def update_peer_id)

lemma router_update_ctx [simp]:
  "self_ctx x (router_update me n w) = self_ctx x w" "alive (router_update me n w) = alive w"
  by (simp_all add: router_update_def split: prod.split)

lemma router_update_router:
  "self_router x (router_update me n w) =
     (if x = me then learn (self_ctx me w) n (self_router me w) else self_router x w)"
  by (simp add: router_update_def learn_def split: prod.split)

lemma router_remove_ctx [simp]:
  "self_ctx x (router_remove me u s w) = self_ctx x w" "alive (router_remove me u s w) = alive w"
  by (simp_all add: router_remove_def split: prod.split)

lemma router_remove_router:
  "self_router x (router_remove me u s w) =
     (if x = me then fst (snd (remove (self_ctx me w) u s (self_router me w))) else self_router x w)"
  by (simp add: router_remove_def split: prod.split)

lemma router_clear_ctx [simp]:
  "self_ctx x (router_clear me w) = self_ctx x w" "alive (router_clear me w) = alive w"
  by (simp_all add: router_clear_def)

lemma router_clear_router:
  "self_router x (router_clear me w) =
     (if x = me then new_router (self_ctx me w) else self_router x w)"
  by (simp add: router_clear_def router_reset_def cleanup_def router_init_def new_router_def)

subsection \<open>Signals\<close>

text \<open>The events that a table gained a neighbour have no listener; everything else makes a process
  act.  Learning of a node is never heard.\<close>

fun has_listener :: "chord_signal \<Rightarrow> bool" where
  "has_listener (Router_signal (Successor_update old_node new_node)) = False"
| "has_listener (Router_signal (Predecessor_update old_node new_node)) = False"
| "has_listener sig = True"

definition heard :: "endpoint \<Rightarrow> world \<Rightarrow> chord_signal list" where
  "heard x w = filter has_listener (peer_signals (peers w x))"

lemma update_unheard: "update ctx n r = (b, r', evs) \<Longrightarrow> filter has_listener (List.map Router_signal evs) = []"
  by (auto simp: update_def Let_def split: option.splits if_splits)

lemma heard_router_update [simp]: "heard x (router_update me n w) = heard x w"
proof -
  obtain b r evs where u: "update (self_ctx me w) n (self_router me w) = (b, r, evs)" by (cases rule: prod_cases3)
  then have "filter has_listener (List.map Router_signal evs) = []" by (rule update_unheard)
  then show ?thesis
    by (cases "x = me") (simp_all add: heard_def router_update_def u emit_def set_router_def)
qed

end
