(* ===== verification/Client.thy ===== *)
theory Client
  imports Peers "HOL-Library.Monad_Syntax"
begin

text \<open>
  The calls a peer makes to others (\<open>include/chord.client.h\<close>, \<open>src/chord.client.cc\<close>).
  Each function takes the stubs \<open>N\<close>, the address \<open>me\<close> of the peer that runs it and the
  store of all processes; \<open>None\<close> is a call that never returns.  A response is returned with
  its status; when every call failed it is the empty one.  Deadlines only bound the time a
  call may take and are not modelled.
\<close>

definition empty_join_response :: join_response where
  "empty_join_response = \<lparr>jres_header = None, jres_successor = None, jres_predecessor = None\<rparr>"

definition empty_successor_response :: successor_response where
  "empty_successor_response = \<lparr>sres_header = None, sres_successor = None\<rparr>"

subsection \<open>Leaving\<close>

definition inform_about_leave :: "stubs \<Rightarrow> endpoint \<Rightarrow> node \<Rightarrow> world \<Rightarrow> (status_code \<times> world) option" where
  "inform_about_leave N me n w =
     do { ((st, _), w) \<leftarrow> stub_leave N me (node_endpoint n)
            \<lparr>lreq_header = Some (make_header (self_ctx me w)),
             lreq_entries = List.map make_entry (get_nodes (self_router me w))\<rparr> w;
          Some (st, w) }"

definition inform_successor_about_leave :: "stubs \<Rightarrow> endpoint \<Rightarrow> world \<Rightarrow> (status_code \<times> world) option" where
  "inform_successor_about_leave N me w =
     (case self_successor me w of
        None \<Rightarrow> Some (NOT_FOUND, w)
      | Some n \<Rightarrow>
          if n = self_node me w then Some (NOT_FOUND, w) else inform_about_leave N me n w)"

definition inform_predecessor_about_leave :: "stubs \<Rightarrow> endpoint \<Rightarrow> world \<Rightarrow> (status_code \<times> world) option" where
  "inform_predecessor_about_leave N me w =
     (case self_predecessor me w of
        None \<Rightarrow> Some (NOT_FOUND, w)
      | Some n \<Rightarrow> inform_about_leave N me n w)"

definition client_leave :: "stubs \<Rightarrow> endpoint \<Rightarrow> world \<Rightarrow> world option" where
  "client_leave N me w =
     do { (_, w) \<leftarrow> inform_successor_about_leave N me w;
          (_, w) \<leftarrow> inform_predecessor_about_leave N me w;
          Some w }"

subsection \<open>Joining\<close>

definition client_join :: "stubs \<Rightarrow> endpoint \<Rightarrow> endpoint \<Rightarrow> world \<Rightarrow> (status_code \<times> world) option" where
  "client_join N me addr w =
     do { ((st, res), w) \<leftarrow>
            stub_join N me addr \<lparr>jreq_header = Some (make_header (self_ctx me w))\<rparr> w;
          if st \<noteq> OK \<or> jres_successor res = None then Some (st, w)
          else
            let succ = make_node (entry_of (jres_successor res));
                pred = make_node (entry_of (jres_predecessor res))
            in Some (st, router_update me pred (router_update me succ w)) }"

text \<open>The code means to try the call on each node in turn.  But all attempts are made with the same
  context, and gRPC aborts a process that starts a second call with a context it has used: the
  first attempt decides, and after it failed the process dies unless there is no other node.\<close>

definition join_each ::
  "stubs \<Rightarrow> endpoint \<Rightarrow> join_request \<Rightarrow> node list \<Rightarrow> world
    \<Rightarrow> ((status_code \<times> join_response) \<times> world) option" where
  "join_each N me req ns w =
     (case ns of
        [] \<Rightarrow> Some ((CANCELLED, empty_join_response), w)
      | n # others \<Rightarrow>
          do { ((st, res), w) \<leftarrow> stub_join N me (node_endpoint n) req w;
               if st = OK then Some ((st, res), w)
               else if others = [] then Some ((CANCELLED, empty_join_response), w)
               else Some ((UNAVAILABLE, empty_join_response), crash me w) })"

definition client_forward_join ::
  "stubs \<Rightarrow> endpoint \<Rightarrow> join_request \<Rightarrow> world \<Rightarrow> ((status_code \<times> join_response) \<times> world) option" where
  "client_forward_join N me req w =
     join_each N me req
       (closest_preceding_nodes (self_ctx me w) (self_router me w)
         (node_uuid (header_entry (jreq_header req)))) w"

subsection \<open>Keeping the ring\<close>

definition client_notify :: "stubs \<Rightarrow> endpoint \<Rightarrow> world \<Rightarrow> (status_code \<times> world) option" where
  "client_notify N me w =
     (case self_successor me w of
        None \<Rightarrow> Some (OK, w)
      | Some n \<Rightarrow>
          if n = self_node me w then Some (OK, w)
          else do { ((st, _), w) \<leftarrow> stub_notify N me (node_endpoint n)
                      \<lparr>nreq_header = Some (make_header (self_ctx me w)),
                       nreq_old_node = None, nreq_new_node = None\<rparr> w;
                    Some (st, w) })"

definition client_notify_nodes ::
  "stubs \<Rightarrow> endpoint \<Rightarrow> node \<Rightarrow> node \<Rightarrow> node \<Rightarrow> world \<Rightarrow> (status_code \<times> world) option" where
  "client_notify_nodes N me target old_node new_node w =
     do { ((st, _), w) \<leftarrow> stub_notify N me (node_endpoint target)
            \<lparr>nreq_header = Some (make_header (self_ctx me w)),
             nreq_old_node = Some (make_entry old_node),
             nreq_new_node = Some (make_entry new_node)\<rparr> w;
          Some (st, w) }"

definition client_stabilize :: "stubs \<Rightarrow> endpoint \<Rightarrow> world \<Rightarrow> world option" where
  "client_stabilize N me w =
     (case self_successor me w of
        None \<Rightarrow> Some w
      | Some succ \<Rightarrow>
          if node_uuid succ = ctx_uuid (self_ctx me w) then Some w
          else do {
            ((st, res), w) \<leftarrow> stub_stabilize N me (node_endpoint succ)
               \<lparr>streq_header = Some (make_header (self_ctx me w))\<rparr> w;
            if st \<noteq> OK
            then Some (emit me [On_successor_fail succ] (router_remove me (node_uuid succ) True w))
            else
              let w =
                (case stres_predecessor res of
                   None \<Rightarrow> w
                 | Some e \<Rightarrow>
                     let pred = make_node e
                     in if between (ctx_uuid (self_ctx me w)) (node_uuid pred) (node_uuid succ)
                        then router_update me pred w else w)
              in do { (_, w) \<leftarrow> client_notify N me w; Some w } })"

definition client_ping :: "stubs \<Rightarrow> endpoint \<Rightarrow> node \<Rightarrow> world \<Rightarrow> (status_code \<times> world) option" where
  "client_ping N me n w =
     do { ((st, _), w) \<leftarrow> stub_ping N me (node_endpoint n)
            \<lparr>preq_header = Some (make_header (self_ctx me w))\<rparr> w;
          Some (st, w) }"

definition client_check :: "stubs \<Rightarrow> endpoint \<Rightarrow> world \<Rightarrow> world option" where
  "client_check N me w =
     (case (self_predecessor me w, self_successor me w) of
        (Some pred, Some _) \<Rightarrow>
          do { (st, w) \<leftarrow> client_ping N me pred w;
               Some (if st \<noteq> OK then router_remove me (node_uuid pred) True w else w) }
      | _ \<Rightarrow> Some w)"

subsection \<open>Finding a successor\<close>

fun successor_each ::
  "stubs \<Rightarrow> endpoint \<Rightarrow> successor_request \<Rightarrow> node list \<Rightarrow> world
    \<Rightarrow> ((status_code \<times> successor_response) \<times> world) option" where
  "successor_each N me req [] w = Some ((CANCELLED, empty_successor_response), w)"
| "successor_each N me req (n # ns) w =
     do { ((st, res), w) \<leftarrow> stub_successor N me (node_endpoint n) req w;
          if st = OK then Some ((st, res), w) else successor_each N me req ns w }"

definition client_successor ::
  "stubs \<Rightarrow> endpoint \<Rightarrow> successor_request \<Rightarrow> world
    \<Rightarrow> ((status_code \<times> successor_response) \<times> world) option" where
  "client_successor N me req w =
     successor_each N me (req\<lparr>sreq_header := Some (make_header (self_ctx me w))\<rparr>)
       (closest_preceding_nodes (self_ctx me w) (self_router me w) (sreq_id req)) w"

definition client_successor_id :: "stubs \<Rightarrow> endpoint \<Rightarrow> uuid \<Rightarrow> world \<Rightarrow> (entry outcome \<times> world) option" where
  "client_successor_id N me u w =
     do { ((st, res), w) \<leftarrow> client_successor N me
            \<lparr>sreq_header = Some (make_header (self_ctx me w)), sreq_id = u\<rparr> w;
          Some (if st \<noteq> OK then Throws (Grpc_exception st) else Returns (entry_of (sres_successor res)), w) }"

text \<open>The first node in the list that answers decides the result.\<close>

lemma successor_each_first:
  "stub_successor N me (node_endpoint n) req w = Some ((OK, res), w') \<Longrightarrow>
   successor_each N me req (n # ns) w = Some ((OK, res), w')"
  by simp

lemma successor_each_hd:
  "ns \<noteq> [] \<Longrightarrow> stub_successor N me (node_endpoint (hd ns)) req w = Some ((OK, res), w') \<Longrightarrow>
   successor_each N me req ns w = Some ((OK, res), w')"
  by (cases ns) simp_all

lemma successor_each_status:
  "successor_each N me req ns w = Some ((st, res), w') \<Longrightarrow> st = OK \<or> st = CANCELLED"
  by (induction N me req ns w rule: successor_each.induct)
    (auto split: bind_splits if_splits)

end
