(* ===== verification/Service.thy ===== *)
theory Service
  imports Client
begin

text \<open>
  The calls a peer answers (\<open>include/chord.service.h\<close>, \<open>src/chord.service.cc\<close>).  A handler
  gets the address \<open>me\<close> of the peer that runs it, the transport address \<open>from_addr\<close> of the
  connection where the code asks for it, and the request.  Dereferencing an empty
  predecessor or successor is \<open>Undefined\<close>.
\<close>

subsection \<open>join\<close>

definition join_reply :: "peer_context \<Rightarrow> node \<Rightarrow> node \<Rightarrow> join_response" where
  "join_reply ctx succ pred =
     \<lparr>jres_header = Some (make_header ctx),
      jres_successor = Some \<lparr>node_uuid = node_uuid succ, node_endpoint = node_endpoint succ\<rparr>,
      jres_predecessor = Some \<lparr>node_uuid = node_uuid pred, node_endpoint = node_endpoint pred\<rparr>\<rparr>"

definition service_join ::
  "stubs \<Rightarrow> endpoint \<Rightarrow> string \<Rightarrow> join_request \<Rightarrow> world
    \<Rightarrow> ((status_code \<times> join_response) outcome \<times> world) option" where
  "service_join N me from_addr req w =
     (if \<not> has_valid_header (jreq_header req)
      then Some (Returns (CANCELLED, empty_join_response), w)
      else do {
        let joining = source_of_peer from_addr (jreq_header req);
        (_, w) \<leftarrow> client_ping N me joining w;
        let ctx = self_ctx me w;
        let self = ctx_uuid ctx;
        let src = node_uuid joining;
        let pred = self_predecessor me w;
        let succ = successor_or_self ctx (self_router me w);
        if \<not> (pred = None \<and> node_uuid succ = self) \<and>
           (case pred of None \<Rightarrow> False
            | Some p \<Rightarrow> \<not> between self src (node_uuid succ) \<and> \<not> between (node_uuid p) src self)
        then do { (r, w) \<leftarrow> client_forward_join N me req w; Some (Returns r, w) }
        else if between self src (node_uuid succ)
        then Some (Returns (OK, join_reply ctx succ (ctx_node ctx)), w)
        else
          (case pred of
             None \<Rightarrow> Some (Undefined, w)
           | Some p \<Rightarrow>
               Some (Returns (OK,
                 if between (node_uuid p) src self then join_reply ctx (ctx_node ctx) p
                 else empty_join_response\<lparr>jres_header := Some (make_header ctx),
                        jres_successor := Some default_entry,
                        jres_predecessor := Some default_entry\<rparr>), w)) })"

subsection \<open>successor\<close>

text \<open>\<open>while (!client->ping(successor).ok())\<close>: unreachable successors are forgotten until one
  answers.  The loop ends only when a successor, or the peer itself, answers.\<close>

partial_function (option) ping_loop ::
  "stubs \<Rightarrow> endpoint \<Rightarrow> world \<Rightarrow> (node \<times> world) option" where
  "ping_loop N me w =
     do { let succ = successor_or_self (self_ctx me w) (self_router me w);
          (st, w) \<leftarrow> client_ping N me succ w;
          if st = OK then Some (succ, w)
          else ping_loop N me (router_remove me (node_uuid succ) True w) }"

definition service_successor ::
  "stubs \<Rightarrow> endpoint \<Rightarrow> successor_request \<Rightarrow> world
    \<Rightarrow> ((status_code \<times> successor_response) outcome \<times> world) option" where
  "service_successor N me req w =
     (if \<not> has_valid_header (sreq_header req)
      then Some (Returns (CANCELLED, empty_successor_response), w)
      else do {
        let w = router_update me (source_of (sreq_header req)) w;
        let self = ctx_uuid (self_ctx me w);
        (succ, w) \<leftarrow> ping_loop N me w;
        if sreq_id req = self \<or> between self (sreq_id req) (node_uuid succ)
        then Some (Returns (OK, empty_successor_response\<lparr>sres_successor := Some (make_entry succ)\<rparr>), w)
        else do { (r, w) \<leftarrow> client_successor N me req w; Some (Returns r, w) } })"

definition service_successor_id :: "stubs \<Rightarrow> endpoint \<Rightarrow> uuid \<Rightarrow> world \<Rightarrow> (entry outcome \<times> world) option" where
  "service_successor_id N me u w =
     do { (r, w) \<leftarrow> service_successor N me
            \<lparr>sreq_header = Some (make_header (self_ctx me w)), sreq_id = u\<rparr> w;
          Some (case r of
              Returns (st, res) \<Rightarrow>
                if st \<noteq> OK then Throws (Grpc_exception st) else Returns (entry_of (sres_successor res))
            | Throws e \<Rightarrow> Throws e
            | Undefined \<Rightarrow> Undefined, w) }"

subsection \<open>stabilize, leave, notify, ping\<close>

definition service_stabilize ::
  "endpoint \<Rightarrow> stabilize_request \<Rightarrow> world \<Rightarrow> (status_code \<times> stabilize_response) outcome \<times> world" where
  "service_stabilize me req w =
     (Returns (OK,
        \<lparr>stres_header = Some (make_header (self_ctx me w)),
         stres_predecessor =
           (case self_predecessor me w of
              None \<Rightarrow> None
            | Some p \<Rightarrow> Some \<lparr>node_uuid = node_uuid p, node_endpoint = node_endpoint p\<rparr>)\<rparr>), w)"

definition service_leave ::
  "endpoint \<Rightarrow> string \<Rightarrow> leave_request \<Rightarrow> world \<Rightarrow> (status_code \<times> empty_response) outcome \<times> world" where
  "service_leave me from_addr req w =
     (if \<not> has_valid_header (lreq_header req) then (Returns (CANCELLED, ()), w)
      else
        let leaving_node = source_of (lreq_header req);
            w = router_remove me (node_uuid leaving_node) False w
        in (Returns (OK, ()),
            fold (\<lambda>e. router_update me (make_node_peer from_addr e)) (lreq_entries req) w))"

definition service_notify ::
  "endpoint \<Rightarrow> string \<Rightarrow> notify_request \<Rightarrow> world \<Rightarrow> (status_code \<times> empty_response) outcome \<times> world" where
  "service_notify me from_addr req w =
     (if \<not> has_valid_header (nreq_header req) then (Returns (CANCELLED, ()), w)
      else
        let source = source_of (nreq_header req);
            successor = self_successor me w;
            predecessor = self_predecessor me w;
            self = ctx_uuid (self_ctx me w)
        in if source = self_node me w then (Returns (CANCELLED, ()), w)
           else
             (case (case predecessor of
                      None \<Rightarrow> Some True
                    | Some p \<Rightarrow>
                        if p = source then Some False
                        else (case successor of
                                None \<Rightarrow> None
                              | Some s \<Rightarrow> Some (between (node_uuid source) self (node_uuid s)))) of
                None \<Rightarrow> (Undefined, w)
              | Some changed_predecessor \<Rightarrow>
                  let w = router_update me source w;
                      w = (case (nreq_old_node req, nreq_new_node req) of
                             (Some old_node, Some new_node) \<Rightarrow>
                               router_update me (make_node_peer from_addr new_node)
                                 (router_update me (make_node_peer from_addr old_node) w)
                           | _ \<Rightarrow> w);
                      w = (if changed_predecessor
                           then emit me [On_predecessor_update
                                  (case predecessor of Some p \<Rightarrow> p | None \<Rightarrow> self_node me w) source] w
                           else w)
                  in (Returns (OK, ()), w)))"

definition service_ping ::
  "endpoint \<Rightarrow> ping_request \<Rightarrow> world \<Rightarrow> (status_code \<times> ping_response) outcome \<times> world" where
  "service_ping me req w =
     (if \<not> has_valid_header (preq_header req) then (Returns (CANCELLED, \<lparr>pres_header = None\<rparr>), w)
      else (Returns (OK, \<lparr>pres_header = Some (make_header (self_ctx me w))\<rparr>), w))"

subsection \<open>fix\_fingers\<close>

text \<open>The exception of a failed lookup is caught and only logged.\<close>

definition service_fix_fingers :: "stubs \<Rightarrow> endpoint \<Rightarrow> nat \<Rightarrow> world \<Rightarrow> (unit outcome \<times> world) option" where
  "service_fix_fingers N me index w =
     do { let fix_id = calc_successor_uuid_for_index (ctx_uuid (self_ctx me w)) index;
          (r, w) \<leftarrow> service_successor_id N me fix_id w;
          Some (case r of
              Returns e \<Rightarrow>
                let succ = make_node e
                in (Returns (),
                    if succ = self_node me w then router_remove me fix_id True w
                    else router_update me succ w)
            | Throws _ \<Rightarrow> (Returns (), w)
            | Undefined \<Rightarrow> (Undefined, w)) }"

end
