(* ===== verification/Chord_Facade.thy ===== *)
theory Chord_Facade
  imports Service
begin

text \<open>
  The object that drives a peer of the ring (\<open>include/chord.facade.h\<close>,
  \<open>src/chord.facade.cc\<close>): starting and stopping, joining and leaving, and the periodic
  tasks its scheduler runs.  The tasks and their periods are listed by \<open>facade_tasks\<close>; the
  scheduler itself is modelled apart.
\<close>

definition facade_create :: "endpoint \<Rightarrow> world \<Rightarrow> world" where
  "facade_create me w = router_clear me w"

definition facade_join_failed :: "endpoint \<Rightarrow> world \<Rightarrow> world" where
  "facade_join_failed me w = router_clear me w"

definition facade_join :: "stubs \<Rightarrow> endpoint \<Rightarrow> world \<Rightarrow> (unit outcome \<times> world) option" where
  "facade_join N me w =
     do { (st, w) \<leftarrow> client_join N me (ctx_join_addr (self_ctx me w)) w;
          if st \<noteq> OK then Some (Returns (), w)
          else
            (case (self_predecessor me w, self_successor me w) of
               (Some pred, Some succ) \<Rightarrow>
                 do { (status_pred, w) \<leftarrow> client_notify_nodes N me pred succ (self_node me w) w;
                      (case (self_successor me w, self_predecessor me w) of
                         (Some succ, Some pred) \<Rightarrow>
                           do { (status_succ, w) \<leftarrow>
                                  client_notify_nodes N me succ pred (self_node me w) w;
                                if status_pred \<noteq> OK \<or> status_succ \<noteq> OK
                                then Some (Returns (), facade_join_failed me w)
                                else
                                  (case self_successor me w of
                                     None \<Rightarrow> Some (Undefined, w)
                                   | Some succ \<Rightarrow> Some (Returns (), emit me [On_join succ] w)) }
                       | _ \<Rightarrow> Some (Undefined, w)) }
             | _ \<Rightarrow> Some (Undefined, w)) }"

text \<open>\<open>leave\<close> assigns the identifier without resetting the router.\<close>

definition facade_leave :: "stubs \<Rightarrow> endpoint \<Rightarrow> world \<Rightarrow> world option" where
  "facade_leave N me w =
     do { w \<leftarrow> client_leave N me w;
          let u = node_uuid (case self_predecessor me w of Some p \<Rightarrow> p | None \<Rightarrow> self_node me w);
          let w = update_peer me (\<lambda>p. p\<lparr>peer_ctx := (peer_ctx p)\<lparr>ctx_uuid := u\<rparr>\<rparr>) w;
          let successor_node = (case self_successor me w of Some n \<Rightarrow> n | None \<Rightarrow> self_node me w);
          let predecessor_node = (case self_predecessor me w of Some n \<Rightarrow> n | None \<Rightarrow> self_node me w);
          Some (emit me [On_leave predecessor_node successor_node] w) }"

definition facade_stop :: "stubs \<Rightarrow> endpoint \<Rightarrow> world \<Rightarrow> world option" where
  "facade_stop N me w = facade_leave N me w"

definition facade_successor :: "stubs \<Rightarrow> endpoint \<Rightarrow> uuid \<Rightarrow> world \<Rightarrow> (node outcome \<times> world) option" where
  "facade_successor N me u w =
     do { (r, w) \<leftarrow> service_successor_id N me u w;
          Some (case r of Returns e \<Rightarrow> Returns (make_node e) | Throws e \<Rightarrow> Throws e
                | Undefined \<Rightarrow> Undefined, w) }"

definition facade_successor_self :: "stubs \<Rightarrow> endpoint \<Rightarrow> world \<Rightarrow> (node outcome \<times> world) option" where
  "facade_successor_self N me w = facade_successor N me (ctx_uuid (self_ctx me w)) w"

definition facade_stabilize :: "stubs \<Rightarrow> endpoint \<Rightarrow> world \<Rightarrow> (unit outcome \<times> world) option" where
  "facade_stabilize N me w =
     do { w \<leftarrow> client_stabilize N me w;
          if \<not> has_successor (self_router me w) \<and> ctx_join_addr (self_ctx me w) \<noteq> []
          then facade_join N me w else Some (Returns (), w) }"

definition facade_check_predecessor :: "stubs \<Rightarrow> endpoint \<Rightarrow> world \<Rightarrow> (unit outcome \<times> world) option" where
  "facade_check_predecessor N me w = do { w \<leftarrow> client_check N me w; Some (Returns (), w) }"

definition facade_fix_fingers :: "stubs \<Rightarrow> endpoint \<Rightarrow> nat \<Rightarrow> world \<Rightarrow> (unit outcome \<times> world) option" where
  "facade_fix_fingers N me index w = service_fix_fingers N me index w"

text \<open>The scheduled task fixes the next finger, wrapping around the table.\<close>

definition facade_fix_next :: "stubs \<Rightarrow> endpoint \<Rightarrow> world \<Rightarrow> (unit outcome \<times> world) option" where
  "facade_fix_next N me w =
     (let i = (peer_next (peers w me) + 1) mod BITS
      in facade_fix_fingers N me i (update_peer me (\<lambda>p. p\<lparr>peer_next := i\<rparr>) w))"

definition facade_tasks ::
  "stubs \<Rightarrow> endpoint \<Rightarrow> world \<Rightarrow> (nat \<times> (world \<Rightarrow> (unit outcome \<times> world) option)) list" where
  "facade_tasks N me w =
     [(ctx_stabilize_period_ms (self_ctx me w), facade_stabilize N me),
      (ctx_check_period_ms (self_ctx me w), facade_check_predecessor N me),
      (ctx_check_period_ms (self_ctx me w), facade_fix_next N me)]"

text \<open>\<open>start\<close> bootstraps or joins and hands the tasks to the scheduler; forwarding a port with
  UPnP only changes the outside.\<close>

definition facade_start ::
  "stubs \<Rightarrow> endpoint \<Rightarrow> world
    \<Rightarrow> ((unit outcome \<times> (nat \<times> (world \<Rightarrow> (unit outcome \<times> world) option)) list) \<times> world) option" where
  "facade_start N me w =
     (if ctx_bootstrap (self_ctx me w)
      then let w = facade_create me w in Some ((Returns (), facade_tasks N me w), w)
      else do { (r, w) \<leftarrow> facade_join N me w;
                Some ((r, case r of Returns _ \<Rightarrow> facade_tasks N me w | _ \<Rightarrow> []), w) })"

lemma fix_next_index:
  "facade_fix_next N me w =
   facade_fix_fingers N me ((peer_next (peers w me) + 1) mod BITS)
     (update_peer me (\<lambda>p. p\<lparr>peer_next := (peer_next (peers w me) + 1) mod BITS\<rparr>) w)"
  by (simp add: facade_fix_next_def Let_def)

end
