(* ===== verification/Fingers.thy ===== *)
theory Fingers
  imports Router
begin

text \<open>
  What the routing table of \<open>Router\<close> guarantees.  The invariant \<open>router_wf\<close> says that the
  fingers start where \<open>calc_successor_uuid_for_index\<close> puts them, that a valid finger points
  beyond its start, that nodes come in ring order along the array with no gap below a
  valid finger, and that a table without predecessor is empty.  Every operation keeps it.
  On top of it: learning nodes computes the best node for every finger and for the
  predecessor, forgetting a node leaves no trace of it, and routing offers the known nodes
  before the identifier, nearest to it first.
\<close>

subsection \<open>Where the fingers start\<close>

abbreviation start :: "uuid \<Rightarrow> nat \<Rightarrow> uuid" where
  "start self i \<equiv> calc_successor_uuid_for_index self i"

lemma mod_uuid_max: "x mod uuid_max = (if x = uuid_max then 0 else x)"
proof (cases "x = uuid_max")
  case False
  then have "x < uuid_max"
    unfolding uuid_max_def by (metis word_n1_ge order_less_le)
  then have "unat (x mod uuid_max) = unat x"
    by (simp add: unat_mod word_less_nat_alt)
  then show ?thesis using False by (simp add: word_unat_eq_iff)
qed simp

lemma start_eq: "start self i = (if self + 2 ^ i = uuid_max then 0 else self + 2 ^ i)"
  by (simp add: calc_successor_uuid_for_index_def mod_uuid_max)

lemma pos_start:
  "pos self (start self i) = (if self + 2 ^ i = uuid_max then 2 ^ i + 1 else 2 ^ i)"
proof (cases "self + 2 ^ i = uuid_max")
  case True
  then have "self = - 1 - 2 ^ i" by (simp add: uuid_max_def algebra_simps)
  then have "- self = 2 ^ i + 1" by simp
  then show ?thesis using True by (simp add: start_eq pos_def)
next
  case False
  then show ?thesis by (simp add: start_eq pos_def)
qed

lemma unat_power: "i < 256 \<Longrightarrow> unat (2 ^ i :: uuid) = 2 ^ i"
proof -
  assume "i < 256"
  then have "(2::nat) ^ i < 2 ^ 256" by (intro power_strict_increasing) auto
  then have "unat (of_nat (2 ^ i) :: uuid) = 2 ^ i" by (simp only: unat_of_nat) simp
  then show ?thesis by simp
qed

lemma unat_power_Suc: "i < 256 \<Longrightarrow> unat (2 ^ i + 1 :: uuid) = 2 ^ i + 1"
proof -
  assume i: "i < 256"
  then have "(2::nat) ^ i \<le> 2 ^ 255" by (intro power_increasing) auto
  then have "(2::nat) ^ i + 1 < 2 ^ 256" by simp
  then show ?thesis using unat_power [OF i] by (simp add: unat_word_ariths)
qed

definition spos :: "uuid \<Rightarrow> nat \<Rightarrow> nat" where
  "spos self i = unat (pos self (start self i))"

lemma spos_eq: "i < 256 \<Longrightarrow> spos self i = (if self + 2 ^ i = uuid_max then 2 ^ i + 1 else 2 ^ i)"
  by (simp add: spos_def pos_start unat_power unat_power_Suc)

lemma spos_mono: "i \<le> j \<Longrightarrow> j < 256 \<Longrightarrow> spos self i \<le> spos self j"
proof (cases "i = j")
  case False
  assume "i \<le> j" "j < 256"
  with False have "Suc i \<le> j" by simp
  then have "(2::nat) ^ Suc i \<le> 2 ^ j" by (intro power_increasing) auto
  moreover have "(1::nat) \<le> 2 ^ i" by simp
  ultimately have "Suc (2 ^ i) \<le> (2::nat) ^ j" unfolding power_Suc by linarith
  then show ?thesis using \<open>j < 256\<close> \<open>Suc i \<le> j\<close> by (simp add: spos_eq)
qed simp

lemma spos_pos: "i < 256 \<Longrightarrow> 0 < spos self i"
  by (simp add: spos_eq)

lemma start_not_self: "i < 256 \<Longrightarrow> start self i \<noteq> self"
  using spos_pos [of i self] by (auto simp: spos_def)

lemma start_pos_mono: "i \<le> j \<Longrightarrow> j < 256 \<Longrightarrow> pos self (start self i) \<le> pos self (start self j)"
  using spos_mono [of i j self] by (simp add: spos_def word_le_nat_alt)

subsection \<open>The invariant\<close>

text \<open>Read along the array from the last finger to the first: a valid finger points beyond its
  start, and every finger after it is valid and points no further.\<close>

fun descending :: "uuid \<Rightarrow> router_entry list \<Rightarrow> bool" where
  "descending self [] = True"
| "descending self (e # es) =
     (descending self es \<and>
      (case ent_node e of None \<Rightarrow> True
       | Some n \<Rightarrow> pos self (ent_uuid e) < pos self (node_uuid n) \<and>
           list_all (\<lambda>f. case ent_node f of None \<Rightarrow> False
             | Some m \<Rightarrow> pos self (node_uuid m) \<le> pos self (node_uuid n)) es))"

definition starts_ok :: "uuid \<Rightarrow> router_entry list \<Rightarrow> bool" where
  "starts_ok self es = (map ent_uuid es = map (start self) [0..<BITS])"

definition router_wf :: "peer_context \<Rightarrow> router \<Rightarrow> bool" where
  "router_wf ctx r =
     (starts_ok (ctx_uuid ctx) (successors r) \<and>
      descending (ctx_uuid ctx) (rev (successors r)) \<and>
      (router_predecessor r = None \<longrightarrow> entry_nodes (successors r) = []))"

lemma starts_length: "starts_ok self es \<Longrightarrow> length es = BITS"
  unfolding starts_ok_def by (metis length_map length_upt minus_nat.diff_0)

lemma starts_nth: "starts_ok self es \<Longrightarrow> i < BITS \<Longrightarrow> ent_uuid (es ! i) = start self i"
  using starts_length [of self es]
  unfolding starts_ok_def by (metis add_0 length_map nth_map nth_upt)

lemma BITS_pos [simp]: "0 < BITS"
  by (simp add: BITS_def)

text \<open>The starts along the array, read from the last finger to the first.\<close>

definition starts_desc :: "uuid \<Rightarrow> router_entry list \<Rightarrow> bool" where
  "starts_desc self es =
     (sorted_wrt (\<lambda>e f. pos self (ent_uuid f) \<le> pos self (ent_uuid e)) es \<and>
      (\<forall>e\<in>set es. ent_uuid e \<noteq> self))"

lemma starts_desc_Cons [simp]:
  "starts_desc self (e # es) \<longleftrightarrow>
     (\<forall>f\<in>set es. pos self (ent_uuid f) \<le> pos self (ent_uuid e)) \<and> ent_uuid e \<noteq> self \<and>
     starts_desc self es"
  by (auto simp: starts_desc_def)

lemma starts_ok_desc: "starts_ok self es \<Longrightarrow> starts_desc self (rev es)"
proof -
  assume ok: "starts_ok self es"
  have len: "length es = BITS" using ok by (rule starts_length)
  have "ent_uuid e \<noteq> self" if e: "e \<in> set es" for e
  proof -
    obtain i where i: "i < BITS" "e = es ! i" using e len by (metis in_set_conv_nth)
    then have "ent_uuid e = start self i" using starts_nth [OF ok] by metis
    then show ?thesis using start_not_self i(1) unfolding BITS_def by metis
  qed
  moreover have "pos self (ent_uuid (es ! i)) \<le> pos self (ent_uuid (es ! j))"
    if "i < j" "j < length es" for i j
  proof -
    have "i < BITS" "j < BITS" using that len by auto
    then have "ent_uuid (es ! i) = start self i" "ent_uuid (es ! j) = start self j"
      using starts_nth [OF ok] by metis+
    moreover have "pos self (start self i) \<le> pos self (start self j)"
      using \<open>j < BITS\<close> that(1) unfolding BITS_def by (intro start_pos_mono) simp_all
    ultimately show ?thesis by metis
  qed
  then have "sorted_wrt (\<lambda>e f. pos self (ent_uuid e) \<le> pos self (ent_uuid f)) es"
    unfolding sorted_wrt_iff_nth_less by blast
  ultimately show ?thesis unfolding starts_desc_def by (simp add: sorted_wrt_rev)
qed

lemma descending_valid:
  "descending self es \<Longrightarrow> e \<in> set es \<Longrightarrow> ent_node e = Some n \<Longrightarrow>
   pos self (ent_uuid e) < pos self (node_uuid n)"
  by (induction es) auto

lemma entry_hit_pos:
  assumes "ent_uuid e \<noteq> ctx_uuid ctx"
    and "\<And>m. ent_node e = Some m \<Longrightarrow>
      pos (ctx_uuid ctx) (ent_uuid e) < pos (ctx_uuid ctx) (node_uuid m)"
  shows "entry_hit ctx n e \<longleftrightarrow>
    pos (ctx_uuid ctx) (ent_uuid e) < pos (ctx_uuid ctx) (node_uuid n) \<and>
    (case ent_node e of None \<Rightarrow> True
     | Some m \<Rightarrow> pos (ctx_uuid ctx) (node_uuid n) < pos (ctx_uuid ctx) (node_uuid m))"
  using assms by (cases "ent_node e") (simp_all add: entry_hit_def ring_simps)

subsection \<open>Learning\<close>

lemma update_entry_uuid [simp]: "ent_uuid (update_entry ctx n e) = ent_uuid e"
  by (simp add: update_entry_def)

lemma map_update_starts:
  "starts_ok self (map (update_entry ctx n) es) = starts_ok self es"
  by (simp add: starts_ok_def comp_def)

lemma descending_update:
  "starts_desc (ctx_uuid ctx) es \<Longrightarrow> descending (ctx_uuid ctx) es \<Longrightarrow>
   descending (ctx_uuid ctx) (map (update_entry ctx n) es)"
proof (induction es)
  case (Cons e es)
  let ?p = "pos (ctx_uuid ctx)"
  have hit: "entry_hit ctx n f \<longleftrightarrow> ?p (ent_uuid f) < ?p (node_uuid n) \<and>
      (case ent_node f of None \<Rightarrow> True | Some m \<Rightarrow> ?p (node_uuid n) < ?p (node_uuid m))"
    if "f \<in> set (e # es)" for f
    using that Cons.prems descending_valid [OF Cons.prems(2) that]
    by (intro entry_hit_pos) (auto simp: starts_desc_def)
  have tail: "case ent_node (update_entry ctx n f) of None \<Rightarrow> False
      | Some m \<Rightarrow> ?p (node_uuid m) \<le> ?p (node_uuid k)"
    if f: "f \<in> set es" and k: "ent_node (update_entry ctx n e) = Some k" for f k
  proof -
    have le: "?p (ent_uuid f) \<le> ?p (ent_uuid e)" using f Cons.prems(1) by simp
    show ?thesis
    proof (cases "entry_hit ctx n e")
      case True
      then have "k = n" "?p (ent_uuid f) < ?p (node_uuid n)"
        using k hit [of e] le by (auto simp: update_entry_def)
      then show ?thesis
        using hit [of f] f by (cases "ent_node f") (auto simp: update_entry_def)
    next
      case False
      then have "ent_node e = Some k" using k by (simp add: update_entry_def)
      then obtain m where "ent_node f = Some m" "?p (node_uuid m) \<le> ?p (node_uuid k)"
        using Cons.prems(2) f by (auto simp: list_all_iff split: option.splits)
      then show ?thesis using hit [of f] f by (auto simp: update_entry_def)
    qed
  qed
  have "?p (ent_uuid e) < ?p (node_uuid k)" if "ent_node (update_entry ctx n e) = Some k" for k
    using that hit [of e] Cons.prems(2) by (auto simp: update_entry_def split: if_splits)
  then show ?case
    using Cons tail by (auto simp: list_all_iff split: option.splits)
qed simp

lemma learn_self [simp]: "learn ctx (ctx_node ctx) r = r"
  by (simp add: learn_def update_def)

lemma learn_eq:
  "n \<noteq> ctx_node ctx \<Longrightarrow>
   learn ctx n r = r\<lparr>successors := map (update_entry ctx n) (successors r),
     router_predecessor :=
       (if replaces_predecessor ctx n (router_predecessor r) then Some n else router_predecessor r)\<rparr>"
  by (simp add: learn_def update_def Let_def)

lemma entry_nodes_eq_Nil: "entry_nodes es = [] \<longleftrightarrow> (\<forall>e\<in>set es. ent_node e = None)"
  by (induction es) (auto simp: entry_nodes_def List.map_filter_simps split: option.splits)

lemma set_entry_nodes: "set (entry_nodes es) = {n. \<exists>e\<in>set es. ent_node e = Some n}"
  by (induction es) (auto simp: entry_nodes_def List.map_filter_simps split: option.splits)

lemma learn_wf [router_inv]: "router_wf ctx r \<Longrightarrow> router_wf ctx (learn ctx n r)"
proof (cases "n = ctx_node ctx")
  case False
  assume wf: "router_wf ctx r"
  then have "descending (ctx_uuid ctx) (map (update_entry ctx n) (rev (successors r)))"
    by (intro descending_update starts_ok_desc) (simp_all add: router_wf_def)
  then show ?thesis
    using wf False
    by (auto simp: router_wf_def learn_eq map_update_starts rev_map replaces_predecessor_def)
qed simp

lemma new_router_wf [router_inv]: "router_wf ctx (new_router ctx)"
proof -
  have none: "\<forall>e\<in>set (init_entries ctx). ent_node e = None"
    by (auto simp: init_entries_def)
  have "descending self es" if "\<forall>e\<in>set es. ent_node e = None" for self es
    using that by (induction es) auto
  then show ?thesis
    using none
    by (simp add: router_wf_def new_router_def entry_nodes_eq_Nil starts_ok_def)
      (simp add: init_entries_def)
qed

subsection \<open>Learning computes the best nodes\<close>

text \<open>The node a finger with start \<open>s\<close> should hold when \<open>N\<close> are the nodes heard of: the first
  one strictly behind the start, before coming back to \<open>self\<close>.\<close>

definition best_finger :: "uuid \<Rightarrow> uuid \<Rightarrow> node set \<Rightarrow> node option \<Rightarrow> bool" where
  "best_finger self s N f =
     (case f of
        None \<Rightarrow> \<forall>n\<in>N. \<not> pos self s < pos self (node_uuid n)
      | Some m \<Rightarrow> m \<in> N \<and> pos self s < pos self (node_uuid m) \<and>
          (\<forall>n\<in>N. pos self s < pos self (node_uuid n) \<longrightarrow>
             pos self (node_uuid m) \<le> pos self (node_uuid n)))"

text \<open>The predecessor to hold: the last node before coming back to \<open>self\<close>.\<close>

definition best_predecessor :: "uuid \<Rightarrow> node set \<Rightarrow> node option \<Rightarrow> bool" where
  "best_predecessor self N p =
     (case p of
        None \<Rightarrow> N = {}
      | Some m \<Rightarrow> m \<in> N \<and> (\<forall>n\<in>N. pos self (node_uuid n) \<le> pos self (node_uuid m)))"

lemma best_finger_update:
  assumes "ent_uuid e \<noteq> ctx_uuid ctx"
    and "best_finger (ctx_uuid ctx) (ent_uuid e) N (ent_node e)"
  shows "best_finger (ctx_uuid ctx) (ent_uuid e) (insert n N) (ent_node (update_entry ctx n e))"
proof -
  have "entry_hit ctx n e \<longleftrightarrow>
      pos (ctx_uuid ctx) (ent_uuid e) < pos (ctx_uuid ctx) (node_uuid n) \<and>
      (case ent_node e of None \<Rightarrow> True
       | Some m \<Rightarrow> pos (ctx_uuid ctx) (node_uuid n) < pos (ctx_uuid ctx) (node_uuid m))"
    using assms by (intro entry_hit_pos) (auto simp: best_finger_def)
  then show ?thesis
    using assms(2)
    by (cases "ent_node e") (fastforce simp: best_finger_def update_entry_def)+
qed

lemma between_before_self: "between s x self \<longleftrightarrow> pos self s < pos self x"
  by (cases "s = self") (simp_all add: ring_simps pos_gt_0)

lemma best_predecessor_update:
  "best_predecessor (ctx_uuid ctx) N p \<Longrightarrow>
   best_predecessor (ctx_uuid ctx) (insert n N)
     (if replaces_predecessor ctx n p then Some n else p)"
  by (cases p)
    (fastforce simp: best_predecessor_def replaces_predecessor_def between_before_self)+

definition best_table :: "peer_context \<Rightarrow> node set \<Rightarrow> router \<Rightarrow> bool" where
  "best_table ctx N r =
     (starts_ok (ctx_uuid ctx) (successors r) \<and>
      (\<forall>e\<in>set (successors r). best_finger (ctx_uuid ctx) (ent_uuid e) N (ent_node e)) \<and>
      best_predecessor (ctx_uuid ctx) N (router_predecessor r))"

lemma starts_ok_not_self: "starts_ok self es \<Longrightarrow> e \<in> set es \<Longrightarrow> ent_uuid e \<noteq> self"
  using starts_ok_desc [of self es] by (simp add: starts_desc_def)

lemma best_table_learn:
  "best_table ctx N r \<Longrightarrow> n \<noteq> ctx_node ctx \<Longrightarrow> best_table ctx (insert n N) (learn ctx n r)"
  using starts_ok_not_self best_finger_update best_predecessor_update
  by (auto simp: best_table_def learn_eq map_update_starts)

lemma best_table_new: "best_table ctx {} (new_router ctx)"
  by (auto simp: best_table_def best_finger_def best_predecessor_def new_router_def init_entries_def
      starts_ok_def)

lemma best_table_fold:
  "best_table ctx N r \<Longrightarrow> best_table ctx (N \<union> (set ns - {ctx_node ctx})) (fold (learn ctx) ns r)"
proof (induction ns arbitrary: N r)
  case (Cons n ns)
  show ?case
  proof (cases "n = ctx_node ctx")
    case True
    with Cons show ?thesis by simp
  next
    case False
    then have "best_table ctx (insert n N) (learn ctx n r)" using Cons.prems by (rule best_table_learn [rotated])
    from Cons.IH [OF this] False show ?thesis by (simp add: insert_Diff_if)
  qed
qed simp

text \<open>A best table does not change when a node it accounts for is heard of again.\<close>

lemma best_finger_no_hit:
  assumes "ent_uuid e \<noteq> ctx_uuid ctx" "n \<in> N"
    and "best_finger (ctx_uuid ctx) (ent_uuid e) N (ent_node e)"
  shows "\<not> entry_hit ctx n e"
proof -
  have "entry_hit ctx n e \<longleftrightarrow>
      pos (ctx_uuid ctx) (ent_uuid e) < pos (ctx_uuid ctx) (node_uuid n) \<and>
      (case ent_node e of None \<Rightarrow> True
       | Some m \<Rightarrow> pos (ctx_uuid ctx) (node_uuid n) < pos (ctx_uuid ctx) (node_uuid m))"
    using assms by (intro entry_hit_pos) (auto simp: best_finger_def split: option.splits)
  then show ?thesis
    using assms(2,3) by (cases "ent_node e") (auto simp: best_finger_def)
qed

lemma best_table_learn_known:
  assumes "best_table ctx N r" "n \<in> N"
  shows "learn ctx n r = r"
proof (cases "n = ctx_node ctx")
  case False
  have "update_entry ctx n e = e" if "e \<in> set (successors r)" for e
    using assms that starts_ok_not_self best_finger_no_hit
    by (fastforce simp: best_table_def update_entry_def)
  then have "map (update_entry ctx n) (successors r) = successors r" by (simp add: map_idI)
  moreover have "\<not> replaces_predecessor ctx n (router_predecessor r)"
    using assms
    by (cases "router_predecessor r")
      (auto simp: best_table_def best_predecessor_def replaces_predecessor_def between_before_self)
  ultimately show ?thesis using False by (simp add: learn_eq)
qed simp

subsection \<open>Forgetting\<close>

definition not_uuid :: "uuid \<Rightarrow> node option \<Rightarrow> bool" where
  "not_uuid u p = (case p of None \<Rightarrow> True | Some n \<Rightarrow> node_uuid n \<noteq> u)"

lemma remove_loop_uuids: "map ent_uuid (fst (remove_loop ctx u es p repl)) = map ent_uuid es"
  by (induction ctx u es p repl rule: remove_loop.induct) (simp_all add: Let_def split: option.split)

lemma remove_loop_clears:
  "not_uuid u repl \<Longrightarrow> e \<in> set (fst (remove_loop ctx u es p repl)) \<Longrightarrow> not_uuid u (ent_node e)"
proof (induction ctx u es p repl rule: remove_loop.induct)
  case (2 ctx u e' es p repl)
  then show ?case
    by (cases "ent_node e'") (auto simp: Let_def not_uuid_def next_replacement_def split: if_splits)
qed simp

lemma remove_loop_nodes:
  "e \<in> set (fst (remove_loop ctx u es p repl)) \<Longrightarrow> ent_node e = Some n \<Longrightarrow>
   n \<in> set (entry_nodes es) \<or> repl = Some n"
proof (induction ctx u es p repl rule: remove_loop.induct)
  case (2 ctx u e' es p repl)
  then show ?case
    by (cases "ent_node e'")
      (auto simp: Let_def entry_nodes_def List.map_filter_simps next_replacement_def split: if_splits)
qed simp

lemma remove_loop_pred:
  "snd (remove_loop ctx u es p repl) = Some n \<Longrightarrow>
   p = Some n \<or> n \<in> set (entry_nodes es) \<and> node_uuid n \<noteq> u"
proof (induction ctx u es p repl rule: remove_loop.induct)
  case (2 ctx u e' es p repl)
  then show ?case
    by (cases "ent_node e'"; cases p)
      (auto simp: Let_def entry_nodes_def List.map_filter_simps next_predecessor_def split: if_splits)
qed simp

lemma next_predecessor_None [simp]: "next_predecessor u n p = None \<longleftrightarrow> p = None"
  by (cases p) (auto simp: next_predecessor_def)

lemma not_uuid_next_predecessor [simp]:
  "not_uuid u (next_predecessor u n p) \<longleftrightarrow> not_uuid u p \<or> node_uuid n \<noteq> u"
  by (cases p) (auto simp: next_predecessor_def not_uuid_def)

text \<open>The loop loses the predecessor only when no finger holds another node.\<close>

lemma remove_loop_pred_None: "snd (remove_loop ctx u es p repl) = None \<longleftrightarrow> p = None"
  by (induction ctx u es p repl rule: remove_loop.induct) (simp_all add: Let_def split: option.split)

lemma remove_loop_pred_kept:
  "not_uuid u p \<or> (\<exists>n\<in>set (entry_nodes es). node_uuid n \<noteq> u) \<Longrightarrow>
   not_uuid u (snd (remove_loop ctx u es p repl))"
proof (induction ctx u es p repl rule: remove_loop.induct)
  case (2 ctx u e' es p repl)
  then show ?case
    by (cases "ent_node e'") (auto simp: Let_def set_entry_nodes)
qed (simp add: entry_nodes_def List.map_filter_simps)

text \<open>The replacement is the nearest finger behind, so the order of the array is kept.\<close>

definition ahead :: "uuid \<Rightarrow> node option \<Rightarrow> router_entry list \<Rightarrow> bool" where
  "ahead self repl es =
     (case repl of
        None \<Rightarrow> True
      | Some m \<Rightarrow> list_all (\<lambda>f. case ent_node f of None \<Rightarrow> False
          | Some k \<Rightarrow> pos self (node_uuid k) \<le> pos self (node_uuid m)) es)"

lemma ahead_Cons [simp]:
  "ahead self repl (e # es) \<longleftrightarrow>
     ahead self repl es \<and>
     (\<forall>m. repl = Some m \<longrightarrow>
        (\<exists>k. ent_node e = Some k \<and> pos self (node_uuid k) \<le> pos self (node_uuid m)))"
  by (auto simp: ahead_def split: option.split)

lemma descending_Cons_ahead:
  "descending self (e # es) \<longleftrightarrow> descending self es \<and> ahead self (ent_node e) es \<and>
     (case ent_node e of None \<Rightarrow> True
      | Some n \<Rightarrow> pos self (ent_uuid e) < pos self (node_uuid n))"
  by (auto simp: ahead_def split: option.split)

lemma ahead_mono:
  assumes "ahead self (Some n) es" "\<And>m. repl = Some m \<Longrightarrow> pos self (node_uuid n) \<le> pos self (node_uuid m)"
  shows "ahead self repl es"
proof (cases repl)
  case (Some m)
  then have "pos self (node_uuid n) \<le> pos self (node_uuid m)" using assms(2) by simp
  then show ?thesis using assms(1) Some
    by (auto simp: ahead_def list_all_iff split: option.splits intro: order_trans)
qed (simp add: ahead_def)

lemma remove_loop_descending:
  "descending (ctx_uuid ctx) es \<Longrightarrow> ahead (ctx_uuid ctx) repl es \<Longrightarrow>
   descending (ctx_uuid ctx) (fst (remove_loop ctx u es p repl)) \<and>
   ahead (ctx_uuid ctx) repl (fst (remove_loop ctx u es p repl))"
proof (induction ctx u es p repl rule: remove_loop.induct)
  case (2 ctx u e es p repl)
  let ?p = "pos (ctx_uuid ctx)"
  show ?case
  proof (cases "ent_node e")
    case None
    then have "repl = None" using "2.prems"(2) by (cases repl) (auto simp: ahead_def)
    then show ?thesis using "2.IH"(1) [OF None] "2.prems" None
      by (simp add: Let_def)
  next
    case (Some n)
    let ?r = "next_replacement ctx u n repl"
    have es: "descending (ctx_uuid ctx) es" "ahead (ctx_uuid ctx) (Some n) es"
      and n: "?p (ent_uuid e) < ?p (node_uuid n)"
      using "2.prems"(1) Some by (auto simp: descending_Cons_ahead simp del: descending.simps)
    have nself: "node_uuid n \<noteq> ctx_uuid ctx" using n by (auto simp: word_gt_0)
    have repl_es: "ahead (ctx_uuid ctx) repl es"
      using "2.prems"(2) by (simp add: ahead_def split: option.splits)
    have le: "?p (node_uuid n) \<le> ?p (node_uuid m)" if "repl = Some m" for m
      using "2.prems"(2) that Some by (simp add: ahead_def)
    have "ahead (ctx_uuid ctx) ?r es"
      using es repl_es by (simp add: next_replacement_def)
    from "2.IH"(2) [OF Some es(1) this] obtain rest where
      rest: "rest = fst (remove_loop ctx u es (next_predecessor u n p) ?r)"
        "descending (ctx_uuid ctx) rest" "ahead (ctx_uuid ctx) ?r rest"
      by blast
    show ?thesis
    proof (cases "node_uuid n = u")
      case True
      then have "?r = repl" by (simp add: next_replacement_def)
      then show ?thesis using True Some rest le n
        by (auto simp: descending_Cons_ahead Let_def simp del: descending.simps split: option.split)
    next
      case False
      then have r: "?r = Some n" using nself by (simp add: next_replacement_def)
      have "ahead (ctx_uuid ctx) repl rest"
        using rest(3) le unfolding r by (rule ahead_mono)
      then show ?thesis using False Some rest le n unfolding r
        by (auto simp: descending_Cons_ahead Let_def r simp del: descending.simps)
    qed
  qed
qed (auto simp: ahead_def split: option.split)

lemma router_wf_fields:
  assumes "router_wf ctx r"
  shows "starts_ok (ctx_uuid ctx) (successors r)" "length (successors r) = BITS"
    "descending (ctx_uuid ctx) (rev (successors r))" "successors r \<noteq> []"
    "router_predecessor r = None \<Longrightarrow> entry_nodes (successors r) = []"
proof -
  show "starts_ok (ctx_uuid ctx) (successors r)" "descending (ctx_uuid ctx) (rev (successors r))"
    "router_predecessor r = None \<Longrightarrow> entry_nodes (successors r) = []"
    using assms by (auto simp: router_wf_def)
  then show len: "length (successors r) = BITS" by (simp add: starts_length)
  show "successors r \<noteq> []" using len by (auto simp: BITS_def)
qed

text \<open>No finger holds the peer's own identifier.\<close>

lemma router_wf_not_self:
  "router_wf ctx r \<Longrightarrow> n \<in> set (entry_nodes (successors r)) \<Longrightarrow> node_uuid n \<noteq> ctx_uuid ctx"
  using descending_valid [of "ctx_uuid ctx" "rev (successors r)"]
  by (fastforce simp: set_entry_nodes dest: router_wf_fields(3))

lemma remove_initial_ahead:
  assumes wf: "router_wf ctx r"
  shows "ahead (ctx_uuid ctx) (remove_initial ctx u (successors r)) (rev (successors r))"
proof -
  obtain e es where es: "rev (successors r) = e # es"
    using router_wf_fields(4) [OF wf] by (cases "rev (successors r)") auto
  then have last: "last (successors r) = e" by (metis last_rev list.sel(1) rev_rev_ident hd_rev)
  have "ahead (ctx_uuid ctx) (ent_node e) (e # es)"
    using router_wf_fields(3) [OF wf] unfolding es by (auto simp: ahead_def split: option.splits)
  then show ?thesis unfolding es
    by (auto simp: remove_initial_def last ahead_def split: option.splits)
qed

lemma remove_initial_not_uuid: "u \<noteq> ctx_uuid ctx \<Longrightarrow> not_uuid u (remove_initial ctx u es)"
  by (simp add: remove_initial_def not_uuid_def split: option.split)

definition removed :: "peer_context \<Rightarrow> uuid \<Rightarrow> router \<Rightarrow> router_entry list \<times> node option" where
  "removed ctx u r =
     remove_loop ctx u (rev (successors r)) (router_predecessor r) (remove_initial ctx u (successors r))"

lemma remove_router:
  "fst (snd (remove ctx u signal r)) =
     r\<lparr>successors := rev (fst (removed ctx u r)),
       router_predecessor :=
         (case snd (removed ctx u r) of Some n \<Rightarrow> if node_uuid n = u then None else Some n | None \<Rightarrow> None)\<rparr>"
  by (simp add: remove_def removed_def Let_def split: prod.split)

lemma remove_wf [router_inv]:
  assumes wf: "router_wf ctx r"
  shows "router_wf ctx (fst (snd (remove ctx u signal r)))"
proof -
  let ?es = "fst (removed ctx u r)"
  have "map ent_uuid (rev ?es) = map ent_uuid (successors r)"
    by (simp add: removed_def remove_loop_uuids rev_map [symmetric])
  then have starts: "starts_ok (ctx_uuid ctx) (rev ?es)"
    using router_wf_fields(1) [OF wf] by (simp add: starts_ok_def)
  have desc: "descending (ctx_uuid ctx) ?es"
    unfolding removed_def
    using remove_loop_descending [OF router_wf_fields(3) [OF wf] remove_initial_ahead [OF wf]] by blast
  have none: "entry_nodes (rev ?es) = []"
    if p: "router_predecessor r = None \<or> \<not> not_uuid u (snd (removed ctx u r))"
  proof (rule ccontr)
    assume "entry_nodes (rev ?es) \<noteq> []"
    then obtain e n where e: "e \<in> set ?es" "ent_node e = Some n"
      by (auto simp: entry_nodes_eq_Nil)
    have nodes: "n \<in> set (entry_nodes (rev (successors r))) \<or>
        remove_initial ctx u (successors r) = Some n"
      using remove_loop_nodes e unfolding removed_def by blast
    have "remove_initial ctx u (successors r) = Some n \<Longrightarrow> n \<in> set (entry_nodes (successors r))"
      using router_wf_fields(4) [OF wf]
      by (auto simp: remove_initial_def set_entry_nodes split: option.splits if_splits)
    then have n: "n \<in> set (entry_nodes (successors r))"
      using nodes by (auto simp: set_entry_nodes)
    then have "node_uuid n \<noteq> ctx_uuid ctx" by (rule router_wf_not_self [OF wf])
    have "entry_nodes (successors r) \<noteq> []" using n by auto
    then have "router_predecessor r \<noteq> None" using router_wf_fields(5) [OF wf] by auto
    then have pu: "\<not> not_uuid u (snd (removed ctx u r))" using p by auto
    then have "node_uuid n = u"
      using remove_loop_pred_kept [of u "router_predecessor r" "rev (successors r)" ctx] n
      unfolding removed_def by (auto simp: set_entry_nodes)
    moreover have "not_uuid u (ent_node e)"
    proof -
      have "u \<noteq> ctx_uuid ctx" using calculation \<open>node_uuid n \<noteq> ctx_uuid ctx\<close> by simp
      from remove_loop_clears [OF remove_initial_not_uuid [OF this]] e(1)
      show ?thesis unfolding removed_def by blast
    qed
    ultimately show False using e(2) by (simp add: not_uuid_def)
  qed
  have "router_predecessor r = None \<or> \<not> not_uuid u (snd (removed ctx u r))"
    if "router_predecessor (fst (snd (remove ctx u signal r))) = None"
    using that remove_loop_pred_None unfolding remove_router removed_def
    by (auto simp: not_uuid_def split: option.splits if_splits)
  then show ?thesis
    using starts desc none by (simp add: router_wf_def remove_router)
qed

text \<open>Forgetting an identifier other than the peer's own leaves no trace of it.\<close>

definition router_nodes :: "router \<Rightarrow> node set" where
  "router_nodes r = set (entry_nodes (successors r)) \<union> set_option (router_predecessor r)"

lemma remove_clears:
  assumes "u \<noteq> ctx_uuid ctx" "n \<in> router_nodes (fst (snd (remove ctx u signal r)))"
  shows "node_uuid n \<noteq> u"
proof -
  have "node_uuid m \<noteq> u" if "e \<in> set (fst (removed ctx u r))" "ent_node e = Some m" for e m
    using remove_loop_clears [OF remove_initial_not_uuid [OF assms(1)]] that
    unfolding removed_def not_uuid_def by fastforce
  then show ?thesis
    using assms(2)
    by (auto simp: router_nodes_def remove_router set_entry_nodes
        split: option.splits if_splits)
qed

lemma remove_no_new:
  assumes "successors r \<noteq> []" "n \<in> router_nodes (fst (snd (remove ctx u signal r)))"
  shows "n \<in> router_nodes r"
proof -
  have init: "remove_initial ctx u (successors r) = Some n \<Longrightarrow> n \<in> set (entry_nodes (successors r))"
    using assms(1) by (auto simp: remove_initial_def set_entry_nodes split: option.splits if_splits)
  have entries: "n \<in> set (entry_nodes (successors r))"
    if "e \<in> set (fst (removed ctx u r))" "ent_node e = Some n" for e
    using remove_loop_nodes [OF that(1) [unfolded removed_def] that(2)] init
    by (auto simp: set_entry_nodes)
  have "router_predecessor r = Some n \<or> n \<in> set (entry_nodes (successors r))"
    if "snd (removed ctx u r) = Some n"
    using remove_loop_pred [OF that [unfolded removed_def]] by (auto simp: set_entry_nodes)
  then show ?thesis
    using assms(2) entries
    by (auto simp: router_nodes_def remove_router set_entry_nodes split: option.splits if_splits)
qed

subsection \<open>Routing\<close>

lemma preceding_loop_set:
  "set (preceding_loop self u es ret) =
     set ret \<union> {n \<in> set (entry_nodes es). between self (node_uuid n) u}"
proof (induction es arbitrary: ret)
  case (Cons e es)
  show ?case
  proof (cases "ent_node e")
    case (Some n)
    have "n \<in> set ret" if "ret \<noteq> []" "last ret = n" using that by auto
    then show ?thesis
      using Some Cons by (auto simp: set_entry_nodes)
  qed (use Cons in \<open>auto simp: set_entry_nodes\<close>)
qed (simp add: set_entry_nodes)

abbreviation nearest_first :: "uuid \<Rightarrow> node list \<Rightarrow> bool" where
  "nearest_first self ns \<equiv>
     sorted_wrt (\<lambda>m n. pos self (node_uuid n) \<le> pos self (node_uuid m)) ns"

lemma preceding_loop_sorted:
  "descending self es \<Longrightarrow> nearest_first self ret \<Longrightarrow>
   (\<forall>m\<in>set ret. \<forall>n\<in>set (entry_nodes es). pos self (node_uuid n) \<le> pos self (node_uuid m)) \<Longrightarrow>
   nearest_first self (preceding_loop self u es ret)"
proof (induction es arbitrary: ret)
  case (Cons e es)
  show ?case
  proof (cases "ent_node e")
    case None
    then show ?thesis using Cons by (auto simp: set_entry_nodes)
  next
    case (Some n)
    have le: "pos self (node_uuid m) \<le> pos self (node_uuid n)" if "m \<in> set (entry_nodes es)" for m
      using that Cons.prems(1) Some by (fastforce simp: set_entry_nodes list_all_iff split: option.splits)
    have "n \<in> set (entry_nodes (e # es))" using Some by (auto simp: set_entry_nodes)
    then have "pos self (node_uuid n) \<le> pos self (node_uuid m)" if "m \<in> set ret" for m
      using that Cons.prems(3) by blast
    then have "nearest_first self (preceding_loop self u es (ret @ [n]))"
      using Cons.prems le by (intro Cons.IH) (auto simp: sorted_wrt_append set_entry_nodes)
    moreover have "nearest_first self (preceding_loop self u es ret)"
      using Cons.prems by (intro Cons.IH) (auto simp: set_entry_nodes)
    ultimately show ?thesis using Some by simp
  qed
qed simp

text \<open>The nodes a table offers for an identifier.\<close>

definition candidates :: "peer_context \<Rightarrow> router \<Rightarrow> uuid \<Rightarrow> node set" where
  "candidates ctx r u =
     {n \<in> set (entry_nodes (successors r)). between (ctx_uuid ctx) (node_uuid n) u}"

lemma not_candidate_self: "router_wf ctx r \<Longrightarrow> ctx_node ctx \<notin> candidates ctx r u"
  by (auto simp: candidates_def ctx_node_def between_dist)

lemma closest_preceding_nodes_eq:
  assumes "router_wf ctx r"
  shows "closest_preceding_nodes ctx r u =
    preceding_loop (ctx_uuid ctx) u (rev (successors r)) [] @ [ctx_node ctx]"
proof -
  let ?ret = "preceding_loop (ctx_uuid ctx) u (rev (successors r)) []"
  have "set ?ret = candidates ctx r u"
    by (simp add: preceding_loop_set candidates_def set_entry_nodes)
  then have "?ret \<noteq> [] \<Longrightarrow> hd ?ret \<noteq> ctx_node ctx"
    using not_candidate_self [OF assms] by (metis hd_in_set)
  then show ?thesis by (auto simp: closest_preceding_nodes_def Let_def)
qed

lemma closest_preceding_nodes_set:
  "router_wf ctx r \<Longrightarrow>
   set (closest_preceding_nodes ctx r u) = insert (ctx_node ctx) (candidates ctx r u)"
  by (simp add: closest_preceding_nodes_eq preceding_loop_set candidates_def set_entry_nodes)

lemma closest_preceding_nodes_sorted:
  assumes "router_wf ctx r"
  shows "nearest_first (ctx_uuid ctx) (closest_preceding_nodes ctx r u)"
proof -
  have "nearest_first (ctx_uuid ctx) (preceding_loop (ctx_uuid ctx) u (rev (successors r)) [])"
    using router_wf_fields(3) [OF assms] by (intro preceding_loop_sorted) simp_all
  then show ?thesis
    by (simp add: closest_preceding_nodes_eq [OF assms] sorted_wrt_append ctx_node_def)
qed

lemma nearest_first_hd:
  "nearest_first self ns \<Longrightarrow> n \<in> set ns \<Longrightarrow> pos self (node_uuid n) \<le> pos self (node_uuid (hd ns))"
  by (cases ns) auto

text \<open>The first node offered is a candidate that no candidate is closer than, or the peer itself
  when there is none.\<close>

lemma closest_preceding_hd:
  assumes wf: "router_wf ctx r"
  shows "if candidates ctx r u = {} then hd (closest_preceding_nodes ctx r u) = ctx_node ctx
    else hd (closest_preceding_nodes ctx r u) \<in> candidates ctx r u \<and>
      (\<forall>n\<in>candidates ctx r u.
        pos (ctx_uuid ctx) (node_uuid n) \<le>
        pos (ctx_uuid ctx) (node_uuid (hd (closest_preceding_nodes ctx r u))))"
proof -
  let ?ret = "preceding_loop (ctx_uuid ctx) u (rev (successors r)) []"
  have set: "set ?ret = candidates ctx r u"
    by (simp add: preceding_loop_set candidates_def set_entry_nodes)
  show ?thesis
  proof (cases "?ret = []")
    case True
    then show ?thesis using set by (simp add: closest_preceding_nodes_eq [OF wf])
  next
    case False
    then have "hd ?ret \<in> candidates ctx r u" using set by (metis hd_in_set)
    moreover have "nearest_first (ctx_uuid ctx) ?ret"
      using router_wf_fields(3) [OF wf] by (intro preceding_loop_sorted) simp_all
    ultimately show ?thesis
      using False set nearest_first_hd [of "ctx_uuid ctx" ?ret]
      by (auto simp: closest_preceding_nodes_eq [OF wf])
  qed
qed

end
