(* ===== verification/Network.thy ===== *)
theory Network
  imports Chord_Facade Fingers
begin

text \<open>
  The ring as a whole: the stubs of \<open>Peers\<close> are closed by running the handler of the process
  that listens on the target address.  A call to an address nobody listens on, or whose
  handler has no defined behaviour, comes back UNAVAILABLE, the latter after the process
  died.  \<open>network n\<close> lets calls nest to depth \<open>n\<close>; a call that needs more comes back \<open>None\<close>,
  so a call that returns for some \<open>n\<close> is one that returns.  \<open>transport\<close> gives the transport
  address a server sees of a caller.
\<close>

definition respond ::
  "endpoint \<Rightarrow> 'res \<Rightarrow> ((status_code \<times> 'res) outcome \<times> world)
    \<Rightarrow> (status_code \<times> 'res) \<times> world" where
  "respond target res r =
     (case r of
        (Returns x, w) \<Rightarrow> (x, w)
      | (Throws _, w) \<Rightarrow> ((UNKNOWN, res), w)
      | (Undefined, w) \<Rightarrow> ((UNAVAILABLE, res), crash target w))"

definition deliver ::
  "endpoint \<Rightarrow> 'res \<Rightarrow> (world \<Rightarrow> ((status_code \<times> 'res) outcome \<times> world) option)
    \<Rightarrow> world \<Rightarrow> ((status_code \<times> 'res) \<times> world) option" where
  "deliver target res handler w =
     (if alive w target then map_option (respond target res) (handler w)
      else Some ((UNAVAILABLE, res), w))"

definition no_stubs :: stubs where
  "no_stubs =
     \<lparr>stub_join = \<lambda>_ _ _ _. None, stub_successor = \<lambda>_ _ _ _. None,
      stub_stabilize = \<lambda>_ _ _ _. None, stub_notify = \<lambda>_ _ _ _. None,
      stub_leave = \<lambda>_ _ _ _. None, stub_ping = \<lambda>_ _ _ _. None\<rparr>"

fun network :: "(endpoint \<Rightarrow> string) \<Rightarrow> nat \<Rightarrow> stubs" where
  "network transport 0 = no_stubs"
| "network transport (Suc n) =
     \<lparr>stub_join = \<lambda>from_addr to_addr req.
        deliver to_addr empty_join_response
          (service_join (network transport n) to_addr (transport from_addr) req),
      stub_successor = \<lambda>from_addr to_addr req.
        deliver to_addr empty_successor_response (service_successor (network transport n) to_addr req),
      stub_stabilize = \<lambda>from_addr to_addr req.
        deliver to_addr \<lparr>stres_header = None, stres_predecessor = None\<rparr>
          (\<lambda>w. Some (service_stabilize to_addr req w)),
      stub_notify = \<lambda>from_addr to_addr req.
        deliver to_addr () (\<lambda>w. Some (service_notify to_addr (transport from_addr) req w)),
      stub_leave = \<lambda>from_addr to_addr req.
        deliver to_addr () (\<lambda>w. Some (service_leave to_addr (transport from_addr) req w)),
      stub_ping = \<lambda>from_addr to_addr req.
        deliver to_addr \<lparr>pres_header = None\<rparr> (\<lambda>w. Some (service_ping to_addr req w))\<rparr>"

declare network.simps [simp del]

lemma network_stubs:
  "stub_join (network t (Suc n)) from_addr to_addr jreq =
     deliver to_addr empty_join_response (service_join (network t n) to_addr (t from_addr) jreq)"
  "stub_successor (network t (Suc n)) from_addr to_addr sreq =
     deliver to_addr empty_successor_response (service_successor (network t n) to_addr sreq)"
  "stub_stabilize (network t (Suc n)) from_addr to_addr streq =
     deliver to_addr \<lparr>stres_header = None, stres_predecessor = None\<rparr>
       (\<lambda>w. Some (service_stabilize to_addr streq w))"
  "stub_notify (network t (Suc n)) from_addr to_addr nreq =
     deliver to_addr () (\<lambda>w. Some (service_notify to_addr (t from_addr) nreq w))"
  "stub_leave (network t (Suc n)) from_addr to_addr lreq =
     deliver to_addr () (\<lambda>w. Some (service_leave to_addr (t from_addr) lreq w))"
  "stub_ping (network t (Suc n)) from_addr to_addr preq =
     deliver to_addr \<lparr>pres_header = None\<rparr> (\<lambda>w. Some (service_ping to_addr preq w))"
  by (simp_all add: network.simps(2))

lemma network_0 [simp]:
  "stub_join (network t 0) a b jreq w = None" "stub_successor (network t 0) a b sreq w = None"
  "stub_stabilize (network t 0) a b streq w = None" "stub_notify (network t 0) a b nreq w = None"
  "stub_leave (network t 0) a b lreq w = None" "stub_ping (network t 0) a b preq w = None"
  by (simp_all add: no_stubs_def network.simps(1))

end
