(* ===== verification/Ring_Tasks.thy ===== *)
theory Ring_Tasks
  imports Ring
begin

text \<open>
  The tasks a peer runs periodically leave a stable ring as it is, and the lookups that do
  not come back: asking for an identifier that is the successor's own.
\<close>

subsection \<open>Forgetting an identifier nobody has\<close>

lemma remove_loop_unknown:
  "\<forall>e\<in>set es. not_uuid u (ent_node e) \<Longrightarrow> not_uuid u p \<Longrightarrow>
   remove_loop ctx u es p repl = (es, p)"
proof (induction ctx u es p repl rule: remove_loop.induct)
  case (2 ctx u e es p repl)
  have "next_predecessor u n p = p" for n
    using "2.prems"(2) by (auto simp: next_predecessor_def not_uuid_def split: option.splits)
  then show ?case using 2 by (cases "ent_node e") (auto simp: not_uuid_def)
qed simp

lemma remove_unknown:
  assumes "successors r \<noteq> []" "\<forall>n\<in>router_nodes r. node_uuid n \<noteq> u"
  shows "remove ctx u signal r = (False, r, [])"
proof -
  have es: "\<forall>e\<in>set (successors r). not_uuid u (ent_node e)" and p: "not_uuid u (router_predecessor r)"
    using assms(2) by (auto simp: router_nodes_def set_entry_nodes not_uuid_def split: option.splits)
  have "successors r ! 0 \<in> set (successors r)" using assms(1) by simp
  then have "not_uuid u (ent_node (successors r ! 0))" using es by blast
  then show ?thesis
    using es p remove_loop_unknown [of "rev (successors r)" u "router_predecessor r"]
    by (auto simp: remove_def Let_def not_uuid_def split: option.splits)
qed

lemma best_table_nodes: "best_table ctx N r \<Longrightarrow> router_nodes r \<subseteq> N"
  by (force simp: best_table_def router_nodes_def set_entry_nodes best_finger_def
      best_predecessor_def split: option.splits)

lemma linked_nodes:
  assumes "linked w N" "x \<in> N"
  shows "router_nodes (self_router (node_endpoint x) w) \<subseteq> N - {x}"
  using linked_knows [OF assms] best_table_nodes by (metis order_trans)

lemma linked_remove_unknown:
  assumes "linked w N" "x \<in> N" "u \<notin> node_uuid ` N"
  shows "router_remove (node_endpoint x) u signal w = w"
proof -
  let ?r = "self_router (node_endpoint x) w"
  have "remove (self_ctx (node_endpoint x) w) u signal ?r = (False, ?r, [])"
    using assms(3) linked_nodes [OF assms(1,2)] router_wf_fields(4) [OF linked_member_facts(5) [OF assms(1,2)]]
    by (intro remove_unknown) auto
  then show ?thesis by (simp add: router_remove_def)
qed

lemmas stable_remove_unknown = linked_remove_unknown [OF stable_linked]

subsection \<open>Stabilising\<close>

lemma linked_back:
  assumes st: "linked w N" and x: "x \<in> N" and s: "self_successor (node_endpoint x) w = Some s"
  shows "self_predecessor (node_endpoint s) w = Some x"
proof -
  have succ: "s \<in> N" "s \<noteq> x"
    "\<And>n. n \<in> N \<Longrightarrow> n \<noteq> x \<Longrightarrow> dist (node_uuid x) (node_uuid s) \<le> dist (node_uuid x) (node_uuid n)"
    using linked_successor [OF st x] s by auto
  obtain p where p: "self_predecessor (node_endpoint s) w = Some p" "p \<in> N" "p \<noteq> s"
    "dist (node_uuid s) (node_uuid x) \<le> dist (node_uuid s) (node_uuid p)"
    using linked_predecessor [OF st succ(1)] x succ(2) by (auto simp: last_member_def split: option.splits)
  have "p = x"
  proof (rule ccontr)
    assume "p \<noteq> x"
    then have "dist (node_uuid x) (node_uuid s) \<le> dist (node_uuid x) (node_uuid p)"
      using succ(3) p(2) by blast
    then have "dist (node_uuid s) (node_uuid p) =
        dist (node_uuid x) (node_uuid p) - dist (node_uuid x) (node_uuid s)"
      by (rule dist_split)
    moreover have "dist (node_uuid x) (node_uuid p) =
        dist (node_uuid s) (node_uuid p) - dist (node_uuid s) (node_uuid x)"
      using p(4) by (rule dist_split)
    moreover have "node_uuid s \<noteq> node_uuid x"
      using linked_uuid_inj [OF st succ(1) x] succ(2) by blast
    then have "0 < dist (node_uuid x) (node_uuid s)" "0 < dist (node_uuid s) (node_uuid x)"
      by (simp_all add: dist_pos)
    ultimately show False using \<open>dist (node_uuid x) (node_uuid s) \<le> dist (node_uuid x) (node_uuid p)\<close>
      by linarith
  qed
  then show ?thesis using p(1) by simp
qed

lemma linked_notify:
  assumes st: "linked w N" and x: "x \<in> N" and s: "self_successor (node_endpoint x) w = Some s"
  shows "client_notify (network t (Suc d)) (node_endpoint x) w = Some (OK, router_update (node_endpoint s) x w)"
proof -
  have succ: "s \<in> N" "s \<noteq> x" using linked_successor [OF st x] s by auto
  have src: "source_of (Some (make_header (self_ctx (node_endpoint x) w))) = x"
    using linked_member_facts(3) [OF st x] by simp
  then show ?thesis
    using s succ(2) linked_member_facts(1,2) [OF st succ(1)] linked_member_facts(2) [OF st x] linked_back [OF st x s]
    by (simp add: client_notify_def network_stubs deliver_def respond_def service_notify_def)
qed

text \<open>The successor already knows, and nothing else happens.\<close>

lemma linked_stabilize:
  assumes st: "linked w N" and x: "x \<in> N"
  shows "\<exists>w'. learns N w w' \<and> client_stabilize (network t (Suc d)) (node_endpoint x) w = Some w' \<and>
    (\<forall>s. self_successor (node_endpoint x) w = Some s \<longrightarrow> w' = router_update (node_endpoint s) x w)"
proof (cases "self_successor (node_endpoint x) w")
  case None
  then show ?thesis by (auto simp: client_stabilize_def intro: learns.nothing)
next
  case (Some s)
  have succ: "s \<in> N" "s \<noteq> x" using linked_successor [OF st x] Some by auto
  have "node_uuid s \<noteq> node_uuid x" using linked_uuid_inj [OF st succ(1) x] succ(2) by blast
  then show ?thesis
    using Some linked_back [OF st x Some] linked_notify [OF st x Some, of t d] learns_once [OF succ(1) x, of w]
      linked_member_facts(1) [OF st succ(1)] linked_member_facts(4) [OF st x]
    by (simp add: client_stabilize_def network_stubs deliver_def respond_def service_stabilize_def)
qed

lemma stable_stabilize:
  assumes st: "stable w N" and x: "x \<in> N" and s: "self_successor (node_endpoint x) w = Some s"
  shows "client_stabilize (network t (Suc d)) (node_endpoint x) w = Some w"
proof -
  have "s \<in> N" using stable_successor [OF st x] s by auto
  then have "router_update (node_endpoint s) x w = w"
    using member_learns_nothing [OF stable_member [OF st] x] by blast
  then show ?thesis using linked_stabilize [OF stable_linked [OF st] x, of t d] s by auto
qed

lemma linked_check:
  assumes st: "linked w N" and x: "x \<in> N"
  shows "client_check (network t (Suc d)) (node_endpoint x) w = Some w"
proof -
  have "alive w (node_endpoint p)" if "self_predecessor (node_endpoint x) w = Some p" for p
    using that linked_predecessor [OF st x] linked_member_facts(1) [OF st] by (auto simp: last_member_def)
  then show ?thesis
    by (auto simp: client_check_def network_ping split: option.split)
qed

lemmas stable_check = linked_check [OF stable_linked]

subsection \<open>Fixing fingers\<close>

lemma stable_service_successor_id:
  assumes st: "stable w N" and x: "x \<in> N" and u: "u \<notin> node_uuid ` N" and d: "258 \<le> d"
  shows "\<exists>n. responsible N u n \<and>
    service_successor_id (network t d) (node_endpoint x) u w = Some (Returns n, w)"
proof -
  let ?ep = "node_endpoint x"
  let ?req = "\<lparr>sreq_header = Some (make_header (self_ctx ?ep w)), sreq_id = u\<rparr>"
  have ok: "member_ok w N x" using st x by (rule stable_member)
  have src: "has_valid_header (sreq_header ?req)" "source_of (sreq_header ?req) \<in> N"
    using ok x by (simp_all add: member_ok_def self_node_def)
  obtain n where n: "responsible N u n"
    "stub_successor (network t (Suc d)) ?ep ?ep ?req w =
       Some ((OK, empty_successor_response\<lparr>sres_successor := Some n\<rparr>), w)"
    using stable_lookup_answers [OF st x u _ src, of "Suc d" t ?ep] d by auto
  have "alive w ?ep" using ok by (simp add: member_ok_def)
  then obtain r where r: "service_successor (network t d) ?ep ?req w = Some r"
    "respond ?ep empty_successor_response r = ((OK, empty_successor_response\<lparr>sres_successor := Some n\<rparr>), w)"
    using n(2) by (auto simp: network_stubs deliver_def)
  have "r = (Returns (OK, empty_successor_response\<lparr>sres_successor := Some n\<rparr>), w)"
    using r(2) by (auto simp: respond_def split: prod.splits outcome.splits)
  then show ?thesis
    using r(1) n(1) by (auto simp: service_successor_id_def entry_of_def)
qed

lemma stable_fix_fingers:
  assumes st: "stable w N" and x: "x \<in> N" and d: "258 \<le> d"
    and u: "start (node_uuid x) i \<notin> node_uuid ` N"
  shows "facade_fix_fingers (network t d) (node_endpoint x) i w = Some (Returns (), w)"
proof -
  have ok: "member_ok w N x" using st x by (rule stable_member)
  obtain n where n: "responsible N (start (node_uuid x) i) n"
    "service_successor_id (network t d) (node_endpoint x) (start (node_uuid x) i) w = Some (Returns n, w)"
    using stable_service_successor_id [OF st x u d] by blast
  have "n \<in> N" using n(1) by (simp add: responsible_def)
  then show ?thesis
    using n(2) stable_remove_unknown [OF st x u] member_learns_nothing [OF ok] member_uuid [OF ok]
    by (simp add: facade_fix_fingers_def service_fix_fingers_def)
qed

subsection \<open>Lookups that never come back\<close>

text \<open>The interval between a peer and its successor does not contain the successor, and no
  finger lies in it: the peer asks itself again.\<close>

lemma no_candidates_before_successor:
  assumes wf: "router_wf ctx r" and s: "router_successor r = Some s"
  shows "candidates ctx r (node_uuid s) = {}"
proof -
  obtain e es where es: "successors r = e # es"
    using router_wf_fields(4) [OF wf] by (cases "successors r") auto
  then have e: "ent_node e = Some s" using s by (simp add: router_successor_def)
  have desc: "descending (ctx_uuid ctx) (rev es @ [e])"
    using router_wf_fields(3) [OF wf] es by simp
  have "pos (ctx_uuid ctx) (node_uuid s) \<le> pos (ctx_uuid ctx) (node_uuid n)"
    if "descending (ctx_uuid ctx) (fs @ [e])" "f \<in> set fs" "ent_node f = Some n" for f fs n
    using that
  proof (induction fs)
    case (Cons g gs)
    then show ?case using e by (auto simp: list_all_iff split: option.splits)
  qed simp
  then have "pos (ctx_uuid ctx) (node_uuid s) \<le> pos (ctx_uuid ctx) (node_uuid n)"
    if "n \<in> set (entry_nodes (successors r))" for n
    using that desc e es by (auto simp: set_entry_nodes)
  moreover have "node_uuid s \<noteq> ctx_uuid ctx"
    using router_wf_not_self [OF wf] e es by (auto simp: set_entry_nodes)
  ultimately show ?thesis by (force simp: candidates_def between_from_self)
qed

lemma successor_lookup_diverges:
  assumes wf: "router_wf (self_ctx me w) (self_router me w)"
    and s: "self_successor me w = Some s" and up: "alive w (node_endpoint s)"
    and me: "ctx_advertise_addr (self_ctx me w) = me" "alive w me"
  shows "service_successor (network t d) me
    \<lparr>sreq_header = Some (make_header (self_ctx me w)), sreq_id = node_uuid s\<rparr> w = None"
proof (induction d)
  case 0
  show ?case
    by (simp add: service_successor_def ping_loop.simps client_ping_def Let_def)
next
  case (Suc d)
  let ?req = "\<lparr>sreq_header = Some (make_header (self_ctx me w)), sreq_id = node_uuid s\<rparr>"
  have self: "router_update me (ctx_node (self_ctx me w)) w = w"
    by (simp add: router_update_def update_def)
  have succ: "successor_or_self (self_ctx me w) (self_router me w) = s"
    using s by (simp add: self_successor_def successor_or_self_def)
  have pings: "ping_loop (network t (Suc d)) me w = Some (s, w)"
    using ping_loop_answers [of "network t (Suc d)" me w] up by (simp add: succ network_ping)
  have "set (preceding_loop (ctx_uuid (self_ctx me w)) (node_uuid s) (rev (successors (self_router me w))) []) =
      candidates (self_ctx me w) (self_router me w) (node_uuid s)"
    by (simp add: preceding_loop_set candidates_def set_entry_nodes)
  then have "preceding_loop (ctx_uuid (self_ctx me w)) (node_uuid s) (rev (successors (self_router me w))) [] = []"
    using no_candidates_before_successor [OF wf, of s] s by (simp add: self_successor_def)
  then have "closest_preceding_nodes (self_ctx me w) (self_router me w) (node_uuid s) = [ctx_node (self_ctx me w)]"
    by (simp add: closest_preceding_nodes_def)
  then have "client_successor (network t (Suc d)) me ?req w = None"
    using Suc me by (simp add: client_successor_def network_stubs deliver_def ctx_node_def)
  moreover have "node_uuid s \<noteq> ctx_uuid (self_ctx me w)"
    using router_wf_not_self [OF wf, of s] s router_wf_fields(4) [OF wf]
    by (force simp: self_successor_def router_successor_def set_entry_nodes)
  ultimately show ?case
    using self pings by (simp add: service_successor_def)
qed

end
