(* ===== verification/Linked.thy ===== *)
theory Linked
  imports Ring_Tasks
begin

text \<open>
  Rings whose fingers are not the best ones yet.  A lookup in a linked ring ends at the
  responsible member after at most one hop for each member; on the way members learn of
  others, which keeps the ring linked.  The periodic tasks keep it linked as well, and fixing
  every finger of a member once gives it the best table.
\<close>

subsection \<open>Lookups\<close>

text \<open>The members between another member and an identifier.\<close>

definition nearer :: "node set \<Rightarrow> uuid \<Rightarrow> node \<Rightarrow> node set" where
  "nearer N u x = {m \<in> N. dist (node_uuid m) u < dist (node_uuid x) u}"

lemma nearer_hop:
  assumes "finite N" "y \<in> N" "dist (node_uuid y) u < dist (node_uuid x) u"
  shows "card (nearer N u y) < card (nearer N u x)"
proof (rule psubset_card_mono)
  show "finite (nearer N u x)" using assms(1) by (simp add: nearer_def)
  show "nearer N u y \<subset> nearer N u x" using assms(2,3) by (auto simp: nearer_def)
qed

lemma nearer_preceding:
  assumes "finite N" "preceding N u p" "x \<in> N" "card (nearer N u x) = 0" "inj_on node_uuid N"
  shows "x = p"
proof -
  have "finite (nearer N u x)" using assms(1) by (simp add: nearer_def)
  then have "nearer N u x = {}" using assms(4) by simp
  then have "\<not> dist (node_uuid p) u < dist (node_uuid x) u"
    using assms(2) by (auto simp: nearer_def preceding_def)
  then have "dist (node_uuid p) u = dist (node_uuid x) u"
    using assms(2,3) by (force simp: preceding_def)
  then show ?thesis using assms(2,3,5) by (auto simp: dist_inj_start preceding_def dest: inj_onD)
qed

lemma hop_closer:
  assumes "dist (node_uuid x) (node_uuid y) \<le> dist (node_uuid x) (node_uuid p)" "0 < dist (node_uuid x) (node_uuid y)"
    and "dist (node_uuid x) (node_uuid p) \<le> dist (node_uuid x) u"
  shows "dist (node_uuid y) u < dist (node_uuid x) u"
  using dist_split [of "node_uuid x" "node_uuid y" u] assms by simp

lemma linked_lookup:
  assumes p: "preceding N u p" and u: "u \<notin> node_uuid ` N"
  shows "linked w N \<Longrightarrow> x \<in> N \<Longrightarrow> card (nearer N u x) \<le> k \<Longrightarrow>
    has_valid_header (sreq_header req) \<Longrightarrow> source_of (sreq_header req) \<in> N \<Longrightarrow> sreq_id req = u \<Longrightarrow>
    \<exists>n w'. responsible N u n \<and> learns N w w' \<and>
      stub_successor (network t (k + 2 + d)) c (node_endpoint x) req w =
        Some ((OK, empty_successor_response\<lparr>sres_successor := Some n\<rparr>), w')"
proof (induction k arbitrary: x req c w)
  case 0
  let ?v = "router_update (node_endpoint x) (source_of (sreq_header req)) w"
  have "x = p"
    using nearer_preceding [OF _ p "0.prems"(2)] "0.prems"(1,3) spaced_inj [of N] by (auto simp: linked_def)
  moreover have v: "linked ?v N" using linked_update "0.prems"(1,2,5) by blast
  ultimately show ?case
    using linked_finds_iff [OF v "0.prems"(2) p u] "0.prems"(6) linked_member_facts(1) [OF "0.prems"(1,2)]
      linked_service_successor [OF "0.prems"(1,2,4,5), of t d] learns_once [OF "0.prems"(2,5), of w]
    by (auto simp: network_stubs deliver_def respond_def)
next
  case (Suc k)
  let ?ep = "node_endpoint x" and ?N = "network t (Suc (k + 1 + d))"
  let ?v = "router_update (node_endpoint x) (source_of (sreq_header req)) w"
  let ?req = "req\<lparr>sreq_header := Some (make_header (self_ctx ?ep ?v))\<rparr>"
  let ?ns = "closest_preceding_nodes (self_ctx ?ep ?v) (self_router ?ep ?v) u"
  note serve = linked_service_successor [OF Suc.prems(1,2,4,5), of t "k + 1 + d"]
  then have v: "linked ?v N" by blast
  have learnt: "learns N w ?v" using learns_once [OF Suc.prems(2,5)] .
  note finds = linked_finds_iff [OF v Suc.prems(2) p u]
  have xu: "u \<noteq> node_uuid x" using u Suc.prems(2) by auto
  show ?case
  proof (cases "x = p")
    case True
    then show ?thesis
      using serve finds linked_member_facts(1) [OF Suc.prems(1,2)] Suc.prems(6) learnt
      by (auto simp: network_stubs deliver_def respond_def)
  next
    case False
    note hop = linked_next_hop(1-3) [OF v Suc.prems(2) p False u]
    have "dist (node_uuid (hd ?ns)) u < dist (node_uuid x) u"
      using hop_closer [OF hop(2,3)] preceding_from(1) [OF p Suc.prems(2) xu] by blast
    then have near: "card (nearer N u (hd ?ns)) \<le> k"
      using nearer_hop [of N "hd ?ns" u x] hop(1) v Suc.prems(3) by (simp add: linked_def)
    have src: "has_valid_header (sreq_header ?req)" "source_of (sreq_header ?req) \<in> N" "sreq_id ?req = u"
      using linked_member_facts(3) [OF v Suc.prems(2)] Suc.prems(2,6) by simp_all
    obtain n w' where n: "responsible N u n" "learns N ?v w'"
      "stub_successor ?N ?ep (node_endpoint (hd ?ns)) ?req ?v =
         Some ((OK, empty_successor_response\<lparr>sres_successor := Some n\<rparr>), w')"
      using Suc.IH [OF v hop(1) near src, of ?ep] by auto
    have "?ns \<noteq> []" using closest_preceding_nodes_set [OF linked_member_facts(5) [OF v Suc.prems(2)], of u] by auto
    then have "client_successor ?N ?ep req ?v =
        Some ((OK, empty_successor_response\<lparr>sres_successor := Some n\<rparr>), w')"
      using n(3) Suc.prems(6) by (simp add: client_successor_def successor_each_hd)
    then have "service_successor ?N ?ep req w =
        Some (Returns (OK, empty_successor_response\<lparr>sres_successor := Some n\<rparr>), w')"
      using serve finds(1) False xu Suc.prems(6) by simp
    then show ?thesis
      using n(1,2) linked_member_facts(1) [OF Suc.prems(1,2)] learns_trans [OF n(2) learnt]
      by (auto simp: network_stubs deliver_def respond_def)
  qed
qed

lemma card_nearer: "finite N \<Longrightarrow> card (nearer N u x) \<le> card N"
  by (auto simp: nearer_def intro: card_mono)

text \<open>A member looking up an identifier itself.\<close>

lemma linked_service_successor_id:
  assumes st: "linked w N" and x: "x \<in> N" and u: "u \<notin> node_uuid ` N" and d: "card N < d"
  shows "\<exists>n w'. responsible N u n \<and> learns N w w' \<and>
    service_successor_id (network t d) (node_endpoint x) u w = Some (Returns n, w')"
proof -
  let ?ep = "node_endpoint x"
  let ?req = "\<lparr>sreq_header = Some (make_header (self_ctx ?ep w)), sreq_id = u\<rparr>"
  have src: "has_valid_header (sreq_header ?req)" "source_of (sreq_header ?req) \<in> N" "sreq_id ?req = u"
    using linked_member_facts(3) [OF st x] x by simp_all
  have depth: "Suc d = card N + 2 + (d - card N - 1)" using d by simp
  obtain p where p: "preceding N u p" using preceding_exists x by metis
  have "card (nearer N u x) \<le> card N" using st by (simp add: linked_def card_nearer)
  then obtain n w' where n: "responsible N u n" "learns N w w'"
    "stub_successor (network t (Suc d)) ?ep ?ep ?req w =
       Some ((OK, empty_successor_response\<lparr>sres_successor := Some n\<rparr>), w')"
    using linked_lookup [OF p u st x _ src, of "card N" t "d - card N - 1" ?ep] unfolding depth by blast
  have "alive w ?ep" using linked_member_facts(1) [OF st x] .
  then obtain r where r: "service_successor (network t d) ?ep ?req w = Some r"
    "respond ?ep empty_successor_response r = ((OK, empty_successor_response\<lparr>sres_successor := Some n\<rparr>), w')"
    using n(3) by (auto simp: network_stubs deliver_def)
  have "r = (Returns (OK, empty_successor_response\<lparr>sres_successor := Some n\<rparr>), w')"
    using r(2) by (auto simp: respond_def split: prod.splits outcome.splits)
  then show ?thesis
    using r(1) n(1,2) by (auto simp: service_successor_id_def entry_of_def)
qed

lemma linked_facade_successor:
  assumes "linked w N" "x \<in> N" "u \<notin> node_uuid ` N" "card N < d"
  shows "\<exists>n w'. responsible N u n \<and> learns N w w' \<and>
    facade_successor (network t d) (node_endpoint x) u w = Some (Returns n, w')"
  using linked_service_successor_id [OF assms, of t] by (auto simp: facade_successor_def)

subsection \<open>Fixing a finger\<close>

lemma dist_back: "a \<noteq> b \<Longrightarrow> dist a b + dist b a = 2 ^ 256"
proof -
  assume "a \<noteq> b"
  then have "0 < dist a b + dist b a" by (simp add: dist_pos)
  moreover have "(dist a b + dist b a) mod 2 ^ 256 = 0"
    using unat_word_ariths(1) [of "b - a" "a - b"] by (simp add: dist_def)
  moreover have "dist a b + dist b a < 2 * 2 ^ 256" using dist_less [of a b] dist_less [of b a] by linarith
  ultimately show ?thesis by (auto simp: mod_eq_0_iff_dvd elim!: dvdE)
qed

lemma dist_rotate:
  assumes "a \<noteq> b" "b \<noteq> c"
  shows "dist a b < dist a c \<longleftrightarrow> dist b c < dist b a"
proof
  assume less: "dist a b < dist a c"
  then have "dist b c = dist a c - dist a b" by (intro dist_split) simp
  then show "dist b c < dist b a"
    using less dist_back [OF assms(1)] dist_less [of a c] by linarith
next
  assume less: "dist b c < dist b a"
  show "dist a b < dist a c"
  proof (rule ccontr)
    assume "\<not> ?thesis"
    then have "dist a c \<le> dist a b" by simp
    moreover from this have "dist c b = dist a b - dist a c" by (rule dist_split)
    ultimately show False
      using less dist_back [OF assms(1)] dist_back [OF assms(2)] dist_less [of a b] by linarith
  qed
qed

text \<open>A finger is as good as it can be in the ring.\<close>

definition finger_fixed :: "world \<Rightarrow> node set \<Rightarrow> node \<Rightarrow> nat \<Rightarrow> bool" where
  "finger_fixed w N x i =
     best_finger (node_uuid x) (start (node_uuid x) i) (N - {x})
       (ent_node (successors (self_router (node_endpoint x) w) ! i))"

lemma best_finger_between:
  assumes "best_finger a s M f" "best_finger a s N f" "best_finger a s M' f'" "M \<subseteq> M'" "M' \<subseteq> N"
  shows "best_finger a s N f'"
proof (cases f)
  case None
  then have "f' = None" using assms(2,3,5) by (auto simp: best_finger_def split: option.splits)
  then show ?thesis using None assms(2) by simp
next
  case (Some m)
  then have m: "m \<in> M'" "m \<in> N" "pos a s < pos a (node_uuid m)" using assms(1,2,4)
    by (auto simp: best_finger_def)
  then obtain q where q: "f' = Some q" "q \<in> M'" "pos a s < pos a (node_uuid q)"
    "pos a (node_uuid q) \<le> pos a (node_uuid m)"
    using assms(3) by (auto simp: best_finger_def split: option.splits)
  then show ?thesis using assms(2,5) Some by (force simp: best_finger_def)
qed

lemma finger_fixed_update:
  assumes st: "linked w N" and x: "x \<in> N" and i: "i < BITS" and fixed: "finger_fixed w N x i"
    and yn: "y \<in> N" "n \<in> N"
  shows "finger_fixed (router_update (node_endpoint y) n w) N x i"
proof (cases "node_endpoint y = node_endpoint x \<and> n \<noteq> x")
  case False
  then show ?thesis using fixed learn_self [of "self_ctx (node_endpoint x) w"] linked_member_facts(3) [OF st x]
    by (auto simp: finger_fixed_def router_update_router)
next
  case True
  obtain M where M: "M \<subseteq> N - {x}" "best_table (self_ctx (node_endpoint x) w) M (self_router (node_endpoint x) w)"
    using linked_knows [OF st x] by metis
  note self = linked_member_facts(3,4) [OF st x]
  have table: "best_table (self_ctx (node_endpoint x) w) (insert n M)
      (self_router (node_endpoint x) (router_update (node_endpoint y) n w))"
    using best_table_learn [OF M(2)] True self by (simp add: router_update_router)
  show ?thesis
    using best_finger_between [OF best_table_finger [OF M(2) i] _ best_table_finger [OF table i], of "N - {x}"]
      fixed M(1) True yn self
    by (auto simp: finger_fixed_def)
qed

lemma finger_fixed_learns:
  "learns N w w' \<Longrightarrow> linked w N \<Longrightarrow> x \<in> N \<Longrightarrow> i < BITS \<Longrightarrow> finger_fixed w N x i \<Longrightarrow> finger_fixed w' N x i"
  by (induction rule: learns.induct) (auto intro: finger_fixed_update linked_learns)

lemma linked_responsible_finger:
  assumes n: "responsible N s n" and x: "x \<in> N" and s: "s \<notin> node_uuid ` N" and inj: "inj_on node_uuid N"
  shows "n = x \<Longrightarrow> best_finger (node_uuid x) s (N - {x}) None"
    and "n \<noteq> x \<Longrightarrow> best_finger (node_uuid x) s (N - {x}) (Some n)"
proof -
  have apart: "node_uuid m \<noteq> node_uuid x" "node_uuid m \<noteq> s" if "m \<in> N - {x}" for m
    using that x s inj by (auto dest: inj_onD)
  have rotate: "dist s (node_uuid x) < dist s (node_uuid m) \<longleftrightarrow> dist (node_uuid x) (node_uuid m) < dist (node_uuid x) s"
    if "m \<in> N - {x}" for m
    using apart(1) [OF that] x s by (intro dist_rotate) auto
  have le: "dist s (node_uuid n) \<le> dist s (node_uuid m)" if "m \<in> N" for m
    using n that by (simp add: responsible_def)
  show "best_finger (node_uuid x) s (N - {x}) None" if "n = x"
  proof -
    have "dist (node_uuid x) (node_uuid m) < dist (node_uuid x) s" if m: "m \<in> N - {x}" for m
    proof -
      have "dist s (node_uuid x) \<noteq> dist s (node_uuid m)" using apart(1) [OF m] by (auto simp: dist_inj)
      then show ?thesis using le [of m] rotate [of m] m \<open>n = x\<close> by auto
    qed
    then show ?thesis by (fastforce simp: best_finger_def pos_less_dist)
  qed
  show "best_finger (node_uuid x) s (N - {x}) (Some n)" if "n \<noteq> x"
  proof -
    have nN: "n \<in> N - {x}" using n that by (simp add: responsible_def)
    have "\<not> dist s (node_uuid x) < dist s (node_uuid n)" using le [OF x] by simp
    moreover have "dist (node_uuid x) (node_uuid n) \<noteq> dist (node_uuid x) s"
      using apart(2) [OF nN] by (auto simp: dist_inj)
    ultimately have after: "dist (node_uuid x) s < dist (node_uuid x) (node_uuid n)"
      using rotate [of n] nN by auto
    have "dist (node_uuid x) (node_uuid n) \<le> dist (node_uuid x) (node_uuid m)"
      if m: "m \<in> N" "dist (node_uuid x) s < dist (node_uuid x) (node_uuid m)" for m
    proof -
      have "dist s (node_uuid m) = dist (node_uuid x) (node_uuid m) - dist (node_uuid x) s"
        "dist s (node_uuid n) = dist (node_uuid x) (node_uuid n) - dist (node_uuid x) s"
        using m(2) after by (auto intro!: dist_split)
      then show ?thesis using le [OF m(1)] m(2) after by linarith
    qed
    then show ?thesis using nN after by (auto simp: best_finger_def pos_less_dist pos_le_dist)
  qed
qed

lemma best_finger_shrink:
  assumes "best_finger a s N f" "M \<subseteq> N" "\<And>m. f = Some m \<Longrightarrow> m \<in> M" "best_finger a s M g" "inj_on node_uuid N"
  shows "g = f"
proof (cases f)
  case None
  then have "\<forall>n\<in>M. \<not> pos a s < pos a (node_uuid n)" using assms(1,2) by (auto simp: best_finger_def)
  then show ?thesis using None assms(4) by (cases g) (auto simp: best_finger_def)
next
  case (Some m)
  then have m: "m \<in> N" "m \<in> M" "pos a s < pos a (node_uuid m)" using assms(1,3) by (auto simp: best_finger_def)
  then obtain q where q: "g = Some q" "q \<in> M" "pos a s < pos a (node_uuid q)"
    "pos a (node_uuid q) \<le> pos a (node_uuid m)"
    using assms(4) by (auto simp: best_finger_def split: option.splits)
  moreover have "pos a (node_uuid m) \<le> pos a (node_uuid q)"
    using assms(1,2) Some q(2,3) by (auto simp: best_finger_def)
  ultimately have "pos a (node_uuid q) = pos a (node_uuid m)" by simp
  then have "q = m" using q(2) m(1) assms(2,5) by (auto simp: pos_def dest: inj_onD)
  then show ?thesis using q(1) Some by simp
qed

text \<open>The task that fixes a finger makes it the best one.\<close>

lemma linked_fix_finger:
  assumes st: "linked w N" and x: "x \<in> N" and i: "i < BITS" and d: "card N < d"
    and u: "start (node_uuid x) i \<notin> node_uuid ` N"
  shows "\<exists>w'. facade_fix_fingers (network t d) (node_endpoint x) i w = Some (Returns (), w') \<and>
    learns N w w' \<and> finger_fixed w' N x i"
proof -
  let ?ep = "node_endpoint x" and ?s = "start (node_uuid x) i"
  obtain n v where n: "responsible N ?s n" "learns N w v"
    "service_successor_id (network t d) ?ep ?s w = Some (Returns n, v)"
    using linked_service_successor_id [OF st x u d] by blast
  have nN: "n \<in> N" using n(1) by (simp add: responsible_def)
  have v: "linked v N" using linked_learns [OF n(2) st] .
  have inj: "inj_on node_uuid N" using spaced_inj [of N] st by (simp add: linked_def)
  obtain w' where w': "w' = (if n = x then v else router_update ?ep n v)" by blast
  have "learns N v w'" using w' learns_once [OF x nN, of v] by (simp add: learns.nothing)
  then have learnt: "learns N w w'" "linked w' N" using n(2) v by (auto intro: learns_trans linked_learns)
  have "facade_fix_fingers (network t d) ?ep i w = Some (Returns (), w')"
    using n(3) w' linked_member_facts(2,4) [OF st x] linked_member_facts(2) [OF v x]
      linked_remove_unknown [OF v x u]
    by (simp add: facade_fix_fingers_def service_fix_fingers_def)
  moreover have "finger_fixed w' N x i"
  proof -
    obtain M where M: "M \<subseteq> N - {x}" "best_table (self_ctx ?ep w') M (self_router ?ep w')" "n \<noteq> x \<Longrightarrow> n \<in> M"
    proof -
      obtain M where M: "M \<subseteq> N - {x}" "best_table (self_ctx ?ep v) M (self_router ?ep v)"
        using linked_knows [OF v x] by metis
      show ?thesis
      proof (cases "n = x")
        case True
        then show ?thesis using that M w' by simp
      next
        case False
        then have "best_table (self_ctx ?ep w') (insert n M) (self_router ?ep w')"
          using best_table_learn [OF M(2)] linked_member_facts(3) [OF v x] w' by (simp add: router_update_router)
        then show ?thesis using that [of "insert n M"] M(1) nN False by auto
      qed
    qed
    let ?f = "if n = x then None else Some n"
    have best: "best_finger (node_uuid x) ?s (N - {x}) ?f"
      using linked_responsible_finger [OF n(1) x u inj] by simp
    moreover have "ent_node (successors (self_router ?ep w') ! i) = ?f"
    proof (rule best_finger_shrink [OF best M(1)])
      show "m \<in> M" if "?f = Some m" for m using that M(3) by (simp split: if_splits)
      show "best_finger (node_uuid x) ?s M (ent_node (successors (self_router ?ep w') ! i))"
        using best_table_finger [OF M(2) i] linked_member_facts(4) [OF learnt(2) x] by simp
      show "inj_on node_uuid (N - {x})" using inj by (rule inj_on_subset) blast
    qed
    ultimately show ?thesis by (simp add: finger_fixed_def)
  qed
  ultimately show ?thesis using learnt(1) by blast
qed

text \<open>A member all of whose fingers are fixed has the best table.\<close>

lemma fixed_member_ok:
  assumes st: "linked w N" and x: "x \<in> N" and fixed: "\<And>i. i < BITS \<Longrightarrow> finger_fixed w N x i"
  shows "member_ok w N x"
proof -
  let ?ep = "node_endpoint x"
  note self = linked_member_facts [OF st x]
  obtain M where M: "M \<subseteq> N - {x}" "best_table (self_ctx ?ep w) M (self_router ?ep w)"
    using linked_knows [OF st x] by metis
  have starts: "starts_ok (node_uuid x) (successors (self_router ?ep w))"
    using M(2) self(4) by (simp add: best_table_def)
  have "best_finger (node_uuid x) (ent_uuid e) (N - {x}) (ent_node e)"
    if "e \<in> set (successors (self_router ?ep w))" for e
    using that fixed starts_length [OF starts] starts_nth [OF starts]
    by (auto simp: in_set_conv_nth finger_fixed_def)
  moreover have "best_predecessor (node_uuid x) (N - {x}) (router_predecessor (self_router ?ep w))"
    using linked_predecessor [OF st x] x
    by (auto simp: best_predecessor_def self_predecessor_def last_member_def pos_le_dist split: option.splits)
  ultimately show ?thesis using self(1,2,4) starts by (simp add: member_ok_def best_table_def)
qed

subsection \<open>Any lookup\<close>

text \<open>Whatever is looked up: when the lookup comes back, members learned of members only.\<close>

lemma linked_hops:
  assumes "linked w N" "x \<in> N"
    and "n \<in> set (closest_preceding_nodes (self_ctx (node_endpoint x) w) (self_router (node_endpoint x) w) u)"
  shows "n \<in> N"
proof -
  have "candidates (self_ctx (node_endpoint x) w) (self_router (node_endpoint x) w) u \<subseteq> N"
    using linked_nodes [OF assms(1,2)] by (auto simp: candidates_def router_nodes_def)
  then show ?thesis
    using closest_preceding_nodes_set [OF linked_member_facts(5) [OF assms(1,2)], of u] assms(2,3)
      linked_member_facts(3) [OF assms(1,2)] by (auto split: if_splits)
qed

lemma linked_each_learns:
  assumes IH: "\<And>x v r w'. linked v N \<Longrightarrow> x \<in> N \<Longrightarrow> stub_successor R me (node_endpoint x) req v = Some (r, w') \<Longrightarrow>
      learns N v w'"
  shows "linked v N \<Longrightarrow> set ns \<subseteq> N \<Longrightarrow> successor_each R me req ns v = Some (r, w') \<Longrightarrow> learns N v w'"
proof (induction ns arbitrary: v)
  case Nil
  then show ?case by (simp add: learns.nothing)
next
  case (Cons n ns)
  obtain st res u where u: "stub_successor R me (node_endpoint n) req v = Some ((st, res), u)"
    "if st = OK then ((st, res), u) = (r, w') else successor_each R me req ns u = Some (r, w')"
    using Cons.prems(3) by (auto split: bind_splits if_splits)
  have l: "learns N v u" using IH [OF Cons.prems(1) _ u(1)] Cons.prems(2) by simp
  show ?case
  proof (cases "st = OK")
    case False
    then have "learns N u w'" using Cons.IH [OF linked_learns [OF l Cons.prems(1)]] Cons.prems(2) u(2) by simp
    then show ?thesis using l by (rule learns_trans)
  qed (use u(2) l in simp)
qed

lemma linked_serve_learns:
  assumes IH: "\<And>x c req v r w'. linked v N \<Longrightarrow> x \<in> N \<Longrightarrow> has_valid_header (sreq_header req) \<Longrightarrow>
      source_of (sreq_header req) \<in> N \<Longrightarrow> stub_successor (network t d) c (node_endpoint x) req v = Some (r, w') \<Longrightarrow>
      learns N v w'"
    and st: "linked w N" "x \<in> N" "has_valid_header (sreq_header req)" "source_of (sreq_header req) \<in> N"
    and run: "service_successor (network t d) (node_endpoint x) req w = Some (q, w')"
  shows "learns N w w' \<and> (\<exists>y. q = Returns y)"
proof (cases d)
  case 0
  then show ?thesis using run st(3) by (simp add: service_successor_def ping_loop.simps client_ping_def Let_def)
next
  case (Suc e)
  let ?ep = "node_endpoint x" and ?v = "router_update (node_endpoint x) (source_of (sreq_header req)) w"
  note serve = linked_service_successor [OF st, of t e, folded Suc]
  have v: "linked ?v N" "learns N w ?v" using serve learns_once [OF st(2,4)] by blast+
  let ?req = "req\<lparr>sreq_header := Some (make_header (self_ctx ?ep ?v))\<rparr>"
  have src: "has_valid_header (sreq_header ?req)" "source_of (sreq_header ?req) \<in> N"
    using linked_member_facts(3) [OF v(1) st(2)] st(2) by simp_all
  have "learns N ?v u" if run: "client_successor (network t d) ?ep req ?v = Some (r, u)" for r u
  proof (rule linked_each_learns)
    show "successor_each (network t d) ?ep ?req
        (closest_preceding_nodes (self_ctx ?ep ?v) (self_router ?ep ?v) (sreq_id req)) ?v = Some (r, u)"
      using run by (simp add: client_successor_def)
    show "set (closest_preceding_nodes (self_ctx ?ep ?v) (self_router ?ep ?v) (sreq_id req)) \<subseteq> N"
      using linked_hops [OF v(1) st(2)] by blast
    show "linked ?v N" by (rule v)
    show "learns N u' w''" if "linked u' N" "y \<in> N" "stub_successor (network t d) ?ep (node_endpoint y) ?req u' = Some (s, w'')"
      for y u' s w'' by (rule IH [OF that(1,2) src that(3)])
  qed
  then have "learns N w u" if "client_successor (network t d) ?ep req ?v = Some (r, u)" for r u
    using that learns_trans [OF _ v(2)] by blast
  then show ?thesis using run v(2) conjunct2 [OF serve] by (auto split: if_splits bind_splits)
qed

lemma linked_stub_learns:
  "linked w N \<Longrightarrow> x \<in> N \<Longrightarrow> has_valid_header (sreq_header req) \<Longrightarrow> source_of (sreq_header req) \<in> N \<Longrightarrow>
   stub_successor (network t d) c (node_endpoint x) req w = Some (r, w') \<Longrightarrow> learns N w w'"
proof (induction d arbitrary: x c req w r w')
  case (Suc d)
  have "alive w (node_endpoint x)" using linked_member_facts(1) [OF Suc.prems(1,2)] .
  then obtain q v where q: "service_successor (network t d) (node_endpoint x) req w = Some (q, v)"
    "respond (node_endpoint x) empty_successor_response (q, v) = (r, w')"
    using Suc.prems(5) by (auto simp: network_stubs deliver_def)
  have "learns N w v \<and> (\<exists>y. q = Returns y)"
    by (rule linked_serve_learns [OF _ Suc.prems(1-4) q(1)]) (rule Suc.IH)
  then show ?case using q(2) by (auto simp: respond_def)
qed simp

lemma linked_any_lookup:
  assumes st: "linked w N" "x \<in> N" and run: "facade_successor (network t d) (node_endpoint x) u w = Some (r, w')"
  shows "learns N w w'"
proof -
  let ?req = "\<lparr>sreq_header = Some (make_header (self_ctx (node_endpoint x) w)), sreq_id = u\<rparr>"
  have src: "has_valid_header (sreq_header ?req)" "source_of (sreq_header ?req) \<in> N"
    using linked_member_facts(3) [OF st] st(2) by simp_all
  obtain q where "service_successor (network t d) (node_endpoint x) ?req w = Some (q, w')"
    using run by (auto simp: facade_successor_def service_successor_id_def split: bind_splits)
  then have "learns N w w' \<and> (\<exists>y. q = Returns y)"
    by (intro linked_serve_learns [OF _ st src]) (rule linked_stub_learns)
  then show ?thesis by blast
qed

end
