(* ===== verification/Maintenance.thy ===== *)
theory Maintenance
  imports Linked
begin

text \<open>
  The periodic tasks of the members of a linked ring, in any order.  The ring stays linked, the
  lookups in between find the responsible members, and a member whose finger task ran once for
  every finger has the best table: when all members got there the ring is stable.
\<close>

subsection \<open>A member taking a turn\<close>

datatype turn = Stabilizes endpoint | Checks endpoint | Fixes endpoint | Looks_up endpoint uuid

fun take_turn :: "stubs \<Rightarrow> turn \<Rightarrow> (world, unit) run" where
  "take_turn N (Stabilizes e) = facade_stabilize N e"
| "take_turn N (Checks e) = facade_check_predecessor N e"
| "take_turn N (Fixes e) = facade_fix_next N e"
| "take_turn N (Looks_up e u) = bnd (facade_successor N e u) (\<lambda>_. ret ())"

fun turn_of :: "turn \<Rightarrow> endpoint" where
  "turn_of (Stabilizes e) = e"
| "turn_of (Checks e) = e"
| "turn_of (Fixes e) = e"
| "turn_of (Looks_up e u) = e"

text \<open>Members take turns and look up identifiers that are not a member's own.\<close>

definition turn_ok :: "node set \<Rightarrow> turn \<Rightarrow> bool" where
  "turn_ok N q =
     (turn_of q \<in> node_endpoint ` N \<and>
      (case q of Looks_up e u \<Rightarrow> u \<notin> node_uuid ` N | _ \<Rightarrow> True))"

text \<open>No finger of a member starts at a member.\<close>

definition clear_starts :: "node set \<Rightarrow> bool" where
  "clear_starts N = (\<forall>x\<in>N. \<forall>i<BITS. start (node_uuid x) i \<notin> node_uuid ` N)"

lemma for_each_append: "for_each (xs @ [x]) f s = bnd (for_each xs f) (\<lambda>_. f x) s"
proof (induction xs arbitrary: s)
  case Nil
  show ?case by (cases "f x s") (auto simp: bnd_def ret_def split: outcome.split prod.split)
next
  case (Cons y ys)
  show ?case
    using Cons.IH by (auto simp: bnd_def split: option.split outcome.split prod.split)
qed

subsection \<open>One turn\<close>

text \<open>The peers differ in the next finger and in what was learnt.\<close>

lemma linked_cong:
  assumes "\<And>e. self_ctx e w' = self_ctx e w" "\<And>e. self_router e w' = self_router e w" "alive w' = alive w"
  shows "linked w' N = linked w N"
  using assms by (simp add: linked_def linked_member_def self_node_def)

lemma set_next_self:
  "self_ctx e (update_peer me (\<lambda>p. p\<lparr>peer_next := i\<rparr>) w) = self_ctx e w"
  "self_router e (update_peer me (\<lambda>p. p\<lparr>peer_next := i\<rparr>) w) = self_router e w"
  by (cases "e = me"; simp add: self_ctx_def self_router_def)+

lemma linked_set_next: "linked (update_peer me (\<lambda>p. p\<lparr>peer_next := i\<rparr>) w) N = linked w N"
  by (rule linked_cong) (simp_all add: set_next_self)

lemma finger_fixed_set_next [simp]:
  "finger_fixed (update_peer me (\<lambda>p. p\<lparr>peer_next := i\<rparr>) w) N x j = finger_fixed w N x j"
  by (simp add: finger_fixed_def set_next_self)

lemma learns_next: "learns N w w' \<Longrightarrow> peer_next (peers w' e) = peer_next (peers w e)"
proof (induction rule: learns.induct)
  case (learned w w' y n)
  then show ?case
    by (cases "e = node_endpoint y")
      (auto simp: router_update_def emit_def set_router_def split: prod.split)
qed simp

lemma linked_turn:
  assumes st: "linked w N" and x: "x \<in> N" and two: "N \<noteq> {x}" and d: "card N < d" and cl: "clear_starts N"
    and q: "turn_ok N q" "turn_of q = node_endpoint x"
  shows "\<exists>v w'. take_turn (network t d) q w = Some (Returns (), w') \<and> learns N v w' \<and>
    (if q = Fixes (node_endpoint x)
     then v = update_peer (node_endpoint x) (\<lambda>p. p\<lparr>peer_next := (peer_next (peers w (node_endpoint x)) + 1) mod BITS\<rparr>) w \<and>
       finger_fixed w' N x ((peer_next (peers w (node_endpoint x)) + 1) mod BITS)
     else v = w)"
proof -
  let ?ep = "node_endpoint x"
  obtain d' where d': "d = Suc d'" using d by (cases d) auto
  show ?thesis
  proof (cases q)
    case (Stabilizes e)
    obtain w' where w': "learns N w w'" "client_stabilize (network t d) ?ep w = Some w'"
      using linked_stabilize [OF st x, of t d'] d' by auto
    have "has_successor (self_router ?ep w')"
      using linked_successor [OF linked_learns [OF w'(1) st] x] two
      by (auto simp: self_successor_def has_successor_def router_successor_def entry_valid_def split: option.splits)
    then show ?thesis using w' Stabilizes q(2) by (auto simp: facade_stabilize_def)
  next
    case (Checks e)
    then show ?thesis using linked_check [OF st x, of t d'] d' q(2)
      by (auto simp: facade_check_predecessor_def intro: learns.nothing)
  next
    case (Fixes e)
    let ?i = "(peer_next (peers w ?ep) + 1) mod BITS"
    have "linked (update_peer ?ep (\<lambda>p. p\<lparr>peer_next := ?i\<rparr>) w) N" using st by (simp only: linked_set_next)
    moreover have i: "?i < BITS" by (simp add: BITS_def)
    moreover have "start (node_uuid x) ?i \<notin> node_uuid ` N" using cl x i by (simp add: clear_starts_def)
    ultimately show ?thesis
      using linked_fix_finger [OF _ x _ d, of "update_peer ?ep (\<lambda>p. p\<lparr>peer_next := ?i\<rparr>) w" ?i t] Fixes q(2)
      by (auto simp: fix_next_index)
  next
    case (Looks_up e u)
    then show ?thesis
      using linked_facade_successor [OF st x _ d, of u t] q by (auto simp: turn_ok_def bnd_def ret_def)
  qed
qed

subsection \<open>Many turns\<close>

definition turns_fixed :: "node set \<Rightarrow> world \<Rightarrow> turn list \<Rightarrow> world \<Rightarrow> node \<Rightarrow> bool" where
  "turns_fixed N w turns w' x =
     (let i = peer_next (peers w (node_endpoint x)); c = count_list turns (Fixes (node_endpoint x))
      in peer_next (peers w' (node_endpoint x)) mod BITS = (i + c) mod BITS \<and>
         (\<forall>j\<in>{1..c}. finger_fixed w' N x ((i + j) mod BITS)))"

lemma turns_fixed_next:
  assumes st: "linked v N" and fixed: "turns_fixed N w turns v x" and x: "x \<in> N"
    and l: "learns N v w'" and q: "q \<noteq> Fixes (node_endpoint x)"
  shows "turns_fixed N w (turns @ [q]) w' x"
  using fixed finger_fixed_learns [OF l st x] learns_next [OF l, of "node_endpoint x"] q
  by (auto simp: turns_fixed_def Let_def BITS_def)

lemma turns_fixed_fix:
  assumes st: "linked v N" and fixed: "turns_fixed N w turns v x" and x: "x \<in> N"
    and u: "u = update_peer (node_endpoint x) (\<lambda>p. p\<lparr>peer_next := (peer_next (peers v (node_endpoint x)) + 1) mod BITS\<rparr>) v"
    and l: "learns N u w'" "finger_fixed w' N x ((peer_next (peers v (node_endpoint x)) + 1) mod BITS)"
  shows "turns_fixed N w (turns @ [Fixes (node_endpoint x)]) w' x"
proof -
  let ?ep = "node_endpoint x" and ?i = "peer_next (peers w (node_endpoint x))"
  let ?c = "count_list turns (Fixes ?ep)"
  have now: "(peer_next (peers v ?ep) + 1) mod BITS = (?i + Suc ?c) mod BITS"
    using fixed by (auto simp: turns_fixed_def Let_def) (metis mod_Suc_eq)
  have "linked u N" using st u by (simp add: linked_set_next)
  then have "finger_fixed w' N x ((?i + j) mod BITS)" if "j \<in> {1..?c}" for j
    using finger_fixed_learns [OF l(1) _ x] fixed that u by (auto simp: turns_fixed_def Let_def BITS_def)
  then have "finger_fixed w' N x ((?i + j) mod BITS)" if "j \<in> {1..Suc ?c}" for j
    using that l(2) unfolding now by (cases "j = Suc ?c") auto
  moreover have "peer_next (peers w' ?ep) = (?i + Suc ?c) mod BITS"
    using learns_next [OF l(1), of ?ep] u now by simp
  ultimately show ?thesis by (simp add: turns_fixed_def Let_def)
qed

lemma linked_turns:
  assumes st: "linked w N" and two: "\<And>x. N \<noteq> {x}" and d: "card N < d" and cl: "clear_starts N"
  shows "\<forall>q\<in>set turns. turn_ok N q \<Longrightarrow>
    \<exists>w'. for_each turns (take_turn (network t d)) w = Some (Returns (), w') \<and> linked w' N \<and>
      (\<forall>x\<in>N. turns_fixed N w turns w' x)"
proof (induction turns rule: rev_induct)
  case Nil
  then show ?case using st by (simp add: ret_def turns_fixed_def)
next
  case (snoc q turns)
  obtain v where v: "for_each turns (take_turn (network t d)) w = Some (Returns (), v)" "linked v N"
    "\<And>x. x \<in> N \<Longrightarrow> turns_fixed N w turns v x"
    using snoc by auto
  obtain y where y: "y \<in> N" "turn_of q = node_endpoint y" "turn_ok N q"
    using snoc.prems by (auto simp: turn_ok_def)
  let ?ep = "node_endpoint y" and ?i = "(peer_next (peers v (node_endpoint y)) + 1) mod BITS"
  let ?set = "update_peer ?ep (\<lambda>p. p\<lparr>peer_next := ?i\<rparr>) v"
  obtain u w' where w': "take_turn (network t d) q v = Some (Returns (), w')" "learns N u w'"
    "if q = Fixes ?ep then u = ?set \<and> finger_fixed w' N y ?i else u = v"
    using linked_turn [OF v(2) y(1) two d cl y(3,2)] by blast
  have "linked u N" using w'(3) v(2) by (simp add: linked_set_next split: if_splits)
  then have "linked w' N" using w'(2) by (blast intro: linked_learns)
  moreover have "turns_fixed N w (turns @ [q]) w' x" if x: "x \<in> N" for x
  proof (cases "q = Fixes (node_endpoint x)")
    case True
    then have "node_endpoint x = ?ep" using y(2) by simp
    then have "x = y" using linked_member_facts(2) [OF v(2)] x y(1) by metis
    then show ?thesis using turns_fixed_fix [OF v(2) v(3) [OF x] x] w' True \<open>x = y\<close> by simp
  next
    case False
    show ?thesis
    proof (cases "q = Fixes ?ep")
      case True
      then have "node_endpoint x \<noteq> ?ep" using False by auto
      then have "turns_fixed N w turns u x" using v(3) [OF x] w'(3) True
        by (auto simp: turns_fixed_def Let_def)
      then show ?thesis using turns_fixed_next [OF \<open>linked u N\<close> _ x w'(2) False] by blast
    next
      case no: False
      then show ?thesis using turns_fixed_next [OF v(2) v(3) [OF x] x _ False] w'(2,3) by simp
    qed
  qed
  moreover have "for_each (turns @ [q]) (take_turn (network t d)) w = Some (Returns (), w')"
    using v(1) w'(1) by (simp only: for_each_append bnd_returns)
  ultimately show ?case by blast
qed

lemma every_index:
  fixes i k :: nat
  assumes "i < BITS" "BITS \<le> c"
  shows "\<exists>j\<in>{1..c}. (k + j) mod BITS = i"
proof -
  obtain m r where k: "k = m + r" "m = BITS * (k div BITS)" "r < BITS"
    using mult_div_mod_eq [of BITS k] by (metis BITS_def mod_less_divisor zero_less_numeral)
  let ?j = "if r < i then i - r else i + BITS - r"
  have "m + r + ?j = m + i \<or> m + r + ?j = (m + i) + BITS" using k(3) by auto
  then have "(k + ?j) mod BITS = (m + i) mod BITS" unfolding k(1) [symmetric] by (metis mod_add_self2)
  also have "\<dots> = i" using assms(1) k(2) by (metis mod_less mod_mult_self4)
  finally have "(k + ?j) mod BITS = i" .
  moreover have "?j \<in> {1..c}" using k(3) assms by auto
  ultimately show ?thesis by blast
qed

lemma turns_fixed_ok:
  assumes "linked w' N" "x \<in> N" "turns_fixed N w turns w' x"
    "BITS \<le> count_list turns (Fixes (node_endpoint x))"
  shows "member_ok w' N x"
proof (rule fixed_member_ok [OF assms(1,2)])
  fix i assume "i < BITS"
  then obtain j where "j \<in> {1..count_list turns (Fixes (node_endpoint x))}"
    "(peer_next (peers w (node_endpoint x)) + j) mod BITS = i"
    using every_index assms(4) by metis
  then show "finger_fixed w' N x i" using assms(3) by (auto simp: turns_fixed_def Let_def)
qed

lemma count_list_rep: "count_list (replicate n x) y = (if x = y then n else 0)"
  by (induction n) auto

lemma linked_settles:
  assumes "linked w N" "\<And>x. N \<noteq> {x}" "card N < d" "clear_starts N" "\<forall>q\<in>set turns. turn_ok N q"
    and often: "\<forall>x\<in>N. BITS \<le> count_list turns (Fixes (node_endpoint x))"
  shows "\<exists>w'. for_each turns (take_turn (network t d)) w = Some (Returns (), w') \<and> stable w' N"
proof -
  obtain w' where "for_each turns (take_turn (network t d)) w = Some (Returns (), w')" "linked w' N"
    "\<forall>x\<in>N. turns_fixed N w turns w' x"
    using linked_turns [OF assms(1-5)] by blast
  then show ?thesis using turns_fixed_ok often by (auto simp: stable_def linked_def)
qed

end
