(* ===== verification/Protocol.thy ===== *)
theory Protocol
  imports Ring_Tasks
begin

text \<open>
  What every execution of the ring protocol keeps, whatever the state of the ring.  The
  locale \<open>stub_contract\<close> is the interface between a peer and the processes it calls: stubs
  that keep an invariant of the store, which the operations on the own router keep as
  well.  All of a peer's functions keep the invariant then, and so does a network of
  peers, at any depth of nested calls.
\<close>

subsection \<open>Invariants of the store\<close>

locale world_invariant =
  fixes I :: "world \<Rightarrow> bool"
  assumes update_keeps: "I w \<Longrightarrow> I (router_update me n w)"
    and remove_keeps: "I w \<Longrightarrow> I (router_remove me u signal w)"
    and clear_keeps: "I w \<Longrightarrow> I (router_clear me w)"
    and emit_keeps: "I w \<Longrightarrow> I (emit me evs w)"
    and next_keeps: "I w \<Longrightarrow> I (update_peer me (\<lambda>p. p\<lparr>peer_next := i\<rparr>) w)"
    and crash_keeps: "I w \<Longrightarrow> I (crash me w)"
begin

lemmas local_keeps = update_keeps remove_keeps clear_keeps emit_keeps next_keeps

lemma respond_keeps: "I (snd r) \<Longrightarrow> I (snd (respond a d r))"
  by (auto simp: respond_def crash_keeps split: prod.splits outcome.splits)

lemma deliver_keeps:
  assumes "deliver a d h w = Some (r, w')" "I w" "\<And>x. h w = Some x \<Longrightarrow> I (snd x)"
  shows "I w'"
proof (cases "alive w a")
  case True
  then obtain x where "h w = Some x" "respond a d x = (r, w')" using assms(1) by (auto simp: deliver_def)
  then show ?thesis using respond_keeps [of x a d] assms(3) by simp
next
  case False
  then show ?thesis using assms(1,2) by (simp add: deliver_def)
qed

end

locale stub_contract = world_invariant I for I :: "world \<Rightarrow> bool" +
  fixes N :: stubs
  assumes join_keeps: "I w \<Longrightarrow> stub_join N a b jreq w = Some (jr, w') \<Longrightarrow> I w'"
    and successor_keeps: "I w \<Longrightarrow> stub_successor N a b sreq w = Some (sr, w') \<Longrightarrow> I w'"
    and stabilize_keeps: "I w \<Longrightarrow> stub_stabilize N a b streq w = Some (str, w') \<Longrightarrow> I w'"
    and notify_keeps: "I w \<Longrightarrow> stub_notify N a b nreq w = Some (nr, w') \<Longrightarrow> I w'"
    and leave_keeps: "I w \<Longrightarrow> stub_leave N a b lreq w = Some (lr, w') \<Longrightarrow> I w'"
    and ping_keeps: "I w \<Longrightarrow> stub_ping N a b preq w = Some (pr, w') \<Longrightarrow> I w'"
begin

lemmas stub_keeps = join_keeps [rotated] successor_keeps [rotated] stabilize_keeps [rotated]
  notify_keeps [rotated] leave_keeps [rotated] ping_keeps [rotated]

lemma client_ping_keeps: "I w \<Longrightarrow> client_ping N me n w = Some (st, w') \<Longrightarrow> I w'"
  by (auto simp: client_ping_def dest!: stub_keeps split: bind_splits)

lemma client_notify_keeps: "I w \<Longrightarrow> client_notify N me w = Some (st, w') \<Longrightarrow> I w'"
  by (auto simp: client_notify_def dest!: stub_keeps split: bind_splits option.splits if_splits)

lemma client_notify_nodes_keeps: "I w \<Longrightarrow> client_notify_nodes N me a b c w = Some (st, w') \<Longrightarrow> I w'"
  by (auto simp: client_notify_nodes_def dest!: stub_keeps split: bind_splits)

lemma client_join_keeps: "I w \<Longrightarrow> client_join N me addr w = Some (st, w') \<Longrightarrow> I w'"
  by (auto simp: client_join_def Let_def dest!: stub_keeps simp: local_keeps
      split: bind_splits if_splits)

lemma join_each_keeps: "I w \<Longrightarrow> join_each N me req ns w = Some (r, w') \<Longrightarrow> I w'"
  by (auto simp: join_each_def crash_keeps dest!: stub_keeps split: list.splits bind_splits if_splits)

lemma client_forward_join_keeps: "I w \<Longrightarrow> client_forward_join N me req w = Some (r, w') \<Longrightarrow> I w'"
  by (auto simp: client_forward_join_def dest: join_each_keeps)

lemma successor_each_keeps: "I w \<Longrightarrow> successor_each N me req ns w = Some (r, w') \<Longrightarrow> I w'"
  by (induction ns arbitrary: w)
    (auto dest!: stub_keeps split: bind_splits if_splits)

lemma client_successor_keeps: "I w \<Longrightarrow> client_successor N me req w = Some (r, w') \<Longrightarrow> I w'"
  by (auto simp: client_successor_def dest: successor_each_keeps)

lemma client_stabilize_keeps: "I w \<Longrightarrow> client_stabilize N me w = Some w' \<Longrightarrow> I w'"
  by (auto simp: client_stabilize_def Let_def dest!: stub_keeps client_notify_keeps [rotated]
      simp: local_keeps split: bind_splits option.splits if_splits)

lemma client_check_keeps: "I w \<Longrightarrow> client_check N me w = Some w' \<Longrightarrow> I w'"
  by (auto simp: client_check_def dest!: client_ping_keeps [rotated] simp: local_keeps
      split: bind_splits option.splits if_splits)

lemma client_leave_keeps: "I w \<Longrightarrow> client_leave N me w = Some w' \<Longrightarrow> I w'"
  by (auto simp: client_leave_def inform_successor_about_leave_def inform_predecessor_about_leave_def
      inform_about_leave_def dest!: stub_keeps split: bind_splits option.splits if_splits)

lemma ping_loop_keeps:
  assumes "ping_loop N me w = Some r" "I w"
  shows "I (snd r)"
proof -
  have "N = N \<longrightarrow> I w \<longrightarrow> I (snd r)"
  proof (rule ping_loop.raw_induct [where P = "\<lambda>N' me w r. N' = N \<longrightarrow> I w \<longrightarrow> I (snd r)"])
    show "ping_loop N me w = Some r" by (rule assms(1))
    fix loop and N' :: stubs and me w r
    assume IH: "\<And>N' me w r. loop N' me w = Some r \<Longrightarrow> N' = N \<longrightarrow> I w \<longrightarrow> I (snd r)"
      and body: "(let succ = successor_or_self (self_ctx me w) (self_router me w)
        in client_ping N' me succ w \<bind> (\<lambda>(st, w). if st = OK then Some (succ, w)
             else loop N' me (router_remove me (node_uuid succ) True w))) = Some r"
    show "N' = N \<longrightarrow> I w \<longrightarrow> I (snd r)"
      using body by (auto simp: Let_def dest!: client_ping_keeps [rotated] IH
          intro: remove_keeps split: bind_splits if_splits)
  qed
  then show ?thesis using assms(2) by simp
qed

lemma service_join_keeps: "I w \<Longrightarrow> service_join N me a req w = Some (r, w') \<Longrightarrow> I w'"
  by (auto simp: service_join_def Let_def
      dest!: client_ping_keeps [rotated] client_forward_join_keeps [rotated]
      split: bind_splits option.splits if_splits)

lemma service_successor_keeps: "I w \<Longrightarrow> service_successor N me req w = Some (r, w') \<Longrightarrow> I w'"
  by (fastforce simp: service_successor_def Let_def local_keeps
      dest!: ping_loop_keeps client_successor_keeps [rotated]
      split: bind_splits option.splits if_splits)

lemma service_successor_id_keeps: "I w \<Longrightarrow> service_successor_id N me u w = Some (r, w') \<Longrightarrow> I w'"
  by (auto simp: service_successor_id_def dest!: service_successor_keeps [rotated] split: bind_splits)

lemma service_fix_fingers_keeps: "I w \<Longrightarrow> service_fix_fingers N me i w = Some (r, w') \<Longrightarrow> I w'"
  by (auto simp: service_fix_fingers_def Let_def local_keeps
      dest!: service_successor_id_keeps [rotated] split: bind_splits outcome.splits if_splits)

lemma fold_update_keeps: "I w \<Longrightarrow> I (fold (\<lambda>e. router_update me (f e)) es w)"
  by (induction es arbitrary: w) (simp_all add: local_keeps)

lemma service_leave_keeps: "I w \<Longrightarrow> service_leave me a req w = (r, w') \<Longrightarrow> I w'"
  by (auto simp: service_leave_def Let_def local_keeps fold_update_keeps split: if_splits)

lemma service_notify_keeps: "I w \<Longrightarrow> service_notify me a req w = (r, w') \<Longrightarrow> I w'"
  by (auto simp: service_notify_def Let_def local_keeps split: option.splits if_splits)

lemma service_stabilize_keeps: "I w \<Longrightarrow> service_stabilize me req w = (r, w') \<Longrightarrow> I w'"
  by (auto simp: service_stabilize_def)

lemma service_ping_keeps: "I w \<Longrightarrow> service_ping me req w = (r, w') \<Longrightarrow> I w'"
  by (auto simp: service_ping_def split: if_splits)

lemma facade_join_keeps: "I w \<Longrightarrow> facade_join N me w = Some (r, w') \<Longrightarrow> I w'"
  by (auto simp: facade_join_def facade_join_failed_def local_keeps
      dest!: client_join_keeps [rotated] client_notify_nodes_keeps [rotated]
      split: bind_splits option.splits if_splits)

lemma facade_stabilize_keeps: "I w \<Longrightarrow> facade_stabilize N me w = Some (r, w') \<Longrightarrow> I w'"
  by (auto simp: facade_stabilize_def dest!: client_stabilize_keeps [rotated] facade_join_keeps [rotated]
      split: bind_splits if_splits)

lemma facade_check_keeps: "I w \<Longrightarrow> facade_check_predecessor N me w = Some (r, w') \<Longrightarrow> I w'"
  by (auto simp: facade_check_predecessor_def dest!: client_check_keeps [rotated] split: bind_splits)

lemma facade_fix_next_keeps: "I w \<Longrightarrow> facade_fix_next N me w = Some (r, w') \<Longrightarrow> I w'"
  by (auto simp: facade_fix_next_def facade_fix_fingers_def Let_def local_keeps
      dest!: service_fix_fingers_keeps [rotated])

lemma facade_start_keeps: "I w \<Longrightarrow> facade_start N me w = Some (r, w') \<Longrightarrow> I w'"
  by (auto simp: facade_start_def facade_create_def Let_def local_keeps
      dest!: facade_join_keeps [rotated] split: bind_splits if_splits)

end

subsection \<open>The network keeps every table well-formed\<close>

definition rings_ok :: "world \<Rightarrow> bool" where
  "rings_ok w = (\<forall>x. alive w x \<longrightarrow> router_wf (self_ctx x w) (self_router x w))"

lemma rings_ok_same:
  "rings_ok w \<Longrightarrow> (\<And>x. alive w' x \<Longrightarrow> alive w x) \<Longrightarrow>
   (\<And>x. alive w' x \<Longrightarrow> self_ctx x w' = self_ctx x w) \<Longrightarrow>
   (\<And>x. alive w' x \<Longrightarrow> router_wf (self_ctx x w) (self_router x w) \<Longrightarrow>
     router_wf (self_ctx x w) (self_router x w')) \<Longrightarrow>
   rings_ok w'"
  by (simp add: rings_ok_def)

lemma self_next [simp]:
  "self_ctx x (update_peer me (\<lambda>p. p\<lparr>peer_next := i\<rparr>) w) = self_ctx x w"
  "self_router x (update_peer me (\<lambda>p. p\<lparr>peer_next := i\<rparr>) w) = self_router x w"
  by (cases "x = me"; simp add: self_ctx_def self_router_def)+

lemma self_crash [simp]:
  "self_ctx x (crash a w) = self_ctx x w" "self_router x (crash a w) = self_router x w"
  "alive (crash a w) x \<longleftrightarrow> alive w x \<and> x \<noteq> a"
  by (auto simp: crash_def self_ctx_def self_router_def)

lemma rings_ok_local:
  assumes "rings_ok w"
  shows "rings_ok (router_update me n w)" "rings_ok (router_remove me u s w)"
    "rings_ok (router_clear me w)" "rings_ok (emit me evs w)"
    "rings_ok (update_peer me (\<lambda>p. p\<lparr>peer_next := i\<rparr>) w)" "rings_ok (crash a w)"
proof -
  show "rings_ok (router_update me n w)"
    by (rule rings_ok_same [OF assms]) (auto simp: router_update_router router_inv)
  show "rings_ok (router_remove me u s w)"
    by (rule rings_ok_same [OF assms]) (auto simp: router_remove_router router_inv)
  show "rings_ok (router_clear me w)"
    by (rule rings_ok_same [OF assms]) (auto simp: router_clear_router router_inv)
  show "rings_ok (emit me evs w)" "rings_ok (crash a w)"
    "rings_ok (update_peer me (\<lambda>p. p\<lparr>peer_next := i\<rparr>) w)"
    by (rule rings_ok_same [OF assms]; simp)+
qed

text \<open>A network of peers that all keep an invariant keeps it.\<close>

context world_invariant
begin

lemma network_contract: "stub_contract I (network t n)"
proof (induction n)
  case 0
  show ?case by unfold_locales (simp_all add: local_keeps crash_keeps)
next
  case (Suc n)
  show ?case
  proof unfold_locales
    fix w w' a b jreq jr
    assume "I w" "stub_join (network t (Suc n)) a b jreq w = Some (jr, w')"
    then show "I w'"
      using stub_contract.service_join_keeps [OF Suc]
      unfolding network_stubs by (auto elim!: deliver_keeps)
  next
    fix w w' a b sreq sr
    assume "I w" "stub_successor (network t (Suc n)) a b sreq w = Some (sr, w')"
    then show "I w'"
      using stub_contract.service_successor_keeps [OF Suc]
      unfolding network_stubs by (auto elim!: deliver_keeps)
  next
    fix w w' a b streq str
    assume "I w" "stub_stabilize (network t (Suc n)) a b streq w = Some (str, w')"
    then show "I w'"
      unfolding network_stubs by (auto simp: service_stabilize_def elim!: deliver_keeps)
  next
    fix w w' a b nreq nr
    assume "I w" "stub_notify (network t (Suc n)) a b nreq w = Some (nr, w')"
    then show "I w'"
      using stub_contract.service_notify_keeps [OF Suc]
      unfolding network_stubs by (auto elim!: deliver_keeps)
  next
    fix w w' a b lreq lr
    assume "I w" "stub_leave (network t (Suc n)) a b lreq w = Some (lr, w')"
    then show "I w'"
      using stub_contract.service_leave_keeps [OF Suc]
      unfolding network_stubs by (auto elim!: deliver_keeps)
  next
    fix w w' a b preq pr
    assume "I w" "stub_ping (network t (Suc n)) a b preq w = Some (pr, w')"
    then show "I w'"
      using stub_contract.service_ping_keeps [OF Suc]
      unfolding network_stubs by (auto elim!: deliver_keeps)
  qed
qed

end

interpretation rings: world_invariant rings_ok
  by unfold_locales (simp_all add: rings_ok_local)

interpretation net: stub_contract rings_ok "network t n" for t n
  by (rule rings.network_contract)

text \<open>No remote call changes a configuration or brings a process back.\<close>

definition same_setup :: "world \<Rightarrow> world \<Rightarrow> bool" where
  "same_setup w0 w = ((\<forall>x. self_ctx x w = self_ctx x w0) \<and> (\<forall>x. alive w x \<longrightarrow> alive w0 x))"

interpretation fixed: world_invariant "same_setup w0" for w0
  by unfold_locales (auto simp: same_setup_def)

interpretation fixed_net: stub_contract "same_setup w0" "network t n" for w0 t n
  by (rule fixed.network_contract)

subsection \<open>Join answers place the joiner between its neighbours\<close>

definition placed :: "uuid \<Rightarrow> status_code \<times> join_response \<Rightarrow> bool" where
  "placed src r =
     (fst r = OK \<longrightarrow>
      (case (jres_successor (snd r), jres_predecessor (snd r)) of
         (Some s, Some p) \<Rightarrow> between (node_uuid p) src (node_uuid s)
       | _ \<Rightarrow> False))"

lemma placed_not_ok [simp]: "st \<noteq> OK \<Longrightarrow> placed src (st, res)"
  by (simp add: placed_def)

lemma placed_reply [simp]:
  "placed src (OK, join_reply ctx s p) \<longleftrightarrow> between (node_uuid p) src (node_uuid s)"
  by (simp add: placed_def join_reply_def)

definition joining_uuid :: "join_request \<Rightarrow> uuid" where
  "joining_uuid req = node_uuid (header_entry (jreq_header req))"

lemma source_of_peer_uuid [simp]: "node_uuid (source_of_peer a (jreq_header req)) = joining_uuid req"
  by (simp add: source_of_peer_def joining_uuid_def)

lemma ctx_node_uuid [simp]: "node_uuid (ctx_node ctx) = ctx_uuid ctx"
  by (simp add: ctx_node_def)

lemma join_each_placed:
  assumes "\<And>a b w r w'. stub_join N a b req w = Some (r, w') \<Longrightarrow> placed (joining_uuid req) r"
  shows "join_each N me req ns w = Some (r, w') \<Longrightarrow> placed (joining_uuid req) r"
  by (auto simp: join_each_def dest: assms split: list.splits bind_splits if_splits)

lemma service_join_placed:
  assumes stub: "\<And>a b w r w'. stub_join N a b req w = Some (r, w') \<Longrightarrow> placed (joining_uuid req) r"
    and run: "service_join N me a req w = Some (Returns r, w')"
  shows "placed (joining_uuid req) r"
  using run join_each_placed [OF stub]
  by (auto simp: service_join_def Let_def client_forward_join_def
      split: bind_splits option.splits if_splits)

lemma network_join_placed: "stub_join (network t n) a b req w = Some (r, w') \<Longrightarrow> placed (joining_uuid req) r"
proof (induction n arbitrary: a b w r w')
  case (Suc n)
  show ?case
  proof (cases "alive w b")
    case True
    then obtain x where x: "service_join (network t n) b (t a) req w = Some x"
      "respond b empty_join_response x = (r, w')"
      using Suc.prems by (auto simp: network_stubs deliver_def)
    show ?thesis
    proof (cases "\<exists>q. fst x = Returns q")
      case True
      then obtain q w2 where "x = (Returns q, w2)" by (cases x) auto
      then have q: "service_join (network t n) b (t a) req w = Some (Returns r, w2)"
        using x by (simp add: respond_def)
      show ?thesis by (rule service_join_placed [OF Suc.IH q])
    next
      case False
      then show ?thesis using x by (cases r; cases x; cases "fst x") (auto simp: respond_def)
    qed
  next
    case False
    then show ?thesis using Suc.prems by (auto simp: network_stubs deliver_def)
  qed
qed simp

subsection \<open>The ping loop ends\<close>

text \<open>Every round that does not end the loop forgets a known identifier for good, and the peer
  itself answers when nobody else is left.\<close>

lemma router_successor_known:
  "successors r \<noteq> [] \<Longrightarrow> router_successor r = Some s \<Longrightarrow> s \<in> router_nodes r"
  by (auto simp: router_successor_def router_nodes_def set_entry_nodes)

lemma remove_known_smaller:
  assumes wf: "router_wf ctx r" and s: "router_successor r = Some s"
  shows "router_nodes (fst (snd (remove ctx (node_uuid s) signal r))) \<subset> router_nodes r"
proof -
  have ne: "successors r \<noteq> []" using wf by (rule router_wf_fields)
  have "s \<in> set (entry_nodes (successors r))"
    using s ne by (auto simp: router_successor_def set_entry_nodes)
  then have "node_uuid s \<noteq> ctx_uuid ctx" by (rule router_wf_not_self [OF wf])
  then have "s \<notin> router_nodes (fst (snd (remove ctx (node_uuid s) signal r)))"
    using remove_clears by blast
  moreover have "s \<in> router_nodes r" using router_successor_known [OF ne s] .
  moreover have "router_nodes (fst (snd (remove ctx (node_uuid s) signal r))) \<subseteq> router_nodes r"
    using remove_no_new [OF ne] by blast
  ultimately show ?thesis by blast
qed

lemma finite_router_nodes [simp]: "finite (router_nodes r)"
  by (simp add: router_nodes_def)

lemma ping_loop_ends:
  assumes "rings_ok w" "alive w me" "ctx_advertise_addr (self_ctx me w) = me"
  shows "\<exists>succ w'. ping_loop (network t (Suc d)) me w = Some (succ, w') \<and>
    alive w (node_endpoint succ) \<and> succ = successor_or_self (self_ctx me w') (self_router me w')"
  using assms
proof (induction "card (router_nodes (self_router me w))" arbitrary: w rule: less_induct)
  case less
  let ?s = "successor_or_self (self_ctx me w) (self_router me w)"
  show ?case
  proof (cases "alive w (node_endpoint ?s)")
    case True
    then have "ping_loop (network t (Suc d)) me w = Some (?s, w)"
      by (intro ping_loop_answers) (simp add: network_ping)
    then show ?thesis using True by blast
  next
    case False
    let ?w = "router_remove me (node_uuid ?s) True w"
    have step: "ping_loop (network t (Suc d)) me w = ping_loop (network t (Suc d)) me ?w"
      using False by (subst ping_loop.simps) (simp add: network_ping)
    have "?s \<noteq> ctx_node (self_ctx me w)" using False less.prems by (auto simp: ctx_node_def)
    then have s: "router_successor (self_router me w) = Some ?s"
      by (auto simp: successor_or_self_def split: option.splits)
    have wf: "router_wf (self_ctx me w) (self_router me w)" using less.prems by (simp add: rings_ok_def)
    have "card (router_nodes (self_router me ?w)) < card (router_nodes (self_router me w))"
      using psubset_card_mono [OF finite_router_nodes remove_known_smaller [OF wf s]]
      by (simp add: router_remove_router)
    from less.hyps [OF this] show ?thesis
      using less.prems by (simp add: step rings_ok_local)
  qed
qed

subsection \<open>Reachable stores\<close>

text \<open>A step of the system: a peer starts, runs one of its tasks or leaves and stops, somebody
  calls a peer, or a process dies.\<close>

inductive ring_step :: "(endpoint \<Rightarrow> string) \<Rightarrow> world \<Rightarrow> world \<Rightarrow> bool" for t where
  starts: "facade_start (network t d) me w = Some (r, w') \<Longrightarrow> ring_step t w w'"
| stabilizes: "facade_stabilize (network t d) me w = Some (r, w') \<Longrightarrow> ring_step t w w'"
| checks: "facade_check_predecessor (network t d) me w = Some (r, w') \<Longrightarrow> ring_step t w w'"
| fixes_finger: "facade_fix_next (network t d) me w = Some (r, w') \<Longrightarrow> ring_step t w w'"
| stops: "facade_stop (network t d) me w = Some w' \<Longrightarrow> ring_step t w (crash me w')"
| dies: "ring_step t w (crash me w)"
| called_join: "stub_join (network t d) a b jreq w = Some (jr, w') \<Longrightarrow> ring_step t w w'"
| called_successor: "stub_successor (network t d) a b sreq w = Some (sr, w') \<Longrightarrow> ring_step t w w'"
| called_stabilize: "stub_stabilize (network t d) a b streq w = Some (str, w') \<Longrightarrow> ring_step t w w'"
| called_notify: "stub_notify (network t d) a b nreq w = Some (nr, w') \<Longrightarrow> ring_step t w w'"
| called_leave: "stub_leave (network t d) a b lreq w = Some (lr, w') \<Longrightarrow> ring_step t w w'"
| called_ping: "stub_ping (network t d) a b preq w = Some (pr, w') \<Longrightarrow> ring_step t w w'"

definition booted :: "world \<Rightarrow> bool" where
  "booted w = (\<forall>x. alive w x \<longrightarrow> self_router x w = new_router (self_ctx x w))"

lemma booted_rings_ok: "booted w \<Longrightarrow> rings_ok w"
  by (simp add: booted_def rings_ok_def router_inv)

lemma stop_keeps:
  assumes "rings_ok w" "facade_stop (network t d) me w = Some w'"
  shows "rings_ok (crash me w')"
proof -
  obtain v where v: "client_leave (network t d) me w = Some v"
    and w': "\<And>x. x \<noteq> me \<Longrightarrow> peers w' x = peers v x" "alive w' = alive v"
    using assms(2)
    by (auto simp: facade_stop_def facade_leave_def Let_def emit_def split: bind_splits)
  have "rings_ok v" using net.client_leave_keeps [OF assms(1) v] .
  then show ?thesis
    using w' by (auto simp: rings_ok_def self_ctx_def self_router_def crash_def)
qed

lemma ring_step_keeps: "ring_step t w w' \<Longrightarrow> rings_ok w \<Longrightarrow> rings_ok w'"
proof (induction rule: ring_step.induct)
qed (auto intro: stop_keeps rings_ok_local
    dest: net.facade_start_keeps [rotated] net.facade_stabilize_keeps [rotated]
      net.facade_check_keeps [rotated] net.facade_fix_next_keeps [rotated] net.stub_keeps)

inductive_cases ring_stepE: "ring_step t w w'"

lemma reachable_rings_ok: "(ring_step t)\<^sup>*\<^sup>* w w' \<Longrightarrow> rings_ok w \<Longrightarrow> rings_ok w'"
  by (induction rule: rtranclp_induct) (auto dest: ring_step_keeps)

end
