(* ===== verification/First_Join.thy ===== *)
theory First_Join
  imports Protocol
begin

text \<open>
  The first peer to join a bootstrapped one: after \<open>facade_join\<close> the two form a stable ring.
  The peers must be on one host as far as the transport address tells, because the server
  rewrites the host of every entry to the caller's.
\<close>

definition same_host :: "string \<Rightarrow> node \<Rightarrow> bool" where
  "same_host peer n =
     (CHR '':'' \<in> set (node_endpoint n) \<and>
      before_last CHR '':'' peer = before_last CHR '':'' (node_endpoint n))"

lemma make_node_peer_same [simp]: "same_host peer n \<Longrightarrow> make_node_peer peer n = n"
  by (simp add: same_host_def make_node_peer_same_host)

text \<open>Tables with one other node far enough away.\<close>

lemma learn_first:
  assumes "n \<noteq> ctx_node ctx" "2 < dist (ctx_uuid ctx) (node_uuid n)"
  shows "router_successor (learn ctx n (new_router ctx)) = Some n"
    and "router_predecessor (learn ctx n (new_router ctx)) = Some n"
    and "learn ctx n (learn ctx n (new_router ctx)) = learn ctx n (new_router ctx)"
proof -
  let ?r = "learn ctx n (new_router ctx)"
  have table: "best_table ctx {n} ?r" using best_table_learn [OF best_table_new assms(1)] .
  then have starts: "starts_ok (ctx_uuid ctx) (successors ?r)" by (simp add: best_table_def)
  then have e: "successors ?r ! 0 \<in> set (successors ?r)" "ent_uuid (successors ?r ! 0) = start (ctx_uuid ctx) 0"
    using starts_length [OF starts] starts_nth [OF starts] by simp_all
  then have best: "best_finger (ctx_uuid ctx) (start (ctx_uuid ctx) 0) {n} (router_successor ?r)"
    using table unfolding best_table_def router_successor_def by metis
  have "spos (ctx_uuid ctx) 0 \<le> 2" by (simp add: spos_eq)
  then have "pos (ctx_uuid ctx) (start (ctx_uuid ctx) 0) < pos (ctx_uuid ctx) (node_uuid n)"
    using assms(2) by (simp add: pos_less_dist spos_dist)
  then show "router_successor ?r = Some n"
    using best by (auto simp: best_finger_def split: option.splits)
  show "router_predecessor ?r = Some n"
    using table by (auto simp: best_table_def best_predecessor_def split: option.splits)
  show "learn ctx n ?r = ?r" using best_table_learn_known [OF table] by simp
qed

definition first_join_ok :: "(endpoint \<Rightarrow> string) \<Rightarrow> node \<Rightarrow> node \<Rightarrow> world \<Rightarrow> bool" where
  "first_join_ok t a b w =
     (booted w \<and> alive w (node_endpoint a) \<and> alive w (node_endpoint b) \<and>
      self_node (node_endpoint a) w = a \<and> self_node (node_endpoint b) w = b \<and>
      ctx_join_addr (self_ctx (node_endpoint b) w) = node_endpoint a \<and>
      spaced {a, b} \<and> a \<noteq> b \<and>
      same_host (t (node_endpoint b)) a \<and> same_host (t (node_endpoint b)) b)"

lemma first_join_facts:
  assumes "first_join_ok t a b w"
  shows "self_router (node_endpoint a) w = new_router (self_ctx (node_endpoint a) w)"
    "self_router (node_endpoint b) w = new_router (self_ctx (node_endpoint b) w)"
    "ctx_node (self_ctx (node_endpoint a) w) = a" "ctx_node (self_ctx (node_endpoint b) w) = b"
    "ctx_uuid (self_ctx (node_endpoint a) w) = node_uuid a" "ctx_uuid (self_ctx (node_endpoint b) w) = node_uuid b"
    "alive w (node_endpoint a)" "alive w (node_endpoint b)" "node_endpoint a \<noteq> node_endpoint b"
    "node_uuid a \<noteq> node_uuid b" "a \<noteq> b"
    "2 < dist (node_uuid a) (node_uuid b)" "2 < dist (node_uuid b) (node_uuid a)"
    "same_host (t (node_endpoint b)) a" "same_host (t (node_endpoint b)) b"
    "ctx_join_addr (self_ctx (node_endpoint b) w) = node_endpoint a"
  using assms self_node_uuid [of "node_endpoint a" w] self_node_uuid [of "node_endpoint b" w]
  by (auto simp: first_join_ok_def booted_def self_node_def spaced_def)

lemma new_router_empty [simp]:
  "router_successor (new_router ctx) = None" "router_predecessor (new_router ctx) = None"
  by (simp_all add: new_router_def router_successor_def init_entries_def BITS_def del: upt_Suc)

lemma router_update_self: "router_update me (ctx_node (self_ctx me w)) w = w"
  by (simp add: router_update_def update_def)

text \<open>The bootstrapped peer answers with itself on both sides.\<close>

lemma first_join_answer:
  assumes ok: "first_join_ok t a b w"
  shows "stub_join (network t (Suc (Suc d))) (node_endpoint b) (node_endpoint a)
    \<lparr>jreq_header = Some (make_header (self_ctx (node_endpoint b) w))\<rparr> w =
    Some ((OK, join_reply (self_ctx (node_endpoint a) w) a a), w)"
proof -
  have src: "source_of_peer (t (node_endpoint b)) (Some (make_header (self_ctx (node_endpoint b) w))) = b"
    using first_join_facts [OF ok]
    by (simp add: source_of_peer_def header_entry_def make_header_def entry_of_def ctx_node_def)
  show ?thesis
    using first_join_facts [OF ok]
    by (simp add: network_stubs deliver_def respond_def service_join_def src network_ping Let_def
        self_predecessor_def successor_or_self_def)
qed

text \<open>The joining peer then tells both of its neighbours, which are the same peer.\<close>

lemma first_join_client:
  assumes ok: "first_join_ok t a b w"
  shows "client_join (network t (Suc (Suc d))) (node_endpoint b) (node_endpoint a) w =
    Some (OK, router_update (node_endpoint b) a (router_update (node_endpoint b) a w))"
  using first_join_answer [OF ok] by (simp add: client_join_def join_reply_def entry_of_def)

text \<open>What a notification naming both nodes does to the bootstrapped peer.\<close>

lemma first_join_notify:
  assumes ok: "first_join_ok t a b w"
    and ctx: "\<And>x. self_ctx x v = self_ctx x w" "alive v = alive w"
    and ra: "self_router (node_endpoint a) v = new_router (self_ctx (node_endpoint a) w) \<or>
      self_router (node_endpoint a) v = learn (self_ctx (node_endpoint a) w) b (new_router (self_ctx (node_endpoint a) w))"
  shows "\<exists>v'. client_notify_nodes (network t (Suc d)) (node_endpoint b) a a b v = Some (OK, v') \<and>
    (\<forall>x. self_ctx x v' = self_ctx x w) \<and> alive v' = alive w \<and>
    self_router (node_endpoint b) v' = self_router (node_endpoint b) v \<and>
    self_router (node_endpoint a) v' = learn (self_ctx (node_endpoint a) w) b (new_router (self_ctx (node_endpoint a) w))"
proof -
  note facts = first_join_facts [OF ok]
  let ?A = "node_endpoint a" and ?B = "node_endpoint b"
  let ?ra = "learn (self_ctx ?A w) b (new_router (self_ctx ?A w))"
  have far: "b \<noteq> ctx_node (self_ctx ?A w)" "2 < dist (ctx_uuid (self_ctx ?A w)) (node_uuid b)"
    using facts by auto
  have src: "source_of (Some (make_header (self_ctx ?B w))) = b" using facts by simp
  have again: "learn (self_ctx ?A w) b ?ra = ?ra" using learn_first(3) [OF far] .
  have first: "learn (self_ctx ?A w) b (self_router ?A v) = ?ra" using ra again by auto
  have self: "learn (self_ctx ?A w) a r = r" for r using learn_self [of "self_ctx ?A w" r] facts by simp
  let ?v = "router_update ?A b (router_update ?A a (router_update ?A b v))"
  have router: "self_router ?A ?v = ?ra" "self_router ?B ?v = self_router ?B v"
    using facts by (simp_all add: router_update_router ctx first self again)
  have pred: "self_predecessor ?A v = None \<or> self_predecessor ?A v = Some b"
    using ra learn_first(2) [OF far] by (auto simp: self_predecessor_def)
  have selfa: "self_node ?A v = a" using facts ctx by (simp add: self_node_def)
  have "\<exists>evs. service_notify ?A (t ?B)
      \<lparr>nreq_header = Some (make_header (self_ctx ?B w)), nreq_old_node = Some a, nreq_new_node = Some b\<rparr> v =
      (Returns (OK, ()), emit ?A evs ?v)"
    using pred src selfa facts
    by (auto simp: service_notify_def Let_def intro: exI [of _ "[]"])
  then obtain evs where "service_notify ?A (t ?B)
      \<lparr>nreq_header = Some (make_header (self_ctx ?B w)), nreq_old_node = Some a, nreq_new_node = Some b\<rparr> v =
      (Returns (OK, ()), emit ?A evs ?v)" by blast
  then have "client_notify_nodes (network t (Suc d)) ?B a a b v = Some (OK, emit ?A evs ?v)"
    using facts ctx by (simp add: client_notify_nodes_def network_stubs deliver_def respond_def)
  then show ?thesis using ctx router by auto
qed

lemma first_join_result:
  assumes ok: "first_join_ok t a b w"
  shows "\<exists>w'. facade_join (network t (Suc (Suc d))) (node_endpoint b) w = Some (Returns (), w') \<and>
    (\<forall>x. self_ctx x w' = self_ctx x w) \<and> alive w' = alive w \<and>
    self_router (node_endpoint a) w' =
      learn (self_ctx (node_endpoint a) w) b (new_router (self_ctx (node_endpoint a) w)) \<and>
    self_router (node_endpoint b) w' =
      learn (self_ctx (node_endpoint b) w) a (new_router (self_ctx (node_endpoint b) w))"
proof -
  note facts = first_join_facts [OF ok]
  let ?A = "node_endpoint a" and ?B = "node_endpoint b" and ?N = "network t (Suc (Suc d))"
  let ?ra = "learn (self_ctx ?A w) b (new_router (self_ctx ?A w))"
  let ?rb = "learn (self_ctx ?B w) a (new_router (self_ctx ?B w))"
  have far: "a \<noteq> ctx_node (self_ctx ?B w)" "2 < dist (ctx_uuid (self_ctx ?B w)) (node_uuid a)"
    using facts by auto
  note rb = learn_first [OF far]
  let ?w1 = "router_update ?B a (router_update ?B a w)"
  have w1: "self_router ?B ?w1 = ?rb" "self_router ?A ?w1 = new_router (self_ctx ?A w)"
    using facts rb(3) by (simp_all add: router_update_router)
  obtain w2 where w2: "client_notify_nodes ?N ?B a a b ?w1 = Some (OK, w2)"
    "\<And>x. self_ctx x w2 = self_ctx x w" "alive w2 = alive w" "self_router ?B w2 = ?rb" "self_router ?A w2 = ?ra"
    using first_join_notify [OF ok, of ?w1 "Suc d"] w1 by auto
  obtain w3 where w3: "client_notify_nodes ?N ?B a a b w2 = Some (OK, w3)"
    "\<And>x. self_ctx x w3 = self_ctx x w" "alive w3 = alive w" "self_router ?B w3 = ?rb" "self_router ?A w3 = ?ra"
    using first_join_notify [OF ok, of w2 "Suc d"] w2 by auto
  have nodes: "self_node ?B ?w1 = b" "self_node ?B w2 = b" using facts w2(2) by (simp_all add: self_node_def)
  have "facade_join ?N ?B w = Some (Returns (), emit ?B [On_join a] w3)"
    using first_join_client [OF ok, of d] facts w1 w2 w3 rb(1,2) nodes
    by (simp add: facade_join_def self_predecessor_def self_successor_def)
  then show ?thesis using w3 by auto
qed

lemma first_join_stable:
  assumes ok: "first_join_ok t a b w"
  shows "\<exists>w'. facade_join (network t (Suc (Suc d))) (node_endpoint b) w = Some (Returns (), w') \<and>
    stable w' {a, b}"
proof -
  note facts = first_join_facts [OF ok]
  obtain w' where w': "facade_join (network t (Suc (Suc d))) (node_endpoint b) w = Some (Returns (), w')"
    "\<And>x. self_ctx x w' = self_ctx x w" "alive w' = alive w"
    "self_router (node_endpoint a) w' =
      learn (self_ctx (node_endpoint a) w) b (new_router (self_ctx (node_endpoint a) w))"
    "self_router (node_endpoint b) w' =
      learn (self_ctx (node_endpoint b) w) a (new_router (self_ctx (node_endpoint b) w))"
    using first_join_result [OF ok] by blast
  have sets: "{a, b} - {a} = {b}" "{a, b} - {b} = {a}" using facts by auto
  have tables: "best_table (self_ctx (node_endpoint a) w) {b} (self_router (node_endpoint a) w')"
    "best_table (self_ctx (node_endpoint b) w) {a} (self_router (node_endpoint b) w')"
    using best_table_learn [OF best_table_new, of b "self_ctx (node_endpoint a) w"]
      best_table_learn [OF best_table_new, of a "self_ctx (node_endpoint b) w"] facts w'(4,5) by simp_all
  have "spaced {a, b}" using ok by (simp add: first_join_ok_def)
  then have "stable w' {a, b}"
    using facts w'(2,3) tables sets by (simp add: stable_def member_ok_def self_node_def)
  then show ?thesis using w'(1) by blast
qed

end
