(* ===== verification/Growth.thy ===== *)
theory Growth
  imports Maintenance First_Join
begin

text \<open>
  Peers joining one after another.  A request to join is forwarded to the two members the new
  peer belongs between; the new peer learns of both and tells both, and the ring is linked with
  it in it.
\<close>

subsection \<open>Neighbours\<close>

lemma spaced_subset: "spaced N \<Longrightarrow> M \<subseteq> N \<Longrightarrow> spaced M"
  by (auto simp: spaced_def)

lemma last_member_next:
  assumes "last_member N x q" "x \<in> N" "inj_on node_uuid N"
  shows "next_member N q x"
proof -
  have q: "q \<in> N" "q \<noteq> x" "\<And>n. n \<in> N - {x} \<Longrightarrow> dist (node_uuid x) (node_uuid n) \<le> dist (node_uuid x) (node_uuid q)"
    using assms(1) by (auto simp: last_member_def)
  have apart: "node_uuid m \<noteq> node_uuid n" if "m \<in> N" "n \<in> N" "m \<noteq> n" for m n
    using assms(3) that by (auto dest: inj_onD)
  have "dist (node_uuid q) (node_uuid x) < dist (node_uuid q) (node_uuid n)" if n: "n \<in> N" "n \<noteq> q" "n \<noteq> x" for n
  proof -
    have "dist (node_uuid x) (node_uuid n) \<noteq> dist (node_uuid x) (node_uuid q)"
      using apart [OF n(1) q(1)] n(2) by (auto simp: dist_inj)
    then have "dist (node_uuid x) (node_uuid n) < dist (node_uuid x) (node_uuid q)"
      using q(3) [of n] n by simp
    then show ?thesis using dist_rotate apart n assms(2) q(1,2) by metis
  qed
  then show ?thesis using q(1,2) assms(2) by (fastforce simp: next_member_def less_imp_le)
qed

lemma next_member_unique:
  assumes "next_member N x s" "next_member N x s'" "inj_on node_uuid N"
  shows "s = s'"
proof -
  have "dist (node_uuid x) (node_uuid s) = dist (node_uuid x) (node_uuid s')"
    using assms(1,2) by (force simp: next_member_def)
  then show ?thesis using assms by (auto simp: dist_inj next_member_def dest: inj_onD)
qed

lemma last_member_unique:
  assumes "last_member N x s" "last_member N x s'" "inj_on node_uuid N"
  shows "s = s'"
proof -
  have "dist (node_uuid x) (node_uuid s) = dist (node_uuid x) (node_uuid s')"
    using assms(1,2) by (force simp: last_member_def)
  then show ?thesis using assms by (auto simp: dist_inj last_member_def dest: inj_onD)
qed

lemma linked_forth:
  assumes st: "linked w N" and x: "x \<in> N" and q: "self_predecessor (node_endpoint x) w = Some q"
  shows "q \<in> N" "self_successor (node_endpoint q) w = Some x"
proof -
  have inj: "inj_on node_uuid N" using st spaced_inj by (simp add: linked_def)
  have last: "last_member N x q" using linked_predecessor [OF st x] q by simp
  show qN: "q \<in> N" using last by (simp add: last_member_def)
  have "q \<noteq> x" using last by (simp add: last_member_def)
  then obtain s where "self_successor (node_endpoint q) w = Some s" "next_member N q s"
    using linked_successor [OF st qN] x by (auto simp: next_member_def split: option.splits)
  then show "self_successor (node_endpoint q) w = Some x"
    using next_member_unique [OF _ last_member_next [OF last x inj] inj] by simp
qed

text \<open>The new peer's neighbours.\<close>

lemma new_next:
  assumes "responsible N (node_uuid x) s" "x \<notin> N"
  shows "next_member (insert x N) x s"
  using assms by (auto simp: responsible_def next_member_def)

lemma new_last:
  assumes "preceding N (node_uuid x) p" "x \<notin> N" "node_uuid x \<notin> node_uuid ` N"
  shows "last_member (insert x N) x p"
proof -
  have "dist (node_uuid x) (node_uuid m) \<le> dist (node_uuid x) (node_uuid p)" if "m \<in> N" for m
  proof -
    have d: "node_uuid p \<noteq> node_uuid x" "node_uuid m \<noteq> node_uuid x" using assms that by (metis imageI preceding_def)+
    note backs = dist_back [OF d(1)] dist_back [OF d(2)]
    have "dist (node_uuid p) (node_uuid x) \<le> dist (node_uuid m) (node_uuid x)"
      using assms(1) that by (simp add: preceding_def)
    then show ?thesis using backs by linarith
  qed
  then show ?thesis using assms by (auto simp: preceding_def last_member_def)
qed

text \<open>A member whose neighbour the new peer becomes is the preceding or the responsible one.\<close>

lemma becomes_next:
  assumes "next_member (insert x N) y x" "y \<in> N" "x \<notin> N" "inj_on node_uuid (insert x N)"
  shows "preceding N (node_uuid x) y"
proof -
  have apart: "node_uuid m \<noteq> node_uuid n" if "m \<in> insert x N" "n \<in> insert x N" "m \<noteq> n" for m n
    using inj_onD [OF assms(4)] that by blast
  have "dist (node_uuid y) (node_uuid x) \<le> dist (node_uuid n) (node_uuid x)" if n: "n \<in> N" "n \<noteq> y" for n
  proof -
    have d: "node_uuid y \<noteq> node_uuid x" "node_uuid n \<noteq> node_uuid x"
      using apart [of y x] apart [of n x] n assms(2,3) by auto
    have "dist (node_uuid y) (node_uuid x) \<le> dist (node_uuid y) (node_uuid n)"
      using assms(1) n by (simp add: next_member_def)
    then have "dist (node_uuid y) (node_uuid x) < dist (node_uuid y) (node_uuid n)"
      using d(2) by (metis dist_inj order_le_less)
    then have "dist (node_uuid x) (node_uuid n) < dist (node_uuid x) (node_uuid y)"
      using dist_rotate d by metis
    then show ?thesis using dist_back [OF d(1)] dist_back [OF d(2)] by linarith
  qed
  then show ?thesis using assms(2) by (auto simp: preceding_def)
qed

lemma becomes_last:
  assumes "last_member (insert x N) y x" "y \<in> N" "x \<notin> N" "inj_on node_uuid (insert x N)"
  shows "responsible N (node_uuid x) y"
proof -
  have apart: "node_uuid m \<noteq> node_uuid n" if "m \<in> insert x N" "n \<in> insert x N" "m \<noteq> n" for m n
    using inj_onD [OF assms(4)] that by blast
  have "dist (node_uuid x) (node_uuid y) \<le> dist (node_uuid x) (node_uuid n)" if n: "n \<in> N" "n \<noteq> y" for n
  proof -
    have d: "node_uuid x \<noteq> node_uuid y" "node_uuid y \<noteq> node_uuid n" "node_uuid n \<noteq> node_uuid x"
      using apart [of x y] apart [of n x] apart [of y n] n assms(2,3) by auto
    have "dist (node_uuid y) (node_uuid n) \<le> dist (node_uuid y) (node_uuid x)"
      using assms(1) n by (simp add: last_member_def)
    then have "dist (node_uuid y) (node_uuid n) < dist (node_uuid y) (node_uuid x)"
      using d(3) by (metis dist_inj order_le_less)
    then have "dist (node_uuid x) (node_uuid y) < dist (node_uuid x) (node_uuid n)"
      using dist_rotate d(1,2) by metis
    then show ?thesis by simp
  qed
  then show ?thesis using assms(2) by (auto simp: responsible_def)
qed

lemma responsible_unique:
  "responsible N u a \<Longrightarrow> responsible N u b \<Longrightarrow> inj_on node_uuid N \<Longrightarrow> a = b"
  unfolding responsible_def by (metis dist_inj inj_onD order_antisym)

lemma preceding_unique:
  "preceding N u a \<Longrightarrow> preceding N u b \<Longrightarrow> inj_on node_uuid N \<Longrightarrow> a = b"
  unfolding preceding_def by (metis dist_inj_start inj_onD order_antisym)

subsection \<open>Asking to join\<close>

lemma join_each_hd:
  "ns \<noteq> [] \<Longrightarrow> stub_join N me (node_endpoint (hd ns)) req w = Some ((OK, res), w') \<Longrightarrow>
   join_each N me req ns w = Some ((OK, res), w')"
  by (cases ns) (simp_all add: join_each_def)

text \<open>What a member does with a request, told by the place of the new identifier.\<close>

lemma linked_service_join:
  assumes st: "linked w N" and x: "x \<in> N" and p: "preceding N u p" and u: "u \<notin> node_uuid ` N"
    and req: "has_valid_header (jreq_header req)" "joining_uuid req = u"
  shows "(\<exists>q\<in>N. \<exists>s. responsible N u s \<and>
      service_join (network t (Suc d)) (node_endpoint x) c req w =
        Some (Returns (OK, join_reply (self_ctx (node_endpoint q) w) s p), w)) \<or>
    x \<noteq> p \<and> service_join (network t (Suc d)) (node_endpoint x) c req w =
      do { (r, w) \<leftarrow> client_forward_join (network t (Suc d)) (node_endpoint x) req w; Some (Returns r, w) }"
proof -
  let ?ep = "node_endpoint x" and ?N = "network t (Suc d)"
  let ?s = "successor_or_self (self_ctx ?ep w) (self_router ?ep w)"
  note self = linked_member_facts [OF st x]
  note finds = linked_finds_iff [OF st x p u]
  show ?thesis
  proof (cases "x = p")
    case True
    then have "service_join ?N ?ep c req w = Some (Returns (OK, join_reply (self_ctx ?ep w) ?s p), w)"
      using finds(1) self(3,4) by (simp add: service_join_def Let_def req network_ping split: option.split)
    then show ?thesis using finds(2) True x by blast
  next
    case False
    then have "N \<noteq> {x}" using p by (auto simp: preceding_def)
    then obtain q where q: "self_predecessor ?ep w = Some q" "q \<in> N" "self_successor (node_endpoint q) w = Some x"
      using linked_predecessor [OF st x] linked_forth [OF st x] by (auto split: option.splits)
    have qx: "successor_or_self (self_ctx (node_endpoint q) w) (self_router (node_endpoint q) w) = x"
      using q(3) by (simp add: self_successor_def successor_or_self_def)
    have iff: "between (node_uuid q) u (node_uuid x) \<longleftrightarrow> q = p" "q = p \<Longrightarrow> responsible N u x"
      using linked_finds_iff [OF st q(2) p u, unfolded qx] by blast+
    show ?thesis
    proof (cases "q = p")
      case True
      then have "service_join ?N ?ep c req w = Some (Returns (OK, join_reply (self_ctx ?ep w) x p), w)"
        using finds(1) False self(3,4) q(1) iff by (simp add: service_join_def Let_def req network_ping)
      then show ?thesis using iff(2) True x by blast
    next
      case no: False
      then have "service_join ?N ?ep c req w =
          do { (r, w) \<leftarrow> client_forward_join ?N ?ep req w; Some (Returns r, w) }"
        using finds(1) False self(3,4) q(1) iff by (simp add: service_join_def Let_def req network_ping)
      then show ?thesis using False by blast
    qed
  qed
qed

lemma linked_join_answer:
  assumes st: "linked w N" and p: "preceding N u p" and u: "u \<notin> node_uuid ` N"
    and req: "has_valid_header (jreq_header req)" "joining_uuid req = u"
  shows "x \<in> N \<Longrightarrow> card (nearer N u x) \<le> k \<Longrightarrow>
    \<exists>q\<in>N. \<exists>s. responsible N u s \<and> stub_join (network t (k + 2 + d)) c (node_endpoint x) req w =
      Some ((OK, join_reply (self_ctx (node_endpoint q) w) s p), w)"
proof (induction k arbitrary: x c)
  case 0
  have "x = p"
    using nearer_preceding [OF _ p "0.prems"(1)] "0.prems"(2) spaced_inj [of N] st by (auto simp: linked_def)
  then obtain q s where q: "q \<in> N" "responsible N u s"
    "service_join (network t (Suc d)) (node_endpoint x) (t c) req w =
      Some (Returns (OK, join_reply (self_ctx (node_endpoint q) w) s p), w)"
    using linked_service_join [OF st "0.prems"(1) p u req, of t d "t c"] by blast
  then have "stub_join (network t (0 + 2 + d)) c (node_endpoint x) req w =
      Some ((OK, join_reply (self_ctx (node_endpoint q) w) s p), w)"
    using linked_member_facts(1) [OF st "0.prems"(1)] by (simp add: network_stubs deliver_def respond_def)
  then show ?case using q(1,2) by blast
next
  case (Suc k)
  let ?ep = "node_endpoint x" and ?N = "network t (Suc (k + 1 + d))"
  let ?ns = "closest_preceding_nodes (self_ctx ?ep w) (self_router ?ep w) u"
  have up: "alive w ?ep" using linked_member_facts(1) [OF st Suc.prems(1)] .
  have xu: "u \<noteq> node_uuid x" using u Suc.prems(1) by auto
  have answer: ?case
    if "q \<in> N" "responsible N u s" "service_join ?N ?ep (t c) req w =
        Some (Returns (OK, join_reply (self_ctx (node_endpoint q) w) s p), w)" for q s
  proof -
    have "stub_join (network t (Suc k + 2 + d)) c ?ep req w =
        Some ((OK, join_reply (self_ctx (node_endpoint q) w) s p), w)"
      using that(3) up by (simp add: network_stubs deliver_def respond_def)
    then show ?thesis using that(1,2) by blast
  qed
  from linked_service_join [OF st Suc.prems(1) p u req, of t "k + 1 + d" "t c"] show ?case
  proof
    assume "\<exists>q\<in>N. \<exists>s. responsible N u s \<and> service_join ?N ?ep (t c) req w =
        Some (Returns (OK, join_reply (self_ctx (node_endpoint q) w) s p), w)"
    then show ?thesis using answer by blast
  next
    assume fwd: "x \<noteq> p \<and> service_join ?N ?ep (t c) req w =
      do { (r, w) \<leftarrow> client_forward_join ?N ?ep req w; Some (Returns r, w) }"
    then have xp: "x \<noteq> p" by blast
    note hop = linked_next_hop(1-3) [OF st Suc.prems(1) p xp u]
    have "dist (node_uuid (hd ?ns)) u < dist (node_uuid x) u"
      using hop_closer [OF hop(2,3)] preceding_from(1) [OF p Suc.prems(1) xu] by blast
    then have near: "card (nearer N u (hd ?ns)) \<le> k"
      using nearer_hop [of N "hd ?ns" u x] hop(1) st Suc.prems(2) by (simp add: linked_def)
    obtain q s where q: "q \<in> N" "responsible N u s" "stub_join ?N ?ep (node_endpoint (hd ?ns)) req w =
        Some ((OK, join_reply (self_ctx (node_endpoint q) w) s p), w)"
      using Suc.IH [OF hop(1) near, of ?ep] by auto
    have "?ns \<noteq> []" using closest_preceding_nodes_set [OF linked_member_facts(5) [OF st Suc.prems(1)], of u] by auto
    then have "client_forward_join ?N ?ep req w = Some ((OK, join_reply (self_ctx (node_endpoint q) w) s p), w)"
      using join_each_hd [OF _ q(3)] req(2) by (simp add: client_forward_join_def joining_uuid_def)
    then have "service_join ?N ?ep (t c) req w =
        Some (Returns (OK, join_reply (self_ctx (node_endpoint q) w) s p), w)"
      using fwd by simp
    then show ?thesis using answer q(1,2) by blast
  qed
qed

subsection \<open>Telling the neighbours\<close>

lemma known_successor:
  assumes table: "best_table ctx M r" and M: "M \<subseteq> S - {y}" and S: "spaced S" "y \<in> S" "ctx_uuid ctx = node_uuid y"
    and p: "router_predecessor r = Some p"
  shows "router_successor r \<noteq> None"
proof -
  have "p \<in> M" using table p by (auto simp: best_table_def best_predecessor_def)
  moreover have "p \<in> S - {y}" using \<open>p \<in> M\<close> M by blast
  note beyond_first_start [OF S(1,2) this]
  moreover have "best_finger (node_uuid y) (start (node_uuid y) 0) M (router_successor r)"
    using best_table_finger [OF table, of 0] S(3) by (simp add: router_successor_def)
  ultimately show ?thesis by (auto simp: best_finger_def split: option.splits)
qed

lemma notify_tells:
  assumes y: "self_node (node_endpoint y) v = y" "alive v (node_endpoint y)"
    and x: "self_node (node_endpoint x) v = x" "x \<noteq> y"
    and table: "best_table (self_ctx (node_endpoint y) v) M (self_router (node_endpoint y) v)"
    and M: "M \<subseteq> S - {y}" "spaced S" "y \<in> S"
    and hosts: "same_host (t (node_endpoint x)) old" "same_host (t (node_endpoint x)) x"
  shows "\<exists>v'. client_notify_nodes (network t (Suc d)) (node_endpoint x) y old x v = Some (OK, v') \<and>
    (\<forall>e. self_ctx e v' = self_ctx e v) \<and> alive v' = alive v \<and>
    (\<forall>e. e \<noteq> node_endpoint y \<longrightarrow> self_router e v' = self_router e v) \<and>
    best_table (self_ctx (node_endpoint y) v) (M \<union> ({x, old} - {y})) (self_router (node_endpoint y) v')"
proof -
  let ?Y = "node_endpoint y" and ?X = "node_endpoint x"
  let ?req = "\<lparr>nreq_header = Some (make_header (self_ctx ?X v)), nreq_old_node = Some (make_entry old),
    nreq_new_node = Some (make_entry x)\<rparr>"
  let ?v = "router_update ?Y x (router_update ?Y old (router_update ?Y x v))"
  have nodes: "ctx_node (self_ctx ?Y v) = y" "ctx_node (self_ctx ?X v) = x"
    using y(1) x(1) by (simp_all add: self_node_def)
  then have uuid: "ctx_uuid (self_ctx ?Y v) = node_uuid y" by (metis self_node_def self_node_uuid)
  have "\<exists>evs. service_notify ?Y (t ?X) ?req v = (Returns (OK, ()), emit ?Y evs ?v)"
    using known_successor [OF table M uuid] y(1) x(2) hosts nodes
    by (auto simp: service_notify_def Let_def self_predecessor_def self_successor_def
        split: option.split intro: exI [of _ "[]"])
  then obtain evs where evs: "service_notify ?Y (t ?X) ?req v = (Returns (OK, ()), emit ?Y evs ?v)" by blast
  have "client_notify_nodes (network t (Suc d)) ?X y old x v = Some (OK, emit ?Y evs ?v)"
    using y(2) evs by (simp add: client_notify_nodes_def network_stubs deliver_def respond_def)
  moreover have "self_router ?Y ?v = fold (learn (self_ctx ?Y v)) [x, old, x] (self_router ?Y v)"
    by (simp add: router_update_router)
  then have "best_table (self_ctx ?Y v) (M \<union> ({x, old} - {y})) (self_router ?Y ?v)"
    using best_table_fold [OF table, of "[x, old, x]"] nodes(1) by (simp add: insert_commute)
  ultimately show ?thesis by (auto simp: router_update_router intro!: exI [of _ "emit ?Y evs ?v"])
qed

subsection \<open>Joining\<close>

text \<open>A peer about to join: up, fresh, and told the address of a member.\<close>

definition joiner_ok :: "node set \<Rightarrow> node \<Rightarrow> world \<Rightarrow> bool" where
  "joiner_ok N x w =
     (alive w (node_endpoint x) \<and> self_node (node_endpoint x) w = x \<and>
      self_router (node_endpoint x) w = new_router (self_ctx (node_endpoint x) w) \<and>
      ctx_join_addr (self_ctx (node_endpoint x) w) \<in> node_endpoint ` N \<and>
      x \<notin> N \<and> spaced (insert x N))"

text \<open>The server rewrites the host of every node it is told to the one gRPC names as the caller's:
  the rings below stay on one host, and their members advertise it the way gRPC names it
  (\<open>ipv4:ADDRESS:PORT\<close>).\<close>

definition one_host :: "(endpoint \<Rightarrow> string) \<Rightarrow> node set \<Rightarrow> bool" where
  "one_host t N = (\<forall>x\<in>N. \<forall>n\<in>N. same_host (t (node_endpoint x)) n)"

lemma joiner_place:
  assumes "linked w N" "joiner_ok N x w"
  shows "node_uuid x \<notin> node_uuid ` N" "\<And>n. n \<in> N \<Longrightarrow> node_endpoint n \<noteq> node_endpoint x"
proof -
  show "node_uuid x \<notin> node_uuid ` N"
    using spaced_inj [of "insert x N"] assms(2) by (auto simp: joiner_ok_def)
  show "node_endpoint n \<noteq> node_endpoint x" if "n \<in> N" for n
    using that linked_member_facts(2) [OF assms(1)] assms(2) by (metis joiner_ok_def)
qed

lemma join_request_answered:
  assumes st: "linked w N" and x: "joiner_ok N x w" and d: "Suc (card N) < d"
  shows "\<exists>s p. responsible N (node_uuid x) s \<and> preceding N (node_uuid x) p \<and>
    client_join (network t d) (node_endpoint x) (ctx_join_addr (self_ctx (node_endpoint x) w)) w =
      Some (OK, router_update (node_endpoint x) p (router_update (node_endpoint x) s w))"
proof -
  let ?X = "node_endpoint x" and ?u = "node_uuid x"
  let ?req = "\<lparr>jreq_header = Some (make_header (self_ctx ?X w))\<rparr>"
  obtain y where y: "y \<in> N" "ctx_join_addr (self_ctx ?X w) = node_endpoint y"
    using x by (auto simp: joiner_ok_def)
  obtain p where p: "preceding N ?u p" using preceding_exists y(1) by metis
  have "ctx_uuid (self_ctx ?X w) = ?u" using x self_node_uuid [of ?X w] by (simp add: joiner_ok_def)
  then have req: "has_valid_header (jreq_header ?req)" "joining_uuid ?req = ?u"
    by (simp_all add: joining_uuid_def header_entry_def make_header_def entry_of_def has_valid_header_def)
  have near: "card (nearer N ?u y) \<le> card N" using st by (simp add: linked_def card_nearer)
  have depth: "d = card N + 2 + (d - card N - 2)" using d by simp
  obtain q :: node and s where "responsible N ?u s" "stub_join (network t d) ?X (node_endpoint y) ?req w =
      Some ((OK, join_reply (self_ctx (node_endpoint q) w) s p), w)"
    using linked_join_answer [OF st p joiner_place(1) [OF st x] req y(1) near, of t "d - card N - 2" ?X]
    unfolding depth [symmetric] by blast
  then show ?thesis using p y(2) by (auto simp: client_join_def join_reply_def entry_of_def)
qed

text \<open>The new peer and its neighbours know each other afterwards.\<close>

lemma linked_member_table:
  assumes "alive w (node_endpoint y)" "self_node (node_endpoint y) w = y"
    "best_table (self_ctx (node_endpoint y) w) M (self_router (node_endpoint y) w)" "M \<subseteq> N - {y}"
    "\<And>m. next_member N y m \<Longrightarrow> m \<in> M" "\<And>m. last_member N y m \<Longrightarrow> m \<in> M"
  shows "linked_member w N y"
  using assms by (auto simp: linked_member_def)

lemma joined_self:
  assumes st: "linked w N" and x: "joiner_ok N x w" and s: "responsible N (node_uuid x) s" "preceding N (node_uuid x) p"
  defines "w1 \<equiv> router_update (node_endpoint x) p (router_update (node_endpoint x) s w)"
  shows "linked_member w1 (insert x N) x" "self_successor (node_endpoint x) w1 = Some s"
    "self_predecessor (node_endpoint x) w1 = Some p"
proof -
  let ?X = "node_endpoint x" and ?ctx = "self_ctx (node_endpoint x) w"
  have self: "alive w ?X" "self_node ?X w = x" "ctx_node ?ctx = x" "self_router ?X w = new_router ?ctx"
    and space: "spaced (insert x N)" and xN: "x \<notin> N"
    using x by (simp_all add: joiner_ok_def self_node_def)
  have inj: "inj_on node_uuid (insert x N)" using space by (rule spaced_inj)
  have sp: "s \<in> N" "p \<in> N" "s \<noteq> x" "p \<noteq> x" using s xN by (auto simp: responsible_def preceding_def)
  have ends: "next_member (insert x N) x s" "last_member (insert x N) x p"
    using new_next [OF s(1) xN] new_last [OF s(2) xN joiner_place(1) [OF st x]] by blast+
  have "best_table ?ctx {p, s} (self_router ?X w1)"
    using best_table_fold [OF best_table_new, of ?ctx "[s, p]"] self(3,4) sp
    by (simp add: w1_def router_update_router insert_commute)
  then show member: "linked_member w1 (insert x N) x"
  proof (intro linked_member_table)
    show "m \<in> {p, s}" if "next_member (insert x N) x m" for m
      using next_member_unique [OF ends(1) that inj] by simp
    show "m \<in> {p, s}" if "last_member (insert x N) x m" for m
      using last_member_unique [OF ends(2) that inj] by simp
  qed (use self sp in \<open>auto simp: w1_def self_node_def\<close>)
  have "insert x N \<noteq> {x}" using sp by auto
  then obtain s' where s': "self_successor ?X w1 = Some s'" "next_member (insert x N) x s'"
    using member_successor [OF space _ member] by (auto simp: next_member_def split: option.splits)
  then show "self_successor ?X w1 = Some s" using next_member_unique [OF ends(1) s'(2) inj] by simp
  obtain p' where p': "self_predecessor ?X w1 = Some p'" "last_member (insert x N) x p'"
    using member_predecessor [OF _ member] \<open>insert x N \<noteq> {x}\<close> by (auto split: option.splits)
  then show "self_predecessor ?X w1 = Some p" using last_member_unique [OF ends(2) p'(2) inj] by simp
qed

lemma old_member_linked:
  assumes y: "y \<in> N" "x \<notin> N" "inj_on node_uuid (insert x N)"
    and w: "alive w (node_endpoint y)" "self_node (node_endpoint y) w = y"
      "best_table (self_ctx (node_endpoint y) w) M (self_router (node_endpoint y) w)"
    and M: "M \<subseteq> insert x N - {y}" "\<And>m. next_member N y m \<Longrightarrow> m \<in> M" "\<And>m. last_member N y m \<Longrightarrow> m \<in> M"
      "preceding N (node_uuid x) y \<Longrightarrow> x \<in> M" "responsible N (node_uuid x) y \<Longrightarrow> x \<in> M"
  shows "linked_member w (insert x N) y"
proof (rule linked_member_table [OF w M(1)])
  show "m \<in> M" if "next_member (insert x N) y m" for m
  proof (cases "m = x")
    case True
    then show ?thesis using becomes_next [OF _ y] that M(4) by blast
  next
    case False
    then have "next_member N y m" using that by (simp add: next_member_def)
    then show ?thesis by (rule M(2))
  qed
  show "m \<in> M" if "last_member (insert x N) y m" for m
  proof (cases "m = x")
    case True
    then show ?thesis using becomes_last [OF _ y] that M(5) by blast
  next
    case False
    then have "last_member N y m" using that by (simp add: last_member_def)
    then show ?thesis by (rule M(3))
  qed
qed

text \<open>Members that all know their neighbours among themselves, while those in \<open>K\<close> know the
  new peer as well.\<close>

definition meeting :: "world \<Rightarrow> node set \<Rightarrow> node \<Rightarrow> node set \<Rightarrow> bool" where
  "meeting w N x K =
     (\<forall>y\<in>N. alive w (node_endpoint y) \<and> self_node (node_endpoint y) w = y \<and>
       (\<exists>M \<subseteq> insert x N - {y}. best_table (self_ctx (node_endpoint y) w) M (self_router (node_endpoint y) w) \<and>
         (\<forall>m. next_member N y m \<or> last_member N y m \<longrightarrow> m \<in> M) \<and> (y \<in> K \<longrightarrow> x \<in> M)))"

lemma meeting_member:
  assumes "meeting w N x K" "y \<in> N"
  obtains M where "M \<subseteq> insert x N - {y}"
    "best_table (self_ctx (node_endpoint y) w) M (self_router (node_endpoint y) w)"
    "\<And>m. next_member N y m \<Longrightarrow> m \<in> M" "\<And>m. last_member N y m \<Longrightarrow> m \<in> M" "y \<in> K \<Longrightarrow> x \<in> M"
    "alive w (node_endpoint y)" "self_node (node_endpoint y) w = y"
proof -
  note y = bspec [OF assms(1) [unfolded meeting_def] assms(2)]
  then obtain M where M: "M \<subseteq> insert x N - {y}"
    "best_table (self_ctx (node_endpoint y) w) M (self_router (node_endpoint y) w)"
    "\<forall>m. next_member N y m \<or> last_member N y m \<longrightarrow> m \<in> M" "y \<in> K \<longrightarrow> x \<in> M" by (elim conjE exE)
  show thesis using y M(3,4) by (intro that [OF M(1,2)]) simp_all
qed

lemma meeting_start:
  assumes st: "linked w N" and w': "\<And>e. self_ctx e w' = self_ctx e w" "alive w' = alive w"
    "\<And>n. n \<in> N \<Longrightarrow> self_router (node_endpoint n) w' = self_router (node_endpoint n) w"
  shows "meeting w' N x {}"
  unfolding meeting_def
proof
  fix y assume y: "y \<in> N"
  obtain M where "M \<subseteq> N - {y}" "best_table (self_ctx (node_endpoint y) w) M (self_router (node_endpoint y) w)"
    "\<And>m. next_member N y m \<Longrightarrow> m \<in> M" "\<And>m. last_member N y m \<Longrightarrow> m \<in> M"
    using linked_knows [OF st y] by blast
  then show "alive w' (node_endpoint y) \<and> self_node (node_endpoint y) w' = y \<and>
       (\<exists>M \<subseteq> insert x N - {y}. best_table (self_ctx (node_endpoint y) w') M (self_router (node_endpoint y) w') \<and>
         (\<forall>m. next_member N y m \<or> last_member N y m \<longrightarrow> m \<in> M) \<and> (y \<in> {} \<longrightarrow> x \<in> M))"
    using linked_member_facts(1,2) [OF st y] w' y by (intro conjI exI [of _ M]) (auto simp: self_node_def)
qed

lemma meeting_notify:
  assumes m: "meeting v N x K" and x: "x \<notin> N" "self_node (node_endpoint x) v = x" "spaced (insert x N)"
    and hosts: "\<forall>n\<in>insert x N. same_host (t (node_endpoint x)) n" and y: "y \<in> N" "z \<in> N"
  shows "\<exists>v'. client_notify_nodes (network t (Suc d)) (node_endpoint x) y z x v = Some (OK, v') \<and>
    meeting v' N x (insert y K) \<and> (\<forall>e. self_ctx e v' = self_ctx e v) \<and> alive v' = alive v \<and>
    (\<forall>e. e \<noteq> node_endpoint y \<longrightarrow> self_router e v' = self_router e v)"
proof -
  obtain M where M: "M \<subseteq> insert x N - {y}"
    "best_table (self_ctx (node_endpoint y) v) M (self_router (node_endpoint y) v)"
    "\<And>m. next_member N y m \<Longrightarrow> m \<in> M" "\<And>m. last_member N y m \<Longrightarrow> m \<in> M"
    "alive v (node_endpoint y)" "self_node (node_endpoint y) v = y"
    using meeting_member [OF m y(1)] by metis
  have yx: "x \<noteq> y" "y \<in> insert x N" using x(1) y(1) by auto
  obtain v' where v': "client_notify_nodes (network t (Suc d)) (node_endpoint x) y z x v = Some (OK, v')"
    "\<And>e. self_ctx e v' = self_ctx e v" "alive v' = alive v"
    "\<And>e. e \<noteq> node_endpoint y \<Longrightarrow> self_router e v' = self_router e v"
    "best_table (self_ctx (node_endpoint y) v) (M \<union> ({x, z} - {y})) (self_router (node_endpoint y) v')"
    using notify_tells [where d = d, OF M(6,5) x(2) yx(1) M(2,1) x(3) yx(2), of t z] hosts y(2) by blast
  have "\<exists>M \<subseteq> insert x N - {n}. best_table (self_ctx (node_endpoint n) v') M (self_router (node_endpoint n) v') \<and>
      (\<forall>m. next_member N n m \<or> last_member N n m \<longrightarrow> m \<in> M) \<and> (n \<in> insert y K \<longrightarrow> x \<in> M)" if n: "n \<in> N" for n
  proof (cases "n = y")
    case True
    then show ?thesis using v'(2,5) M(1,3,4) yx(1) y(2)
      by (intro exI [of _ "M \<union> ({x, z} - {y})"]) auto
  next
    case False
    obtain L where L: "L \<subseteq> insert x N - {n}"
      "best_table (self_ctx (node_endpoint n) v) L (self_router (node_endpoint n) v)"
      "\<And>m. next_member N n m \<Longrightarrow> m \<in> L" "\<And>m. last_member N n m \<Longrightarrow> m \<in> L" "n \<in> K \<Longrightarrow> x \<in> L"
      "self_node (node_endpoint n) v = n"
      using meeting_member [OF m n] by metis
    then have "node_endpoint n \<noteq> node_endpoint y" using M(6) False by metis
    then show ?thesis using v'(2,4) L False by (intro exI [of _ L]) auto
  qed
  then have "meeting v' N x (insert y K)" using m v'(2,3) by (simp add: meeting_def self_node_def)
  then show ?thesis using v' by blast
qed

lemma meeting_linked:
  assumes m: "meeting w N x K" and near: "responsible N (node_uuid x) s" "preceding N (node_uuid x) p" "s \<in> K" "p \<in> K"
    and x: "x \<notin> N" "spaced (insert x N)" and y: "y \<in> N"
  shows "linked_member w (insert x N) y"
proof -
  have inj: "inj_on node_uuid (insert x N)" using spaced_inj [OF x(2)] .
  then have injN: "inj_on node_uuid N" by (rule inj_on_subset) blast
  obtain M where M: "M \<subseteq> insert x N - {y}"
    "best_table (self_ctx (node_endpoint y) w) M (self_router (node_endpoint y) w)"
    "\<And>m. next_member N y m \<Longrightarrow> m \<in> M" "\<And>m. last_member N y m \<Longrightarrow> m \<in> M" "y \<in> K \<Longrightarrow> x \<in> M"
    "alive w (node_endpoint y)" "self_node (node_endpoint y) w = y"
    using meeting_member [OF m y] by metis
  then show ?thesis
    using preceding_unique [OF near(2) _ injN] responsible_unique [OF near(1) _ injN] near(3,4)
    by (intro old_member_linked [OF y x(1) inj, of w M]) auto
qed

lemma linked_join:
  assumes st: "linked w N" and x: "joiner_ok N x w" and host: "one_host t (insert x N)" and d: "Suc (card N) < d"
  shows "\<exists>w'. facade_join (network t d) (node_endpoint x) w = Some (Returns (), w') \<and>
    linked w' (insert x N) \<and> (\<forall>e. self_ctx e w' = self_ctx e w) \<and> alive w' = alive w \<and>
    (\<forall>e. e \<notin> node_endpoint ` insert x N \<longrightarrow> self_router e w' = self_router e w)"
proof -
  let ?X = "node_endpoint x" and ?S = "insert x N" and ?N = "network t d"
  obtain d' where d': "d = Suc d'" using d by (cases d) auto
  obtain s p where near: "responsible N (node_uuid x) s" "preceding N (node_uuid x) p"
    and joins: "client_join ?N ?X (ctx_join_addr (self_ctx ?X w)) w =
      Some (OK, router_update ?X p (router_update ?X s w))"
    using join_request_answered [OF st x d] by blast
  define w1 where "w1 = router_update ?X p (router_update ?X s w)"
  note own = joined_self [OF st x near, folded w1_def]
  have w1: "self_ctx e w1 = self_ctx e w" "alive w1 = alive w" "e \<noteq> ?X \<Longrightarrow> self_router e w1 = self_router e w" for e
    by (simp_all add: w1_def router_update_router)
  have sp: "s \<in> N" "p \<in> N" using near by (auto simp: responsible_def preceding_def)
  have xN: "x \<notin> N" "spaced ?S" "self_node ?X w = x" and hosts: "\<forall>n\<in>?S. same_host (t ?X) n"
    using x host by (auto simp: joiner_ok_def one_host_def)
  have self1: "self_node ?X w1 = x" using xN(3) w1(1) by (simp add: self_node_def)
  have ends: "node_endpoint n \<noteq> ?X" if "n \<in> N" for n using joiner_place(2) [OF st x that] .
  have m1: "meeting w1 N x {}" using meeting_start [OF st w1(1,2)] w1(3) ends by blast
  obtain w2 where w2: "client_notify_nodes ?N ?X p s x w1 = Some (OK, w2)" "meeting w2 N x {p}"
    "\<And>e. self_ctx e w2 = self_ctx e w" "alive w2 = alive w"
    "\<And>e. e \<noteq> node_endpoint p \<Longrightarrow> self_router e w2 = self_router e w1"
    using meeting_notify [where t = t and d = d', OF m1 xN(1) self1 xN(2) hosts sp(2,1)] w1 unfolding d' by auto
  have self2: "self_node ?X w2 = x" using self1 w2(3) w1(1) by (simp add: self_node_def)
  obtain w3 where w3: "client_notify_nodes ?N ?X s p x w2 = Some (OK, w3)" "meeting w3 N x {s, p}"
    "\<And>e. self_ctx e w3 = self_ctx e w" "alive w3 = alive w"
    "\<And>e. e \<noteq> node_endpoint s \<Longrightarrow> self_router e w3 = self_router e w2"
    using meeting_notify [where t = t and d = d', OF w2(2) xN(1) self2 xN(2) hosts sp] w2(3,4) unfolding d' by auto
  let ?w = "emit ?X [On_join s] w3"
  have routers: "self_router ?X w2 = self_router ?X w1" "self_router ?X w3 = self_router ?X w1"
    "\<And>e. e \<notin> node_endpoint ` ?S \<Longrightarrow> self_router e w3 = self_router e w"
    using w1(3) w2(5) w3(5) ends sp by (metis, metis, metis image_eqI insert_iff)
  have "facade_join ?N ?X w = Some (Returns (), ?w)"
    using joins own(2,3) routers(1,2) w2(1,3) w3(1) w1(1) xN(3)
    by (simp add: facade_join_def self_successor_def self_predecessor_def self_node_def flip: w1_def)
  moreover have "linked_member ?w ?S x"
    using own(1) routers(2) w3(3,4) w1(1,2) by (simp add: linked_member_def self_node_def)
  moreover have "meeting ?w N x {s, p}" using w3(2) by (simp add: meeting_def self_node_def)
  then have "linked_member ?w ?S y" if "y \<in> N" for y using meeting_linked [OF _ near _ _ xN(1,2) that] by simp
  ultimately show ?thesis using w3(3,4) routers(3) xN(2) st
    by (intro exI [of _ ?w]) (auto simp: linked_def)
qed

subsection \<open>Starting a ring\<close>

text \<open>\<open>start\<close> also hands the tasks to the scheduler; here they are left out.\<close>

definition start_peer :: "stubs \<Rightarrow> endpoint \<Rightarrow> (world, unit) run" where
  "start_peer N e w = map_option (\<lambda>((r, tasks), w). (r, w)) (facade_start N e w)"

text \<open>The peers of a list join one after another, each through one that is there.\<close>

fun joiners_ok :: "world \<Rightarrow> node set \<Rightarrow> node list \<Rightarrow> bool" where
  "joiners_ok w N [] = True"
| "joiners_ok w N (x # xs) =
     (joiner_ok N x w \<and> \<not> ctx_bootstrap (self_ctx (node_endpoint x) w) \<and> joiners_ok w (insert x N) xs)"

definition launch_ok :: "world \<Rightarrow> node \<Rightarrow> node list \<Rightarrow> bool" where
  "launch_ok w a xs =
     (alive w (node_endpoint a) \<and> self_node (node_endpoint a) w = a \<and>
      ctx_bootstrap (self_ctx (node_endpoint a) w) \<and> joiners_ok w {a} xs)"

lemma joiners_ok_fresh: "joiners_ok w N xs \<Longrightarrow> x \<in> set xs \<Longrightarrow> x \<notin> N \<and> self_node (node_endpoint x) w = x"
  by (induction w N xs rule: joiners_ok.induct) (auto simp: joiner_ok_def)

lemma joiners_ok_cong:
  assumes "\<And>e. self_ctx e w' = self_ctx e w" "alive w' = alive w"
    and "\<And>x. x \<in> set xs \<Longrightarrow> self_router (node_endpoint x) w' = self_router (node_endpoint x) w"
  shows "joiners_ok w' N xs = joiners_ok w N xs"
  using assms(3) by (induction xs arbitrary: N) (simp_all add: joiner_ok_def self_node_def assms(1,2))

lemma joiners_start:
  "linked w N \<Longrightarrow> joiners_ok w N xs \<Longrightarrow> one_host t (N \<union> set xs) \<Longrightarrow> card N + length xs < d \<Longrightarrow>
   \<exists>w'. for_each xs (\<lambda>x. start_peer (network t d) (node_endpoint x)) w = Some (Returns (), w') \<and>
     linked w' (N \<union> set xs)"
proof (induction xs arbitrary: w N)
  case Nil
  then show ?case by (simp add: ret_def)
next
  case (Cons x xs)
  have x: "joiner_ok N x w" "\<not> ctx_bootstrap (self_ctx (node_endpoint x) w)" "joiners_ok w (insert x N) xs"
    using Cons.prems(2) by simp_all
  obtain v where v: "facade_join (network t d) (node_endpoint x) w = Some (Returns (), v)" "linked v (insert x N)"
    "\<And>e. self_ctx e v = self_ctx e w" "alive v = alive w"
    "\<And>e. e \<notin> node_endpoint ` insert x N \<Longrightarrow> self_router e v = self_router e w"
    using linked_join [where t = t and d = d, OF Cons.prems(1) x(1)] Cons.prems(3,4) by (auto simp: one_host_def)
  have start: "start_peer (network t d) (node_endpoint x) w = Some (Returns (), v)"
    using x(2) v(1) by (simp add: start_peer_def facade_start_def)
  have "node_endpoint z \<notin> node_endpoint ` insert x N" if "z \<in> set xs" for z
  proof
    have z: "z \<notin> insert x N" "self_node (node_endpoint z) w = z" using joiners_ok_fresh [OF x(3) that] by blast+
    assume "node_endpoint z \<in> node_endpoint ` insert x N"
    then obtain n where n: "n \<in> insert x N" "node_endpoint z = node_endpoint n" by blast
    then have "self_node (node_endpoint n) w = n"
      using linked_member_facts(2) [OF v(2) n(1)] v(3) by (simp add: self_node_def)
    then show False using z n by metis
  qed
  then have "joiners_ok v (insert x N) xs" using joiners_ok_cong [OF v(3,4)] x(3) v(5) by metis
  moreover have "card (insert x N) + length xs < d"
    using card_insert_le_m1 Cons.prems(1,4) x(1) by (simp add: linked_def joiner_ok_def)
  ultimately obtain w' where "for_each xs (\<lambda>x. start_peer (network t d) (node_endpoint x)) v = Some (Returns (), w')"
    "linked w' (insert x N \<union> set xs)"
    using Cons.IH [OF v(2)] Cons.prems(3) by auto
  then show ?case using start by (auto simp: bnd_def)
qed

lemma ring_starts:
  assumes ok: "launch_ok w a xs" and host: "one_host t (set (a # xs))" and d: "Suc (length xs) < d"
  shows "\<exists>w'. for_each (a # xs) (\<lambda>x. start_peer (network t d) (node_endpoint x)) w = Some (Returns (), w') \<and>
    linked w' (set (a # xs))"
proof -
  let ?A = "node_endpoint a" and ?v = "router_clear (node_endpoint a) w"
  have a: "alive w ?A" "self_node ?A w = a" "ctx_bootstrap (self_ctx ?A w)" "joiners_ok w {a} xs"
    using ok by (simp_all add: launch_ok_def)
  have start: "start_peer (network t d) ?A w = Some (Returns (), ?v)"
    using a(3) by (simp add: start_peer_def facade_start_def facade_create_def Let_def)
  have "best_table (self_ctx ?A ?v) {} (self_router ?A ?v)" by (simp add: router_clear_router best_table_new)
  then have "linked_member ?v {a} a"
    using a(1,2) by (auto simp: linked_member_def self_node_def next_member_def last_member_def)
  then have "linked ?v {a}" by (simp add: linked_def spaced_def)
  moreover have "node_endpoint x \<noteq> ?A" if "x \<in> set xs" for x
    using joiners_ok_fresh [OF a(4) that] a(2) by auto
  then have "joiners_ok ?v {a} xs"
    using a(4) joiners_ok_cong [of ?v w xs "{a}"] by (simp add: router_clear_router)
  ultimately obtain w' where
    "for_each xs (\<lambda>x. start_peer (network t d) (node_endpoint x)) ?v = Some (Returns (), w')" "linked w' ({a} \<union> set xs)"
    using joiners_start [of ?v "{a}" xs t d] host d by auto
  then show ?thesis using start by (auto simp: bnd_def)
qed

end
