(* ===== verification/Handlers.thy ===== *)
theory Handlers
  imports Protocol
begin

text \<open>
  What single handlers of the ring service do to the table of the peer that runs them:
  leaving, and the notifications that have no defined behaviour.
\<close>

lemma router_nodes_learn: "router_nodes (learn ctx n r) \<subseteq> insert n (router_nodes r)"
proof (cases "n = ctx_node ctx")
  case False
  have "ent_node (update_entry ctx n e) = Some m \<Longrightarrow> m = n \<or> ent_node e = Some m" for e m
    by (auto simp: update_entry_def split: if_splits)
  then show ?thesis using False
    by (fastforce simp: router_nodes_def learn_eq set_entry_nodes split: if_splits)
qed auto

lemma fold_update_router:
  "self_router me (fold (\<lambda>e. router_update me (f e)) es w) =
     fold (\<lambda>e. learn (self_ctx me w) (f e)) es (self_router me w)"
  by (induction es arbitrary: w) (simp_all add: router_update_router)

lemma router_nodes_fold: "router_nodes (fold (\<lambda>e. learn ctx (f e)) es r) \<subseteq> f ` set es \<union> router_nodes r"
proof (induction es arbitrary: r)
  case (Cons e es)
  have "router_nodes (fold (\<lambda>e. learn ctx (f e)) es (learn ctx (f e) r)) \<subseteq>
      f ` set es \<union> router_nodes (learn ctx (f e) r)" by (rule Cons.IH)
  also have "\<dots> \<subseteq> f ` set (e # es) \<union> router_nodes r" using router_nodes_learn [of ctx "f e" r] by auto
  finally show ?case by simp
qed simp

lemma service_leave_router:
  assumes "has_valid_header (lreq_header req)"
  shows "self_router me (snd (service_leave me addr req w)) =
    fold (\<lambda>e. learn (self_ctx me w) (make_node_peer addr e)) (lreq_entries req)
      (fst (snd (remove (self_ctx me w) (node_uuid (source_of (lreq_header req))) False (self_router me w))))"
  using assms
  by (simp add: service_leave_def Let_def fold_update_router router_remove_router)

lemma service_leave_nodes:
  assumes "has_valid_header (lreq_header req)" "source_of (lreq_header req) = n"
    and "router_wf (self_ctx me w) (self_router me w)" "node_uuid n \<noteq> ctx_uuid (self_ctx me w)"
  shows "router_nodes (self_router me (snd (service_leave me addr req w))) \<subseteq>
    make_node_peer addr ` set (lreq_entries req) \<union>
    {m \<in> router_nodes (self_router me w). node_uuid m \<noteq> node_uuid n}"
proof -
  let ?r = "fst (snd (remove (self_ctx me w) (node_uuid n) False (self_router me w)))"
  have "router_nodes ?r \<subseteq> {m \<in> router_nodes (self_router me w). node_uuid m \<noteq> node_uuid n}"
    using remove_clears [OF assms(4)] remove_no_new [OF router_wf_fields(4) [OF assms(3)]] by blast
  then show ?thesis
    using router_nodes_fold [of "self_ctx me w" "make_node_peer addr" "lreq_entries req" ?r] assms(1,2)
    by (auto simp: service_leave_router)
qed

text \<open>A node that sits exactly at the start of the first finger becomes predecessor, but never
  successor.\<close>

lemma learn_adjacent:
  assumes "node_uuid p = start (ctx_uuid ctx) 0"
  shows "router_successor (learn ctx p (new_router ctx)) = None"
    and "router_predecessor (learn ctx p (new_router ctx)) = Some p"
proof -
  have pn: "p \<noteq> ctx_node ctx" using assms start_not_self [of 0 "ctx_uuid ctx"] by (auto simp: ctx_node_def)
  have table: "best_table ctx {p} (learn ctx p (new_router ctx))"
    using best_table_learn [OF best_table_new pn] .
  then have starts: "starts_ok (ctx_uuid ctx) (successors (learn ctx p (new_router ctx)))"
    by (simp add: best_table_def)
  let ?e = "successors (learn ctx p (new_router ctx)) ! 0"
  have e: "?e \<in> set (successors (learn ctx p (new_router ctx)))" "ent_uuid ?e = start (ctx_uuid ctx) 0"
    using starts_length [OF starts] starts_nth [OF starts] by simp_all
  then have best: "best_finger (ctx_uuid ctx) (start (ctx_uuid ctx) 0) {p}
      (router_successor (learn ctx p (new_router ctx)))"
    using table unfolding best_table_def router_successor_def by metis
  then show "router_successor (learn ctx p (new_router ctx)) = None"
    using assms by (auto simp: best_finger_def split: option.splits)
  show "router_predecessor (learn ctx p (new_router ctx)) = Some p"
    using table by (auto simp: best_table_def best_predecessor_def split: option.splits)
qed

lemma service_notify_undefined_iff:
  "fst (service_notify me addr req w) = Undefined \<longleftrightarrow>
     has_valid_header (nreq_header req) \<and> source_of (nreq_header req) \<noteq> self_node me w \<and>
     self_successor me w = None \<and>
     (\<exists>p. self_predecessor me w = Some p \<and> p \<noteq> source_of (nreq_header req))"
  by (auto simp: service_notify_def Let_def split: option.split if_split)

end
