(* ===== verification/Text.thy ===== *)
theory Text
  imports Prelude
begin

text \<open>
  The conversions between numbers and text of the C++ standard library the program uses:
  \<open>std::to_string\<close>, \<open>strtoul\<close> with base 0, \<open>strtol\<close> with base 16, \<open>std::stoi\<close>, and the
  character classes of the C locale.
\<close>

definition digit_char :: "nat \<Rightarrow> char" where
  "digit_char d = char_of (48 + d)"

fun show_nat :: "nat \<Rightarrow> string" where
  "show_nat n = (if n < 10 then [digit_char n] else show_nat (n div 10) @ [digit_char (n mod 10)])"

declare show_nat.simps [simp del]

definition char_code :: "char \<Rightarrow> nat" where
  "char_code c = of_char c"

definition is_digit :: "char \<Rightarrow> bool" where
  "is_digit c = (48 \<le> char_code c \<and> char_code c \<le> 57)"

definition is_upper :: "char \<Rightarrow> bool" where
  "is_upper c = (65 \<le> char_code c \<and> char_code c \<le> 90)"

definition is_lower :: "char \<Rightarrow> bool" where
  "is_lower c = (97 \<le> char_code c \<and> char_code c \<le> 122)"

definition is_alnum :: "char \<Rightarrow> bool" where
  "is_alnum c = (is_digit c \<or> is_upper c \<or> is_lower c)"

definition is_space :: "char \<Rightarrow> bool" where
  "is_space c = (char_code c = 32 \<or> 9 \<le> char_code c \<and> char_code c \<le> 13)"

text \<open>The value of a character as a digit, in any base up to 36.\<close>

definition digit_value :: "char \<Rightarrow> nat option" where
  "digit_value c =
     (if is_digit c then Some (char_code c - 48)
      else if is_upper c then Some (char_code c - 55)
      else if is_lower c then Some (char_code c - 87)
      else None)"

definition digit_ok :: "nat \<Rightarrow> char \<Rightarrow> bool" where
  "digit_ok base c = (case digit_value c of Some d \<Rightarrow> d < base | None \<Rightarrow> False)"

definition digits_value :: "nat \<Rightarrow> string \<Rightarrow> nat" where
  "digits_value base ds = fold (\<lambda>c n. n * base + (case digit_value c of Some d \<Rightarrow> d | None \<Rightarrow> 0)) ds 0"

text \<open>The longest prefix of digits; a C string ends at the first NUL.\<close>

definition read_digits :: "nat \<Rightarrow> string \<Rightarrow> nat" where
  "read_digits base s = digits_value base (takeWhile (digit_ok base) s)"

definition has_hex_prefix :: "string \<Rightarrow> bool" where
  "has_hex_prefix s =
     (case s of z # x # d # _ \<Rightarrow> z = CHR ''0'' \<and> (x = CHR ''x'' \<or> x = CHR ''X'') \<and> digit_ok 16 d
      | _ \<Rightarrow> False)"

definition read_sign :: "string \<Rightarrow> bool \<times> string" where
  "read_sign s =
     (case dropWhile is_space s of
        [] \<Rightarrow> (False, [])
      | c # cs \<Rightarrow> if c = CHR ''-'' then (True, cs) else if c = CHR ''+'' then (False, cs)
          else (False, c # cs))"

definition strtoul0 :: "string \<Rightarrow> 64 word" where
  "strtoul0 s =
     (let (negative, t) = read_sign s;
          n = (if has_hex_prefix t then read_digits 16 (drop 2 t)
               else if t \<noteq> [] \<and> hd t = CHR ''0'' then read_digits 8 t
               else read_digits 10 t)
      in if 2 ^ 64 \<le> n then - 1 else if negative then - of_nat n else of_nat n)"

definition strtol16 :: "string \<Rightarrow> int" where
  "strtol16 s =
     (let (negative, t) = read_sign s;
          n = int (if has_hex_prefix t then read_digits 16 (drop 2 t) else read_digits 16 t)
      in if negative then - n else n)"

text \<open>\<open>std::stoi\<close> on a non-empty text of decimal digits; \<open>None\<close> is \<open>std::out_of_range\<close>.\<close>

definition stoi_digits :: "string \<Rightarrow> int option" where
  "stoi_digits s = (let n = read_digits 10 s in if n < 2 ^ 31 then Some (int n) else None)"

subsection \<open>Round trip\<close>

lemma digit_char_value: "d < 10 \<Longrightarrow> digit_value (digit_char d) = Some d"
  by (simp add: digit_value_def digit_char_def is_digit_def char_code_def)

lemma digit_char_ok: "d < 10 \<Longrightarrow> d < base \<Longrightarrow> digit_ok base (digit_char d)"
  by (simp add: digit_ok_def digit_char_value)

lemma digit_char_digit: "d < 10 \<Longrightarrow> is_digit (digit_char d)"
  by (simp add: digit_char_def is_digit_def char_code_def)

lemma zero_char [simp]: "digit_char 0 = CHR ''0''"
  using char_of_char [where ?'a = nat, of "CHR ''0''"] by (simp add: digit_char_def)

lemma show_nat_nonempty [simp]: "show_nat n \<noteq> []"
  by (subst show_nat.simps) simp

lemma show_nat_digits: "list_all is_digit (show_nat n)"
proof (induction n rule: show_nat.induct)
  case (1 n)
  then show ?case
    by (subst show_nat.simps) (simp add: digit_char_digit)
qed

lemma show_nat_ok: "list_all (digit_ok 10) (show_nat n)"
proof (induction n rule: show_nat.induct)
  case (1 n)
  then show ?case by (subst show_nat.simps) (simp add: digit_char_ok)
qed

lemma digits_value_snoc:
  "digits_value base (s @ [c]) =
     digits_value base s * base + (case digit_value c of Some d \<Rightarrow> d | None \<Rightarrow> 0)"
  by (simp add: digits_value_def)

lemma digits_value_show: "digits_value 10 (show_nat n) = n"
proof (induction n rule: show_nat.induct)
  case (1 n)
  show ?case
  proof (cases "n < 10")
    case True
    then show ?thesis
      by (subst show_nat.simps) (simp add: digits_value_def digit_char_value)
  next
    case False
    then show ?thesis using 1
      by (subst show_nat.simps) (simp add: digits_value_snoc digit_char_value)
  qed
qed

lemma read_digits_show [simp]: "read_digits 10 (show_nat n) = n"
proof -
  have "takeWhile (digit_ok 10) (show_nat n) = show_nat n"
    using show_nat_ok [of n] by (simp add: takeWhile_eq_all_conv list_all_iff)
  then show ?thesis by (simp only: read_digits_def digits_value_show)
qed

lemma show_nat_hd_zero: "hd (show_nat n) = CHR ''0'' \<longleftrightarrow> n = 0"
proof (induction n rule: show_nat.induct)
  case (1 n)
  show ?case
  proof (cases "n < 10")
    case True
    have "digit_value (digit_char n) = digit_value CHR ''0'' \<longleftrightarrow> n = 0"
      using True by (simp add: digit_char_value) (simp add: digit_value_def is_digit_def char_code_def)
    then have "digit_char n = CHR ''0'' \<longleftrightarrow> n = 0" by (metis zero_char)
    then show ?thesis using True by (subst show_nat.simps) simp
  next
    case False
    then show ?thesis using 1 by (subst show_nat.simps) simp
  qed
qed

lemma digit_not_space: "is_digit c \<Longrightarrow> \<not> is_space c \<and> c \<noteq> CHR ''-'' \<and> c \<noteq> CHR ''+''"
  by (auto simp: is_digit_def is_space_def char_code_def)

lemma read_sign_show [simp]: "read_sign (show_nat n) = (False, show_nat n)"
  using show_nat_digits [of n] digit_not_space show_nat_nonempty [of n]
  by (cases "show_nat n") (auto simp: read_sign_def)

lemma show_nat_0 [simp]: "show_nat 0 = ''0''"
  by (subst show_nat.simps) simp

lemma show_nat_1 [simp]: "show_nat (Suc 0) = ''1''"
  using char_of_char [where ?'a = nat, of "CHR ''1''"]
  by (subst show_nat.simps) (simp add: digit_char_def)

lemma no_hex_prefix_show: "\<not> has_hex_prefix (show_nat n)"
proof
  assume "has_hex_prefix (show_nat n)"
  then have "hd (show_nat n) = CHR ''0''" "length (show_nat n) > 1"
    by (auto simp: has_hex_prefix_def split: list.splits)
  then show False using show_nat_hd_zero [of n] by simp
qed

lemma strtoul0_show: "n < 2 ^ 64 \<Longrightarrow> strtoul0 (show_nat n) = of_nat n"
proof (cases "n = 0")
  case True
  then show ?thesis
    by (simp add: strtoul0_def read_sign_def is_space_def char_code_def has_hex_prefix_def
        read_digits_def digits_value_def digit_ok_def digit_value_def is_digit_def)
next
  case False
  assume "n < 2 ^ 64"
  then show ?thesis
    using False by (simp add: strtoul0_def no_hex_prefix_show show_nat_hd_zero)
qed

end
