(* ===== verification/Replication.thy ===== *)
theory Replication
  imports Text
begin

text \<open>
  How often a file is kept and which copy this is (\<open>include/chord.fs.replication.h\<close>,
  \<open>src/chord.fs.replication.cc\<close>): two counters of 32 bits whose increment wraps around.
\<close>

record replication =
  repl_index :: "32 word"
  repl_count :: "32 word"

definition MAX_REPL_CNT :: nat where
  "MAX_REPL_CNT = 10"

definition new_replication :: "32 word \<Rightarrow> 32 word \<Rightarrow> replication" where
  "new_replication i c = \<lparr>repl_index = i, repl_count = c\<rparr>"

definition replication_of_count :: "32 word \<Rightarrow> replication" where
  "replication_of_count c = \<lparr>repl_index = 0, repl_count = c\<rparr>"

definition NONE :: replication where
  "NONE = \<lparr>repl_index = 0, repl_count = 1\<rparr>"

definition ALL_REPL :: replication where
  "ALL_REPL = replication_of_count (- 1)"

definition next_copy :: "replication \<Rightarrow> replication" where
  "next_copy r = r\<lparr>repl_index := repl_index r + 1\<rparr>"

definition previous_copy :: "replication \<Rightarrow> replication" where
  "previous_copy r = (if repl_index r > 0 then r\<lparr>repl_index := repl_index r - 1\<rparr> else r)"

definition repl_less :: "replication \<Rightarrow> replication \<Rightarrow> bool" where
  "repl_less a b = (repl_count a < repl_count b)"

definition has_next :: "replication \<Rightarrow> bool" where
  "has_next r = (repl_index r + 1 < repl_count r)"

text \<open>\<open>operator bool\<close>\<close>

definition replicated :: "replication \<Rightarrow> bool" where
  "replicated r = (repl_index r < repl_count r \<and> repl_count r > 1)"

definition repl_string :: "replication \<Rightarrow> string" where
  "repl_string r =
     ''['' @ show_nat (unat (repl_index r)) @ '' of '' @ show_nat (unat (repl_count r)) @ '']''"

subsection \<open>The chain of copies\<close>

text \<open>The copies a chain of \<open>++\<close> produces while the result is replicated, starting after \<open>r\<close>.\<close>

fun copies :: "nat \<Rightarrow> replication \<Rightarrow> replication list" where
  "copies 0 r = []"
| "copies (Suc n) r =
     (if replicated (next_copy r) then next_copy r # copies n (next_copy r) else [])"

lemma next_copy_index:
  "repl_index r < repl_count r \<Longrightarrow> unat (repl_index (next_copy r)) = unat (repl_index r) + 1"
proof -
  assume "repl_index r < repl_count r"
  then have "repl_index r \<noteq> - 1" using word_n1_ge [of "repl_count r"] by auto
  then have "repl_index r + 1 \<noteq> 0" by (metis add.commute add_eq_0_iff)
  then show ?thesis by (simp add: next_copy_def unatSuc add.commute)
qed

lemma next_copy_count [simp]: "repl_count (next_copy r) = repl_count r"
  by (simp add: next_copy_def)

lemma replicated_next_iff:
  "repl_index r < repl_count r \<Longrightarrow> repl_count r > 1 \<Longrightarrow>
   replicated (next_copy r) \<longleftrightarrow> has_next r"
  by (simp add: replicated_def has_next_def next_copy_def)

lemma has_next_iff:
  "repl_index r < repl_count r \<Longrightarrow> has_next r \<longleftrightarrow> unat (repl_index r) + 1 < unat (repl_count r)"
  using next_copy_index [of r] by (simp add: has_next_def next_copy_def word_less_nat_alt)

lemma copies_length:
  "repl_index r < repl_count r \<Longrightarrow> repl_count r > 1 \<Longrightarrow> unat (repl_count r) \<le> n + unat (repl_index r) + 1 \<Longrightarrow>
   length (copies n r) = unat (repl_count r) - unat (repl_index r) - 1"
proof (induction n arbitrary: r)
  case 0
  then show ?case by simp
next
  case (Suc n)
  show ?case
  proof (cases "has_next r")
    case True
    have nxt: "repl_index (next_copy r) < repl_count (next_copy r)"
      using True by (simp add: has_next_def next_copy_def)
    have "length (copies n (next_copy r)) =
        unat (repl_count r) - unat (repl_index (next_copy r)) - 1"
      using Suc.IH [of "next_copy r"] nxt Suc.prems next_copy_index [OF Suc.prems(1)] by simp
    then show ?thesis
      using True Suc.prems replicated_next_iff [of r] next_copy_index [of r] has_next_iff [of r]
      by simp
  next
    case False
    then show ?thesis
      using Suc.prems replicated_next_iff [of r] has_next_iff [of r] by simp
  qed
qed

lemma previous_next: "repl_index r < repl_count r \<Longrightarrow> previous_copy (next_copy r) = r"
proof -
  assume "repl_index r < repl_count r"
  then have "unat (repl_index (next_copy r)) > 0" by (simp add: next_copy_index)
  then have "repl_index (next_copy r) > 0" by (simp add: word_less_nat_alt)
  then show ?thesis by (simp add: previous_copy_def next_copy_def)
qed

end
