(* ===== verification/Uri.thy ===== *)
theory Uri
  imports Path Text
begin

text \<open>
  Uniform resource identifiers (\<open>include/chord.uri.h\<close>, \<open>src/chord.uri.cc\<close>).  The regular
  expressions of the parser are written out as the splits they perform: each is a sequence
  of negated character classes, so the longest match is the only one, except for the
  authority, whose greedy groups are searched from the longest.  A parse fails with an
  exception of the program (\<open>Inl Uri_syntax\<close>, \<open>Inl Uri_incomplete\<close>) or of \<open>std::stoi\<close>.
\<close>

datatype uri_error = Uri_syntax | Uri_incomplete | Uri_port_range

record authority =
  auth_host :: string
  auth_user :: string
  auth_password :: string
  auth_port :: "int option"

record uri =
  uri_authority :: "authority option"
  uri_query :: "(string \<times> string) list"
  uri_scheme :: string
  uri_fragment :: string
  uri_path :: path

record uri_builder =
  b_query :: "(string \<times> string) list"
  b_scheme :: string
  b_fragment :: string
  b_user :: string
  b_password :: string
  b_host :: string
  b_path :: path
  b_port :: "int option"

subsection \<open>Builder\<close>

definition new_uri :: "string \<Rightarrow> path \<Rightarrow> uri" where
  "new_uri scheme p =
     \<lparr>uri_authority = None, uri_query = [], uri_scheme = scheme, uri_fragment = [],
      uri_path = canonical p\<rparr>"

definition new_builder :: uri_builder where
  "new_builder =
     \<lparr>b_query = [], b_scheme = [], b_fragment = [], b_user = [], b_password = [], b_host = [],
      b_path = [], b_port = None\<rparr>"

definition builder_of :: "string \<Rightarrow> path \<Rightarrow> uri_builder" where
  "builder_of scheme p = new_builder\<lparr>b_scheme := scheme, b_path := p\<rparr>"

definition append_path :: "path \<Rightarrow> uri_builder \<Rightarrow> uri_builder" where
  "append_path p b = b\<lparr>b_path := path_append (b_path b) p\<rparr>"

definition add_query :: "string \<Rightarrow> string \<Rightarrow> uri_builder \<Rightarrow> uri_builder" where
  "add_query k v b = b\<lparr>b_query := omap_put k v (b_query b)\<rparr>"

definition build :: "uri_builder \<Rightarrow> uri_error + uri" where
  "build b =
     (if b_scheme b = [] \<or> b_path b = [] then Inl Uri_incomplete
      else Inr ((new_uri (b_scheme b) (b_path b))
        \<lparr>uri_authority :=
           (if b_host b = [] then None
            else Some \<lparr>auth_host = b_host b, auth_user = b_user b, auth_password = b_password b,
                       auth_port = b_port b\<rparr>),
         uri_query := b_query b, uri_fragment := b_fragment b\<rparr>))"

subsection \<open>Parsing\<close>

definition no_newline :: "string \<Rightarrow> bool" where
  "no_newline s = list_all (\<lambda>c. char_code c \<noteq> 10 \<and> char_code c \<noteq> 13) s"

definition split_scheme :: "string \<Rightarrow> string \<times> string" where
  "split_scheme s =
     (let run = takeWhile (\<lambda>c. c \<notin> set '':/?#'') s; rest = drop (length run) s
      in if run \<noteq> [] \<and> rest \<noteq> [] \<and> hd rest = CHR '':'' then (run, tl rest) else ([], s))"

definition split_authority :: "string \<Rightarrow> string \<times> string" where
  "split_authority s =
     (if take 2 s = ''//''
      then (takeWhile (\<lambda>c. c \<notin> set ''/?#'') (drop 2 s), dropWhile (\<lambda>c. c \<notin> set ''/?#'') (drop 2 s))
      else ([], s))"

definition split_path :: "string \<Rightarrow> string \<times> string" where
  "split_path s = (takeWhile (\<lambda>c. c \<notin> set ''?#'') s, dropWhile (\<lambda>c. c \<notin> set ''?#'') s)"

definition split_query :: "string \<Rightarrow> string \<times> string" where
  "split_query s = (takeWhile (\<lambda>c. c \<noteq> CHR ''#'') s, dropWhile (\<lambda>c. c \<noteq> CHR ''#'') s)"

text \<open>The end of an authority: a host without colon, then a colon and digits if anything.\<close>

definition host_port :: "string \<Rightarrow> (string \<times> string) option" where
  "host_port s =
     (let h = takeWhile (\<lambda>c. c \<noteq> CHR '':'') s; t = drop (length h) s
      in if t = [] then Some (h, [])
         else if list_all is_digit (tl t) then Some (h, tl t) else None)"

definition auth_splits :: "string \<Rightarrow> (string \<times> string \<times> string \<times> string) list" where
  "auth_splits a =
     [(take i a, drop (Suc i) (take j a), fst hp, snd hp).
       i \<leftarrow> rev [0..<length a], a ! i = CHR '':'',
       j \<leftarrow> rev [Suc i..<length a], a ! j = CHR ''@'',
       no_newline (take i a) \<and> no_newline (drop (Suc i) (take j a)),
       hp \<leftarrow> (case host_port (drop (Suc j) a) of None \<Rightarrow> [] | Some hp \<Rightarrow> [hp])]"

text \<open>The pieces between \<open>?\<close> and \<open>&\<close>, and for each piece with a \<open>=\<close> the text before and after
  the last one.\<close>

fun query_pieces :: "string \<Rightarrow> string list" where
  "query_pieces [] = [[]]"
| "query_pieces (c # cs) =
     (if c = CHR ''?'' \<or> c = CHR ''&'' then [] # query_pieces cs
      else (case query_pieces cs of [] \<Rightarrow> [[c]] | s # ss \<Rightarrow> (c # s) # ss))"

definition query_pair :: "string \<Rightarrow> (string \<times> string) option" where
  "query_pair s =
     (if CHR ''='' \<in> set s
      then Some (rev (tl (dropWhile (\<lambda>c. c \<noteq> CHR ''='') (rev s))),
                 rev (takeWhile (\<lambda>c. c \<noteq> CHR ''='') (rev s)))
      else None)"

definition query_pairs :: "string \<Rightarrow> (string \<times> string) list" where
  "query_pairs s = List.map_filter query_pair (query_pieces s)"

definition uri_from :: "string \<Rightarrow> uri_error + uri" where
  "uri_from s =
     (let (scheme, s1) = split_scheme s;
          (auth, s2) = split_authority s1;
          (p, s3) = split_path s2;
          (q, s4) = split_query s3
      in if s4 \<noteq> [] \<and> \<not> no_newline (tl s4) then Inl Uri_syntax
         else
           let b = fold (\<lambda>kv. add_query (fst kv) (snd kv)) (query_pairs q)
                 (new_builder\<lparr>b_scheme := scheme, b_path := p, b_fragment := tl s4\<rparr>)
           in (case auth_splits auth of
                 [] \<Rightarrow> build (b\<lparr>b_host := auth\<rparr>)
               | (user, password, host, port) # _ \<Rightarrow>
                   if port = [] then
                     build (b\<lparr>b_user := user, b_password := password, b_host := host\<rparr>)
                   else
                     (case stoi_digits port of
                        None \<Rightarrow> Inl Uri_port_range
                      | Some n \<Rightarrow>
                          build (b\<lparr>b_user := user, b_password := password, b_host := host,
                                   b_port := Some n\<rparr>))))"

definition builder_from :: "string \<Rightarrow> uri_error + uri_builder" where
  "builder_from s =
     (case uri_from s of
        Inl e \<Rightarrow> Inl e
      | Inr u \<Rightarrow> Inr (builder_of (uri_scheme u) (uri_path u)))"

subsection \<open>Printing\<close>

definition show_int :: "int \<Rightarrow> string" where
  "show_int n = (if n < 0 then ''-'' @ show_nat (nat (- n)) else show_nat (nat n))"

definition authority_string :: "authority \<Rightarrow> string" where
  "authority_string a =
     (if auth_user a = [] then []
      else auth_user a @ (if auth_password a = [] then [] else '':'' @ auth_password a) @ ''@'') @
     auth_host a @
     (case auth_port a of None \<Rightarrow> [] | Some n \<Rightarrow> '':'' @ show_int n)"

fun query_string :: "(string \<times> string) list \<Rightarrow> string" where
  "query_string [] = []"
| "query_string [(k, v)] = k @ ''='' @ v"
| "query_string ((k, v) # kvs) = k @ ''='' @ v @ ''&'' @ query_string kvs"

definition uri_string :: "uri \<Rightarrow> string" where
  "uri_string u =
     uri_scheme u @ ''://'' @
     (case uri_authority u of None \<Rightarrow> [] | Some a \<Rightarrow> authority_string a) @
     uri_path u @
     (if uri_query u = [] then [] else ''?'' @ query_string (uri_query u)) @
     (if uri_fragment u = [] then [] else ''#'' @ uri_fragment u)"

definition uri_less :: "uri \<Rightarrow> uri \<Rightarrow> bool" where
  "uri_less a b = (uri_string a < uri_string b)"

definition uri_eq :: "uri \<Rightarrow> uri \<Rightarrow> bool" where
  "uri_eq a b = (uri_string a = uri_string b)"

subsection \<open>Percent encoding\<close>

definition hex_digit :: "nat \<Rightarrow> char" where
  "hex_digit d = char_of (if d < 10 then 48 + d else 55 + d)"

text \<open>\<open>%\<close> and at least two upper-case hexadecimal digits of \<open>int(c)\<close>; a \<open>char\<close> above 127 is
  negative and prints as 32 bits.\<close>

definition hex_int :: "char \<Rightarrow> string" where
  "hex_int c =
     (let n = char_code c
      in (if n < 128 then [] else ''FFFFFF'') @ [hex_digit (n div 16), hex_digit (n mod 16)])"

definition uri_encode :: "string \<Rightarrow> string" where
  "uri_encode s =
     concat (map (\<lambda>c. if is_alnum c \<or> c \<in> set ''-_.~'' then [c] else ''%'' @ hex_int c) s)"

text \<open>\<open>None\<close> where fewer than two characters follow a \<open>%\<close> and the code reads past the end.\<close>

fun uri_decode :: "string \<Rightarrow> string option" where
  "uri_decode [] = Some []"
| "uri_decode (c # cs) =
     (if c = CHR ''%'' then
        (case cs of
           a # b # rest \<Rightarrow>
             (case uri_decode rest of
                None \<Rightarrow> None
              | Some ds \<Rightarrow> Some (char_of (nat (strtol16 [a, b] mod 256)) # ds))
         | _ \<Rightarrow> None)
      else (case uri_decode cs of None \<Rightarrow> None | Some ds \<Rightarrow> Some (c # ds)))"

subsection \<open>Decoding inverts encoding on ASCII\<close>

lemma hex_digit_value: "d < 16 \<Longrightarrow> digit_value (hex_digit d) = Some d"
  by (auto simp: hex_digit_def digit_value_def is_digit_def is_upper_def char_code_def)

lemma hex_digit_ok: "d < 16 \<Longrightarrow> digit_ok 16 (hex_digit d)"
  by (simp add: digit_ok_def hex_digit_value)

lemma char_code_eq: "char_code c = char_code d \<longleftrightarrow> c = d"
  by (simp add: char_code_def)

lemma hex_digit_code: "d < 16 \<Longrightarrow> char_code (hex_digit d) = (if d < 10 then 48 + d else 55 + d)"
  by (auto simp: hex_digit_def char_code_def)

lemma hex_digit_plain:
  assumes "d < 16"
  shows "\<not> is_space (hex_digit d)" "hex_digit d \<noteq> CHR ''-''" "hex_digit d \<noteq> CHR ''+''"
  using assms hex_digit_code [OF assms]
  by (auto simp: is_space_def char_code_eq [symmetric] split: if_splits)
    (auto simp: char_code_def split: if_splits)

lemma strtol16_hex: "a < 16 \<Longrightarrow> b < 16 \<Longrightarrow> strtol16 [hex_digit a, hex_digit b] = int (16 * a + b)"
  by (simp add: strtol16_def read_sign_def hex_digit_plain has_hex_prefix_def read_digits_def
      hex_digit_ok digits_value_def hex_digit_value)

lemma char_code_less: "char_code c < 256"
  using nat_of_char_less_256 [of c] by (simp add: char_code_def)

lemma uri_decode_plain: "c \<noteq> CHR ''%'' \<Longrightarrow> uri_decode (c # cs) = map_option ((#) c) (uri_decode cs)"
  by (simp split: option.split)

lemma percent_not_plain: "is_alnum c \<or> c \<in> set ''-_.~'' \<Longrightarrow> c \<noteq> CHR ''%''"
  by (auto simp: is_alnum_def is_digit_def is_upper_def is_lower_def char_code_def)

lemma decode_encode:
  "\<forall>c\<in>set s. char_code c < 128 \<Longrightarrow> uri_decode (uri_encode s) = Some s"
proof (induction s)
  case (Cons c s)
  then have IH: "uri_decode (uri_encode s) = Some s" and c: "char_code c < 128" by simp_all
  show ?case
  proof (cases "is_alnum c \<or> c \<in> set ''-_.~''")
    case True
    then show ?thesis
      using IH uri_decode_plain [OF percent_not_plain [OF True]] by (simp add: uri_encode_def)
  next
    case False
    have "nat (strtol16 [hex_digit (char_code c div 16), hex_digit (char_code c mod 16)] mod 256) =
        char_code c"
      using c by (subst strtol16_hex) auto
    then show ?thesis
      using IH c False by (simp add: uri_encode_def hex_int_def Let_def char_code_def)
  qed
qed (simp add: uri_encode_def)

subsection \<open>Parsing inverts printing\<close>

definition uri_plain :: "uri \<Rightarrow> bool" where
  "uri_plain u =
     (uri_authority u = None \<and>
      uri_scheme u \<noteq> [] \<and> set (uri_scheme u) \<inter> set '':/?#'' = {} \<and>
      is_absolute (uri_path u) \<and> canonical (uri_path u) = uri_path u \<and>
      set (uri_path u) \<inter> set ''?#'' = {} \<and>
      omap_wf (uri_query u) \<and>
      (\<forall>(k, v)\<in>set (uri_query u). set k \<inter> set ''?&#'' = {} \<and> set v \<inter> set ''?&#='' = {}) \<and>
      no_newline (uri_fragment u))"

lemma takeWhile_stop: "\<forall>x\<in>set xs. P x \<Longrightarrow> ys = [] \<or> \<not> P (hd ys) \<Longrightarrow> takeWhile P (xs @ ys) = xs"
  by (induction xs) (cases ys; auto)+

lemma dropWhile_stop: "\<forall>x\<in>set xs. P x \<Longrightarrow> ys = [] \<or> \<not> P (hd ys) \<Longrightarrow> dropWhile P (xs @ ys) = ys"
  by (induction xs) (cases ys; auto)+

lemma query_pieces_plain:
  "CHR ''?'' \<notin> set s \<Longrightarrow> CHR ''&'' \<notin> set s \<Longrightarrow>
   query_pieces (s @ CHR ''&'' # t) = s # query_pieces t"
  "CHR ''?'' \<notin> set s \<Longrightarrow> CHR ''&'' \<notin> set s \<Longrightarrow> query_pieces s = [s]"
  by (induction s) auto

lemma query_pair_plain:
  "CHR ''='' \<notin> set v \<Longrightarrow> query_pair (k @ ''='' @ v) = Some (k, v)"
proof -
  assume "CHR ''='' \<notin> set v"
  then have "\<forall>c\<in>set (rev v). c \<noteq> CHR ''=''" by auto
  then have "takeWhile (\<lambda>c. c \<noteq> CHR ''='') (rev v @ CHR ''='' # rev k) = rev v"
    "dropWhile (\<lambda>c. c \<noteq> CHR ''='') (rev v @ CHR ''='' # rev k) = CHR ''='' # rev k"
    by (simp_all only: takeWhile_stop dropWhile_stop list.sel not_True_eq_False simp_thms)
  then show ?thesis by (simp add: query_pair_def)
qed

lemma query_pairs_string:
  "\<forall>(k, v)\<in>set kvs. set k \<inter> set ''?&#'' = {} \<and> set v \<inter> set ''?&#='' = {} \<Longrightarrow> kvs \<noteq> [] \<Longrightarrow>
   query_pairs (CHR ''?'' # query_string kvs) = kvs"
proof (induction kvs rule: query_string.induct)
  case (2 k v)
  then have "query_pieces (k @ ''='' @ v) = [k @ ''='' @ v]"
    by (intro query_pieces_plain(2)) auto
  then show ?case
    using 2 by (simp add: query_pairs_def List.map_filter_simps query_pair_def [of "[]"]
        query_pair_plain [simplified])
next
  case (3 k v kv kvs)
  have "query_pieces ((k @ ''='' @ v) @ CHR ''&'' # query_string (kv # kvs)) =
      (k @ ''='' @ v) # query_pieces (query_string (kv # kvs))"
    using "3.prems" by (intro query_pieces_plain(1)) auto
  moreover have "query_pairs (CHR ''?'' # query_string (kv # kvs)) = kv # kvs"
    using 3 by simp
  ultimately show ?case
    using "3.prems" by (simp add: query_pairs_def List.map_filter_simps query_pair_def [of "[]"]
        query_pair_plain [simplified])
qed simp

lemma query_string_no_hash:
  "\<forall>(k, v)\<in>set kvs. set k \<inter> set ''?&#'' = {} \<and> set v \<inter> set ''?&#='' = {} \<Longrightarrow>
   CHR ''#'' \<notin> set (query_string kvs)"
  by (induction kvs rule: query_string.induct) auto

lemma omap_put_last: "\<forall>e\<in>set m. fst e < k \<Longrightarrow> omap_put k v m = m @ [(k, v)]"
  by (induction k v m rule: omap_put.induct) auto

lemma fold_add_query:
  "omap_wf (b_query b @ kvs) \<Longrightarrow>
   fold (\<lambda>kv. add_query (fst kv) (snd kv)) kvs b = b\<lparr>b_query := b_query b @ kvs\<rparr>"
proof (induction kvs arbitrary: b)
  case (Cons kv kvs)
  have "\<forall>e\<in>set (b_query b). fst e < fst kv"
    using Cons.prems by (auto simp: oset_wf_def sorted_wrt_append)
  then have "add_query (fst kv) (snd kv) b = b\<lparr>b_query := b_query b @ [kv]\<rparr>"
    by (simp add: add_query_def omap_put_last)
  then show ?case using Cons by simp
qed simp

lemma auth_splits_Nil [simp]: "auth_splits [] = []"
  by (simp add: auth_splits_def)

lemma uri_from_string:
  assumes "uri_plain u"
  shows "uri_from (uri_string u) = Inr u"
proof -
  let ?q = "if uri_query u = [] then [] else CHR ''?'' # query_string (uri_query u)"
  let ?f = "if uri_fragment u = [] then [] else CHR ''#'' # uri_fragment u"
  let ?rest = "uri_path u @ ?q @ ?f"
  have u: "uri_authority u = None" "uri_scheme u \<noteq> []" "set (uri_scheme u) \<inter> set '':/?#'' = {}"
    "is_absolute (uri_path u)" "canonical (uri_path u) = uri_path u" "set (uri_path u) \<inter> set ''?#'' = {}"
    "omap_wf (uri_query u)" "no_newline (uri_fragment u)"
    "\<forall>(k, v)\<in>set (uri_query u). set k \<inter> set ''?&#'' = {} \<and> set v \<inter> set ''?&#='' = {}"
    using assms by (simp_all add: uri_plain_def)
  have str: "uri_string u = uri_scheme u @ ''://'' @ ?rest"
    using u(1) by (simp add: uri_string_def)
  have "takeWhile (\<lambda>c. c \<notin> set '':/?#'') (uri_string u) = uri_scheme u"
    unfolding str using u(3) by (intro takeWhile_stop) auto
  then have scheme: "split_scheme (uri_string u) = (uri_scheme u, ''//'' @ ?rest)"
    using u(2) by (simp add: split_scheme_def Let_def str)
  obtain p where p: "uri_path u = slash # p"
    using u(4) by (cases "uri_path u") (auto simp: is_absolute_def)
  have auth: "split_authority (''//'' @ ?rest) = ([], ?rest)"
    by (simp add: split_authority_def p)
  have "\<forall>c\<in>set (uri_path u). c \<notin> set ''?#''" using u(6) by auto
  then have path: "split_path ?rest = (uri_path u, ?q @ ?f)"
    unfolding split_path_def by (subst takeWhile_stop; (subst dropWhile_stop)?) auto
  have "\<forall>c\<in>set ?q. c \<noteq> CHR ''#''" using query_string_no_hash [OF u(9)] by auto
  then have query: "split_query (?q @ ?f) = (?q, ?f)"
    unfolding split_query_def by (subst takeWhile_stop; (subst dropWhile_stop)?) auto
  have pairs: "query_pairs ?q = uri_query u"
    using query_pairs_string [OF u(9)]
    by (simp add: query_pairs_def List.map_filter_simps query_pair_def)
  have frag: "tl ?f = uri_fragment u" "(?f \<noteq> [] \<and> \<not> no_newline (uri_fragment u)) = False"
    using u(8) by auto
  let ?b = "new_builder\<lparr>b_scheme := uri_scheme u, b_path := uri_path u, b_fragment := uri_fragment u\<rparr>"
  have "uri_from (uri_string u) =
      build ((fold (\<lambda>kv. add_query (fst kv) (snd kv)) (uri_query u) ?b)\<lparr>b_host := []\<rparr>)"
    unfolding uri_from_def scheme by (simp only: Let_def prod.case auth path query pairs frag
        auth_splits_Nil list.case if_False)
  also have "\<dots> = Inr u"
    using u p by (simp add: fold_add_query new_builder_def build_def new_uri_def)
  finally show ?thesis .
qed

text \<open>What the parser and the builder accept has a canonical path and a scheme.\<close>

lemma build_canonical: "build b = Inr u \<Longrightarrow> canonical (uri_path u) = uri_path u \<and> uri_scheme u \<noteq> []"
  by (auto simp: build_def new_uri_def split: if_splits)

lemma uri_from_canonical:
  assumes "uri_from t = Inr u"
  shows "canonical (uri_path u) = uri_path u \<and> uri_scheme u \<noteq> []"
proof -
  have "\<exists>b. build b = Inr u"
    using assms unfolding uri_from_def Let_def by (auto split: prod.splits if_splits list.splits option.splits)
  then show ?thesis using build_canonical by blast
qed

end
