(* ===== verification/Metadata.thy ===== *)
theory Metadata
  imports Context Replication Uri
begin

text \<open>
  What the file system knows of a file (\<open>include/chord.fs.perms.h\<close>, \<open>include/chord.fs.type.h\<close>,
  \<open>include/chord.fs.metadata.h\<close>, \<open>src/chord.fs.metadata.cc\<close>).  Permissions and file types
  are the 32-bit values of their enumerations, since they arrive from the network
  unchecked.  A \<open>std::set<Metadata>\<close> is ordered by name and holds one entry per name; it is
  an ordered list.  \<open>None\<close> is the reading of an empty set through \<open>end()\<close>.  A
  default-constructed entry leaves its numbers uninitialised in the code; they are 0 here.
\<close>

subsection \<open>Permissions and types\<close>

type_synonym perms = "32 word"

unbundle bit_operations_syntax

definition perms_none :: perms where "perms_none = 0"
definition perms_owner_read :: perms where "perms_owner_read = 256"
definition perms_owner_write :: perms where "perms_owner_write = 128"
definition perms_owner_exec :: perms where "perms_owner_exec = 64"
definition perms_group_read :: perms where "perms_group_read = 32"
definition perms_group_write :: perms where "perms_group_write = 16"
definition perms_group_exec :: perms where "perms_group_exec = 8"
definition perms_others_read :: perms where "perms_others_read = 4"
definition perms_others_write :: perms where "perms_others_write = 2"
definition perms_others_exec :: perms where "perms_others_exec = 1"
definition perms_all :: perms where "perms_all = 511"

definition perms_and :: "perms \<Rightarrow> perms \<Rightarrow> perms" where "perms_and a b = a AND b"
definition perms_or :: "perms \<Rightarrow> perms \<Rightarrow> perms" where "perms_or a b = a OR b"
definition perms_xor :: "perms \<Rightarrow> perms \<Rightarrow> perms" where "perms_xor a b = a XOR b"
definition perms_not :: "perms \<Rightarrow> perms" where "perms_not a = NOT a"

definition perms_string :: "perms \<Rightarrow> string" where
  "perms_string p =
     map (\<lambda>(bit, c). if perms_and p bit \<noteq> perms_none then c else CHR ''-'')
       [(perms_owner_read, CHR ''r''), (perms_owner_write, CHR ''w''), (perms_owner_exec, CHR ''x''),
        (perms_group_read, CHR ''r''), (perms_group_write, CHR ''w''), (perms_group_exec, CHR ''x''),
        (perms_others_read, CHR ''r''), (perms_others_write, CHR ''w''), (perms_others_exec, CHR ''x'')]"

type_synonym file_type = "32 word"

definition type_none :: file_type where "type_none = 0"
definition type_not_found :: file_type where "type_not_found = - 1"
definition type_regular :: file_type where "type_regular = 1"
definition type_directory :: file_type where "type_directory = 2"
definition type_unknown :: file_type where "type_unknown = 65535"

definition type_string :: "file_type \<Rightarrow> string" where
  "type_string t =
     (if t = type_none then ''none''
      else if t = type_not_found then ''not_found''
      else if t = type_regular then ''file''
      else if t = type_directory then ''directory''
      else if t = type_unknown then ''unknown''
      else [])"

subsection \<open>Entries\<close>

record metadata =
  meta_name :: string
  meta_owner :: string
  meta_group :: string
  meta_permissions :: perms
  meta_file_type :: file_type
  meta_file_size :: "64 word"
  meta_file_hash :: "uuid option"
  meta_node_ref :: "node option"
  meta_replication :: replication

type_synonym metadata_set = "metadata list"

abbreviation meta_insert :: "metadata \<Rightarrow> metadata_set \<Rightarrow> metadata_set" where
  "meta_insert \<equiv> oset_insert meta_name"

abbreviation meta_wf :: "metadata_set \<Rightarrow> bool" where
  "meta_wf \<equiv> oset_wf meta_name"

definition default_metadata :: metadata where
  "default_metadata =
     \<lparr>meta_name = [], meta_owner = [], meta_group = [], meta_permissions = 0, meta_file_type = 0,
      meta_file_size = 0, meta_file_hash = None, meta_node_ref = None, meta_replication = NONE\<rparr>"

definition new_metadata ::
  "string \<Rightarrow> string \<Rightarrow> string \<Rightarrow> perms \<Rightarrow> file_type \<Rightarrow> 64 word \<Rightarrow> uuid option \<Rightarrow> node option \<Rightarrow>
    replication \<Rightarrow> metadata" where
  "new_metadata name owner grp p t sz h r repl =
     \<lparr>meta_name = name, meta_owner = owner, meta_group = grp, meta_permissions = p,
      meta_file_type = t, meta_file_size = sz, meta_file_hash = h, meta_node_ref = r,
      meta_replication = repl\<rparr>"

definition metadata_less :: "metadata \<Rightarrow> metadata \<Rightarrow> bool" where
  "metadata_less a b = (meta_name a < meta_name b)"

definition compare_basic :: "metadata \<Rightarrow> metadata \<Rightarrow> bool" where
  "compare_basic a b =
     (meta_name a = meta_name b \<and> meta_file_type a = meta_file_type b \<and>
      meta_file_hash a = meta_file_hash b)"

definition metadata_eq :: "metadata \<Rightarrow> metadata \<Rightarrow> bool" where
  "metadata_eq a b =
     (compare_basic a b \<and> meta_node_ref a = meta_node_ref b \<and>
      meta_replication a = meta_replication b)"

definition equal_basic :: "metadata_set \<Rightarrow> metadata_set \<Rightarrow> bool" where
  "equal_basic xs ys = list_all2 compare_basic xs ys"

subsection \<open>Directories and replication of a set\<close>

definition create_directory_named :: "string \<Rightarrow> metadata" where
  "create_directory_named name =
     default_metadata\<lparr>meta_name := name, meta_permissions := perms_none,
       meta_file_type := type_directory\<rparr>"

text \<open>\<open>std::max_element\<close>: the first of the greatest.\<close>

fun max_from :: "metadata \<Rightarrow> metadata list \<Rightarrow> metadata" where
  "max_from m [] = m"
| "max_from m (x # xs) =
     max_from (if repl_less (meta_replication m) (meta_replication x) then x else m) xs"

definition max_replication :: "metadata_set \<Rightarrow> replication option" where
  "max_replication ms = (case ms of [] \<Rightarrow> None | m # ms \<Rightarrow> Some (meta_replication (max_from m ms)))"

definition max_replication_index_zero :: "metadata_set \<Rightarrow> replication option" where
  "max_replication_index_zero ms =
     (case max_replication ms of
        None \<Rightarrow> None
      | Some r \<Rightarrow> Some (if replicated r then new_replication 0 (repl_count r) else r))"

definition create_directory :: "metadata_set \<Rightarrow> string \<Rightarrow> metadata option" where
  "create_directory ms name =
     map_option (\<lambda>r. (create_directory_named name)\<lparr>meta_replication := r\<rparr>)
       (max_replication_index_zero ms)"

definition is_directory :: "metadata \<Rightarrow> bool" where
  "is_directory m =
     ((meta_name m = ''.'' \<or> meta_name m = ''..'') \<and> meta_file_type m = type_directory)"

definition is_mkdir :: "uri \<Rightarrow> metadata_set \<Rightarrow> bool" where
  "is_mkdir u ms =
     (case ms of [m] \<Rightarrow> meta_file_type m = type_directory \<and> meta_name m = filename (uri_path u)
      | _ \<Rightarrow> False)"

definition is_directory_set :: "metadata_set \<Rightarrow> bool" where
  "is_directory_set ms = list_ex is_directory ms"

definition is_empty :: "metadata_set \<Rightarrow> bool" where
  "is_empty ms = (length ms = 2 \<and> is_directory_set ms)"

definition is_regular_file :: "metadata_set \<Rightarrow> bool" where
  "is_regular_file ms = (case ms of [m] \<Rightarrow> meta_file_type m = type_regular | _ \<Rightarrow> False)"

definition is_shallow_copy :: "metadata_set \<Rightarrow> peer_context \<Rightarrow> bool" where
  "is_shallow_copy ms ctx =
     (is_regular_file ms \<and>
      (case meta_node_ref (hd ms) of None \<Rightarrow> False | Some n \<Rightarrow> n \<noteq> ctx_node ctx))"

definition is_shallow_copyable :: "metadata_set \<Rightarrow> peer_context \<Rightarrow> bool" where
  "is_shallow_copyable ms ctx =
     (is_regular_file ms \<and> max_replication ms = Some NONE \<and>
      (case meta_node_ref (hd ms) of None \<Rightarrow> True | Some n \<Rightarrow> n \<noteq> ctx_node ctx))"

definition set_node_ref :: "metadata_set \<Rightarrow> peer_context \<Rightarrow> metadata_set" where
  "set_node_ref ms ctx = oset_of meta_name (map (\<lambda>m. m\<lparr>meta_node_ref := Some (ctx_node ctx)\<rparr>) ms)"

definition clear_hashes :: "metadata_set \<Rightarrow> metadata_set" where
  "clear_hashes ms = oset_of meta_name (map (\<lambda>m. m\<lparr>meta_file_hash := None\<rparr>) ms)"

definition increase_replication_and_clean :: "metadata_set \<Rightarrow> metadata_set" where
  "increase_replication_and_clean ms =
     filter (\<lambda>m. replicated (meta_replication m))
       (oset_of meta_name (map (\<lambda>m. m\<lparr>meta_replication := next_copy (meta_replication m)\<rparr>) ms))"

subsection \<open>Printing\<close>

text \<open>\<open>std::left\<close> and \<open>std::setw\<close>.\<close>

definition pad :: "nat \<Rightarrow> string \<Rightarrow> string" where
  "pad n s = s @ replicate (n - length s) CHR '' ''"

definition infinity_sign :: string where
  "infinity_sign = [CHR 0xE2, CHR 0x88, CHR 0x9E]"

definition link_sign :: string where
  "link_sign = [CHR 0xE2, CHR 0x98, CHR 0x87]"

definition metadata_print :: "metadata \<Rightarrow> nat \<Rightarrow> nat \<Rightarrow> string" where
  "metadata_print m owner_len group_len =
     (if meta_file_type m = type_directory then ''d'' else ''-'') @
     perms_string (meta_permissions m) @ '' '' @
     pad (owner_len + 1) (meta_owner m) @ pad (group_len + 1) (meta_group m) @
     (if repl_count (meta_replication m) = repl_count ALL_REPL then pad 5 infinity_sign
      else pad 3 (show_nat (unat (repl_count (meta_replication m))))) @
     (if meta_node_ref m = None then [] else pad 5 link_sign) @
     meta_name m"

definition metadata_set_print :: "metadata_set \<Rightarrow> string option" where
  "metadata_set_print ms =
     (if ms = [] then None
      else Some (concat (map (\<lambda>m. metadata_print m
             (Max (set (map (length \<circ> meta_owner) ms))) (Max (set (map (length \<circ> meta_group) ms))) @
             [CHR 0x0A]) ms)))"

subsection \<open>Properties of sets\<close>

lemma oset_of_id: "oset_wf k xs \<Longrightarrow> oset_of k xs = xs"
proof -
  have last: "oset_insert k x acc = acc @ [x]" if "\<forall>y\<in>set acc. k y < k x" for x and acc :: "'a list"
    using that by (induction acc) auto
  have "oset_wf k (acc @ xs) \<Longrightarrow> fold (oset_insert k) xs acc = acc @ xs" for acc
  proof (induction xs arbitrary: acc)
    case (Cons x xs)
    have "\<forall>y\<in>set acc. k y < k x" using Cons.prems by (auto simp: oset_wf_def sorted_wrt_append)
    then show ?case using Cons.IH [of "acc @ [x]"] Cons.prems by (simp add: last)
  qed simp
  then show "oset_wf k xs \<Longrightarrow> oset_of k xs = xs" by (simp add: oset_of_def)
qed

lemma meta_wf_map: "(\<And>m. meta_name (f m) = meta_name m) \<Longrightarrow> meta_wf ms \<Longrightarrow> meta_wf (map f ms)"
  by (simp add: oset_wf_def comp_def)

lemma increase_replication_eq:
  "meta_wf ms \<Longrightarrow> increase_replication_and_clean ms =
     filter (\<lambda>m. replicated (meta_replication m))
       (map (\<lambda>m. m\<lparr>meta_replication := next_copy (meta_replication m)\<rparr>) ms)"
  by (simp add: increase_replication_and_clean_def oset_of_id meta_wf_map)

text \<open>The copy passed on holds exactly the entries that have a next copy, at the next index.\<close>

lemma increase_replication_set:
  assumes "meta_wf ms" "\<forall>m\<in>set ms. repl_index (meta_replication m) < repl_count (meta_replication m)"
  shows "set (increase_replication_and_clean ms) =
    (\<lambda>m. m\<lparr>meta_replication := next_copy (meta_replication m)\<rparr>) `
      {m \<in> set ms. has_next (meta_replication m)}"
proof -
  have "replicated (next_copy (meta_replication m)) \<longleftrightarrow> has_next (meta_replication m)"
    if "m \<in> set ms" for m
  proof (cases "repl_count (meta_replication m) > 1")
    case True
    then show ?thesis using that assms(2) replicated_next_iff by blast
  next
    case False
    have idx: "repl_index (meta_replication m) < repl_count (meta_replication m)"
      using that assms(2) by blast
    have "unat (repl_count (meta_replication m)) \<le> 1"
      using False by (simp add: word_less_nat_alt not_less)
    then show ?thesis using False has_next_iff [OF idx] by (simp add: replicated_def)
  qed
  then show ?thesis by (auto simp: increase_replication_eq [OF assms(1)])
qed

lemma max_from_ge:
  "\<forall>x\<in>insert m (set xs). repl_count (meta_replication x) \<le> repl_count (meta_replication (max_from m xs))"
proof (induction m xs rule: max_from.induct)
  case (2 m x xs)
  then show ?case by (auto simp: repl_less_def split: if_splits intro: order_trans)
qed simp

lemma max_from_in: "max_from m xs \<in> insert m (set xs)"
  by (induction m xs rule: max_from.induct) auto

lemma max_replication_spec:
  assumes "max_replication ms = Some r"
  shows "(\<exists>m\<in>set ms. meta_replication m = r) \<and>
    (\<forall>m\<in>set ms. repl_count (meta_replication m) \<le> repl_count r)"
proof -
  obtain m ms' where ms: "ms = m # ms'" "r = meta_replication (max_from m ms')"
    using assms by (auto simp: max_replication_def split: list.splits)
  then show ?thesis using max_from_ge [of m ms'] max_from_in [of m ms'] by auto
qed

end
