(* ===== verification/Context_Metadata.thy ===== *)
theory Context_Metadata
  imports Metadata
begin

text \<open>
  What a file-system call carries beside its message: gRPC metadata, a list of pairs of
  texts (\<open>include/chord.fs.context.metadata.h\<close>, \<open>src/chord.fs.context.metadata.cc\<close>), and the
  options of a call (\<open>include/chord.fs.client.options.h\<close>, \<open>src/chord.fs.client.options.cc\<close>).
  The text of an identifier is Boost's: \<open>utext\<close> prints it and \<open>uparse\<close> reads it, and the
  round trips ask that reading inverts printing.  The flags \<open>recursive\<close> and \<open>rebalance\<close>
  share one member of a union, \<open>opt_flag\<close>.
\<close>

record client_options =
  opt_replication :: replication
  opt_source :: "uuid option"
  opt_flag :: bool
  opt_force :: bool

definition default_options :: client_options where
  "default_options = \<lparr>opt_replication = NONE, opt_source = None, opt_flag = False, opt_force = False\<rparr>"

definition options_of_replication :: "replication \<Rightarrow> client_options" where
  "options_of_replication r = default_options\<lparr>opt_replication := r\<rparr>"

definition clear_source :: "client_options \<Rightarrow> client_options" where
  "clear_source opts = opts\<lparr>opt_source := None\<rparr>"

definition init_source :: "client_options \<Rightarrow> peer_context \<Rightarrow> client_options" where
  "init_source opts ctx =
     (if opt_source opts \<noteq> None then opts else opts\<lparr>opt_source := Some (ctx_uuid ctx)\<rparr>)"

subsection \<open>Writing\<close>

type_synonym call_metadata = "(string \<times> string) list"

definition add_metadata :: "string \<Rightarrow> string \<Rightarrow> call_metadata \<Rightarrow> call_metadata" where
  "add_metadata k v md = md @ [(k, v)]"

definition add_replication :: "replication \<Rightarrow> call_metadata \<Rightarrow> call_metadata" where
  "add_replication r md =
     add_metadata ''replication.count'' (show_nat (unat (repl_count r)))
       (add_metadata ''replication.index'' (show_nat (unat (repl_index r))) md)"

definition add_file_hash :: "(uuid \<Rightarrow> string) \<Rightarrow> uuid option \<Rightarrow> call_metadata \<Rightarrow> call_metadata" where
  "add_file_hash utext h md =
     (case h of None \<Rightarrow> md | Some u \<Rightarrow> add_metadata ''file.hash'' (utext u) md)"

definition add_meta :: "(uuid \<Rightarrow> string) \<Rightarrow> metadata \<Rightarrow> call_metadata \<Rightarrow> call_metadata" where
  "add_meta utext m md =
     add_replication (meta_replication m) (add_file_hash utext (meta_file_hash m) md)"

definition add_uri :: "uri \<Rightarrow> call_metadata \<Rightarrow> call_metadata" where
  "add_uri u md = add_metadata ''uri'' (uri_string u) md"

text \<open>The hash of a stream, which is rewound afterwards.\<close>

definition add_stream_hash ::
  "(string \<Rightarrow> uuid) \<Rightarrow> (uuid \<Rightarrow> string) \<Rightarrow> string \<Rightarrow> call_metadata \<Rightarrow> call_metadata" where
  "add_stream_hash sha256 utext input md = add_file_hash utext (Some (sha256 input)) md"

definition add_src :: "(uuid \<Rightarrow> string) \<Rightarrow> uuid \<Rightarrow> call_metadata \<Rightarrow> call_metadata" where
  "add_src utext u md = add_metadata ''src'' (utext u) md"

definition add_rebalance :: "bool \<Rightarrow> call_metadata \<Rightarrow> call_metadata" where
  "add_rebalance b md = add_metadata ''rebalance'' (show_nat (of_bool b)) md"

definition set_file_hash_equal :: "bool \<Rightarrow> call_metadata \<Rightarrow> call_metadata" where
  "set_file_hash_equal b md = add_metadata ''file.hash.equal'' (if b then ''true'' else ''false'') md"

subsection \<open>Reading\<close>

definition replication_from :: "call_metadata \<Rightarrow> replication" where
  "replication_from md =
     (case (map_of md ''replication.index'', map_of md ''replication.count'') of
        (Some i, Some c) \<Rightarrow> \<lparr>repl_index = ucast (strtoul0 i), repl_count = ucast (strtoul0 c)\<rparr>
      | _ \<Rightarrow> NONE)"

definition file_hash_from :: "(string \<Rightarrow> uuid) \<Rightarrow> call_metadata \<Rightarrow> uuid option" where
  "file_hash_from uparse md = map_option uparse (map_of md ''file.hash'')"

text \<open>\<open>None\<close> is the exception for a missing uri.\<close>

definition uri_of_metadata :: "call_metadata \<Rightarrow> (uri_error + uri) option" where
  "uri_of_metadata md = map_option uri_from (map_of md ''uri'')"

definition src_from :: "(string \<Rightarrow> uuid) \<Rightarrow> call_metadata \<Rightarrow> uuid option" where
  "src_from uparse md = map_option uparse (map_of md ''src'')"

definition truth :: "string \<Rightarrow> bool" where
  "truth v = (v = ''1'' \<or> v = ''true'')"

definition file_hash_equal_from :: "call_metadata \<Rightarrow> bool" where
  "file_hash_equal_from md = (case map_of md ''file.hash.equal'' of Some v \<Rightarrow> truth v | None \<Rightarrow> False)"

definition rebalance_from :: "call_metadata \<Rightarrow> bool" where
  "rebalance_from md = (case map_of md ''rebalance'' of Some v \<Rightarrow> truth v | None \<Rightarrow> False)"

definition options_from :: "(string \<Rightarrow> uuid) \<Rightarrow> call_metadata \<Rightarrow> client_options" where
  "options_from uparse md =
     default_options\<lparr>opt_replication := replication_from md, opt_source := src_from uparse md,
       opt_flag := rebalance_from md\<rparr>"

text \<open>\<open>Client::init_context\<close>\<close>

definition init_context :: "(uuid \<Rightarrow> string) \<Rightarrow> client_options \<Rightarrow> call_metadata" where
  "init_context utext opts =
     add_rebalance (opt_flag opts)
       (case opt_source opts of None \<Rightarrow> [] | Some u \<Rightarrow> add_src utext u [])"

subsection \<open>Round trips\<close>

lemma replication_round_trip:
  assumes "map_of md ''replication.index'' = None" "map_of md ''replication.count'' = None"
  shows "replication_from (add_replication r md) = r"
proof -
  have "unat (repl_index r) < 2 ^ 64" "unat (repl_count r) < 2 ^ 64"
  proof -
    have "unat (x :: 32 word) < 2 ^ LENGTH(32)" for x by (rule unsigned_less)
    then have "unat (x :: 32 word) < 2 ^ 64" for x by (rule less_trans) simp
    then show "unat (repl_index r) < 2 ^ 64" "unat (repl_count r) < 2 ^ 64" by blast+
  qed
  then have "strtoul0 (show_nat (unat (repl_index r))) = ucast (repl_index r)"
    "strtoul0 (show_nat (unat (repl_count r))) = ucast (repl_count r)"
    by (simp_all add: strtoul0_show)
  moreover have "ucast (ucast x :: 64 word) = x" for x :: "32 word"
    by transfer (simp add: take_bit_eq_mod)
  ultimately show ?thesis
    using assms by (simp add: replication_from_def add_replication_def add_metadata_def map_add_def)
qed

lemma truth_values [simp]: "truth ''1''" "\<not> truth ''0''"
  by (simp_all add: truth_def)

lemma options_round_trip:
  assumes "\<And>u. uparse (utext u) = u"
  shows "options_from uparse (add_replication (opt_replication opts) (init_context utext opts)) =
    opts\<lparr>opt_force := False\<rparr>"
proof -
  let ?md = "init_context utext opts"
  have "map_of ?md ''replication.index'' = None" "map_of ?md ''replication.count'' = None"
    by (auto simp: init_context_def add_rebalance_def add_src_def add_metadata_def map_add_def
        split: option.split)
  then have "replication_from (add_replication (opt_replication opts) ?md) = opt_replication opts"
    by (rule replication_round_trip)
  moreover have "src_from uparse (add_replication r ?md) = opt_source opts"
    "rebalance_from (add_replication r ?md) = opt_flag opts" for r
    using assms
    by (auto simp: src_from_def rebalance_from_def init_context_def add_rebalance_def add_src_def
        add_replication_def add_metadata_def map_add_def split: option.split)
  ultimately show ?thesis by (simp add: options_from_def default_options_def)
qed

end
