(* ===== verification/File_System.thy ===== *)
theory File_System
  imports Path
begin

text \<open>
  The local file system behind \<open>include/chord.file.h\<close> and \<open>src/chord.file.cc\<close>, and the
  directory listings of \<open>chord::path\<close>.  A disk maps absolute paths, as lists of names, to
  directories and regular files with their bytes; a path is resolved against the working
  directory, with \<open>.\<close> and \<open>..\<close> taken lexically.  There are no links (\<open>..\<close> after a symbolic
  link goes elsewhere on a real disk), permissions or size limits.  \<open>Inl\<close> is the exception \<open>std::filesystem::filesystem_error\<close>.  The extended
  attributes of a file are a separate map.
\<close>

type_synonym key = "string list"

datatype file_node = Directory | Regular string

record disk =
  disk_files :: "(key \<times> file_node) list"
  disk_attrs :: "((key \<times> string) \<times> string) list"
  disk_cwd :: key

datatype fs_error = Filesystem_error

definition resolve_step :: "string \<Rightarrow> key \<Rightarrow> key" where
  "resolve_step n k = (if n = ''.'' then k else if n = ''..'' then butlast k else k @ [n])"

definition resolve :: "disk \<Rightarrow> path \<Rightarrow> key" where
  "resolve d p = fold resolve_step (names p) (if is_absolute p then [] else disk_cwd d)"

definition find_node :: "disk \<Rightarrow> key \<Rightarrow> file_node option" where
  "find_node d k = (if k = [] then Some Directory else map_of (disk_files d) k)"

text \<open>The system calls are given the text of a path up to its first NUL character.  The operations below
  keep names whole; what a path with such a character really opens is \<open>resolve d (c_str p)\<close>.\<close>

definition c_str :: "path \<Rightarrow> path" where
  "c_str p = takeWhile (\<lambda>c. c \<noteq> CHR 0x00) p"

lemma c_str_whole: "CHR 0x00 \<notin> set p \<Longrightarrow> c_str p = p"
  unfolding c_str_def takeWhile_eq_all_conv by auto

text \<open>The empty path names nothing.\<close>

definition find_path :: "disk \<Rightarrow> path \<Rightarrow> file_node option" where
  "find_path d p = (if p = [] then None else find_node d (resolve d p))"

lemma find_path_Some: "find_path d p = Some n \<longleftrightarrow> p \<noteq> [] \<and> find_node d (resolve d p) = Some n"
  by (simp add: find_path_def)

lemma find_path_eq: "p \<noteq> [] \<Longrightarrow> find_path d p = find_node d (resolve d p)"
  by (simp add: find_path_def)

definition put_node :: "key \<Rightarrow> file_node \<Rightarrow> disk \<Rightarrow> disk" where
  "put_node k n d = d\<lparr>disk_files := omap_put k n (disk_files d)\<rparr>"

definition below :: "key \<Rightarrow> key \<Rightarrow> bool" where
  "below k j = (take (length k) j = k)"

definition children :: "disk \<Rightarrow> key \<Rightarrow> key list" where
  "children d k = filter (\<lambda>j. below k j \<and> length j = length k + 1) (map fst (disk_files d))"

subsection \<open>Queries\<close>

definition file_exists :: "disk \<Rightarrow> path \<Rightarrow> bool" where
  "file_exists d p = (p \<noteq> [] \<and> find_node d (resolve d p) \<noteq> None)"

definition file_is_directory :: "disk \<Rightarrow> path \<Rightarrow> bool" where
  "file_is_directory d p = (p \<noteq> [] \<and> find_node d (resolve d p) = Some Directory)"

definition file_is_regular :: "disk \<Rightarrow> path \<Rightarrow> bool" where
  "file_is_regular d p =
     (p \<noteq> [] \<and> (case find_node d (resolve d p) of Some (Regular _) \<Rightarrow> True | _ \<Rightarrow> False))"

definition file_is_empty :: "disk \<Rightarrow> path \<Rightarrow> fs_error + bool" where
  "file_is_empty d p =
     (case find_path d p of
        None \<Rightarrow> Inl Filesystem_error
      | Some Directory \<Rightarrow> Inr (children d (resolve d p) = [])
      | Some (Regular s) \<Rightarrow> Inr (s = []))"

definition file_size :: "disk \<Rightarrow> path \<Rightarrow> fs_error + nat" where
  "file_size d p =
     (case find_path d p of
        Some (Regular s) \<Rightarrow> Inr (length s) | _ \<Rightarrow> Inl Filesystem_error)"

definition file_content :: "disk \<Rightarrow> path \<Rightarrow> string option" where
  "file_content d p =
     (case find_path d p of Some (Regular s) \<Rightarrow> Some s | _ \<Rightarrow> None)"

definition files_equal :: "disk \<Rightarrow> path \<Rightarrow> path \<Rightarrow> bool" where
  "files_equal d p q =
     (case (file_content d p, file_content d q) of
        (Some s, Some t) \<Rightarrow> length s = length t \<and> s = t | _ \<Rightarrow> False)"

text \<open>Directory listings: the paths of the entries are the directory's path and a name.\<close>

definition contents :: "disk \<Rightarrow> path \<Rightarrow> fs_error + path list" where
  "contents d p =
     (case find_path d p of
        None \<Rightarrow> Inl Filesystem_error
      | Some (Regular _) \<Rightarrow> Inr []
      | Some Directory \<Rightarrow> Inr (map (\<lambda>k. fs_append p (last k)) (children d (resolve d p))))"

definition join_names :: "key \<Rightarrow> path" where
  "join_names ns = foldl fs_append [] ns"

definition recursive_contents :: "disk \<Rightarrow> path \<Rightarrow> fs_error + path list" where
  "recursive_contents d p =
     (let k = resolve d p in
      case find_path d p of
        Some Directory \<Rightarrow>
          Inr (map (\<lambda>j. fs_append p (join_names (drop (length k) j)))
            (filter (\<lambda>j. below k j \<and> length k < length j) (map fst (disk_files d))))
      | _ \<Rightarrow> Inl Filesystem_error)"

subsection \<open>Changes\<close>

definition parent_is_directory :: "disk \<Rightarrow> key \<Rightarrow> bool" where
  "parent_is_directory d k = (k \<noteq> [] \<and> find_node d (butlast k) = Some Directory)"

definition file_remove :: "path \<Rightarrow> disk \<Rightarrow> fs_error + (bool \<times> disk)" where
  "file_remove p d =
     (let k = resolve d p in
      case find_path d p of
        None \<Rightarrow> Inr (False, d)
      | Some n \<Rightarrow>
          if n = Directory \<and> (k = [] \<or> children d k \<noteq> []) then Inl Filesystem_error
          else Inr (True, d\<lparr>disk_files := omap_erase k (disk_files d)\<rparr>))"

definition file_remove_all :: "path \<Rightarrow> disk \<Rightarrow> fs_error + (bool \<times> disk)" where
  "file_remove_all p d =
     (let k = resolve d p in
      if p = [] then Inr (False, d)
      else Inr (file_exists d p, d\<lparr>disk_files := filter (\<lambda>e. \<not> below k (fst e)) (disk_files d)\<rparr>))"

definition move_key :: "key \<Rightarrow> key \<Rightarrow> key \<Rightarrow> key" where
  "move_key k l j = (if below k j then l @ drop (length k) j else j)"

text \<open>\<open>rename\<close> replaces a file by a file and an empty directory by a directory.\<close>

definition file_rename :: "path \<Rightarrow> path \<Rightarrow> disk \<Rightarrow> fs_error + disk" where
  "file_rename p q d =
     (let k = resolve d p; l = resolve d q in
      case find_path d p of
        None \<Rightarrow> Inl Filesystem_error
      | Some n \<Rightarrow>
          if k = l then Inr d
          else if q = [] \<or> k = [] \<or> below k l \<or> \<not> parent_is_directory d l then Inl Filesystem_error
          else if (case find_node d l of
                     None \<Rightarrow> False
                   | Some Directory \<Rightarrow> n \<noteq> Directory \<or> children d l \<noteq> []
                   | Some (Regular _) \<Rightarrow> n = Directory)
          then Inl Filesystem_error
          else Inr (d\<lparr>disk_files :=
                 fold (\<lambda>e. omap_put (move_key k l (fst e)) (snd e))
                   (filter (\<lambda>e. \<not> below l (fst e)) (disk_files d)) []\<rparr>))"

definition file_create_directory :: "path \<Rightarrow> disk \<Rightarrow> fs_error + (bool \<times> disk)" where
  "file_create_directory p d =
     (let k = resolve d p in
      case find_path d p of
        Some Directory \<Rightarrow> Inr (False, d)
      | Some (Regular _) \<Rightarrow> Inl Filesystem_error
      | None \<Rightarrow> if p \<noteq> [] \<and> parent_is_directory d k then Inr (True, put_node k Directory d)
          else Inl Filesystem_error)"

definition create_missing :: "key \<Rightarrow> disk \<Rightarrow> disk" where
  "create_missing k d = (if find_node d k = None then put_node k Directory d else d)"

definition prefixes_of :: "key \<Rightarrow> key list" where
  "prefixes_of k = map (\<lambda>i. take i k) [1..<Suc (length k)]"

definition file_create_directories :: "path \<Rightarrow> disk \<Rightarrow> fs_error + (bool \<times> disk)" where
  "file_create_directories p d =
     (let k = resolve d p in
      if p = [] \<or> (\<exists>j\<in>set (prefixes_of k). case find_node d j of Some (Regular _) \<Rightarrow> True | _ \<Rightarrow> False)
      then Inl Filesystem_error
      else Inr (find_node d k = None, fold create_missing (prefixes_of k) d))"

text \<open>An output stream creates or empties the file and fails silently otherwise.\<close>

definition file_create :: "path \<Rightarrow> disk \<Rightarrow> bool \<times> disk" where
  "file_create p d =
     (let k = resolve d p in
      (True,
       case find_node d k of
         Some Directory \<Rightarrow> d
       | Some (Regular _) \<Rightarrow> put_node k (Regular []) d
       | None \<Rightarrow> if p \<noteq> [] \<and> parent_is_directory d k then put_node k (Regular []) d else d))"

definition file_resize :: "path \<Rightarrow> nat \<Rightarrow> disk \<Rightarrow> fs_error + disk" where
  "file_resize p n d =
     (case find_path d p of
        Some (Regular s) \<Rightarrow>
          Inr (put_node (resolve d p) (Regular (take n s @ replicate (n - length s) (CHR 0x00))) d)
      | _ \<Rightarrow> Inl Filesystem_error)"

text \<open>Opening an output stream with exceptions and writing; \<open>None\<close> is \<open>std::ios_base::failure\<close>.\<close>

definition file_write :: "path \<Rightarrow> string \<Rightarrow> disk \<Rightarrow> disk option" where
  "file_write p s d =
     (let k = resolve d p in
      if p = [] then None else
      case find_node d k of
        Some Directory \<Rightarrow> None
      | Some (Regular _) \<Rightarrow> Some (put_node k (Regular s) d)
      | None \<Rightarrow> if parent_is_directory d k then Some (put_node k (Regular s) d) else None)"

definition file_copy_file :: "path \<Rightarrow> path \<Rightarrow> bool \<Rightarrow> disk \<Rightarrow> fs_error + (bool \<times> disk)" where
  "file_copy_file p q overwrite d =
     (case (file_content d p, find_node d (resolve d q)) of
        (None, _) \<Rightarrow> Inl Filesystem_error
      | (Some s, None) \<Rightarrow>
          if q \<noteq> [] \<and> parent_is_directory d (resolve d q) then Inr (True, put_node (resolve d q) (Regular s) d)
          else Inl Filesystem_error
      | (Some s, Some (Regular _)) \<Rightarrow>
          if overwrite \<and> resolve d p \<noteq> resolve d q
          then Inr (True, put_node (resolve d q) (Regular s) d) else Inl Filesystem_error
      | (Some s, Some Directory) \<Rightarrow> Inl Filesystem_error)"

subsection \<open>Extended attributes\<close>

text \<open>The system calls return -1 on failure, and the code compares with the greatest value of
  the signed type, so it never sees one: a missing attribute counts as there, and reading
  it asks for a string of the size -1, a \<open>std::length_error\<close>.\<close>

definition getxattr :: "disk \<Rightarrow> path \<Rightarrow> string \<Rightarrow> int" where
  "getxattr d p name =
     (case map_of (disk_attrs d) (resolve d p, name) of
        Some v \<Rightarrow> int (length v) | None \<Rightarrow> - 1)"

definition ssize_max :: int where
  "ssize_max = 2 ^ 63 - 1"

definition has_attr :: "disk \<Rightarrow> path \<Rightarrow> string \<Rightarrow> bool" where
  "has_attr d p name = (getxattr d p name \<noteq> ssize_max)"

definition get_attr :: "disk \<Rightarrow> path \<Rightarrow> string \<Rightarrow> fs_error + string option" where
  "get_attr d p name =
     (if getxattr d p name = ssize_max then Inr None
      else (case map_of (disk_attrs d) (resolve d p, name) of
              None \<Rightarrow> Inl Filesystem_error
            | Some v \<Rightarrow> Inr (Some v)))"

definition set_attr :: "path \<Rightarrow> string \<Rightarrow> string \<Rightarrow> disk \<Rightarrow> bool \<times> disk" where
  "set_attr p name v d =
     (True, if find_node d (resolve d p) = None then d
            else d\<lparr>disk_attrs := ((resolve d p, name), v) #
                   filter (\<lambda>e. fst e \<noteq> (resolve d p, name)) (disk_attrs d)\<rparr>)"

definition remove_attr :: "path \<Rightarrow> string \<Rightarrow> disk \<Rightarrow> bool \<times> disk" where
  "remove_attr p name d =
     (True, d\<lparr>disk_attrs := filter (\<lambda>e. fst e \<noteq> (resolve d p, name)) (disk_attrs d)\<rparr>)"

subsection \<open>Keys\<close>

lemma resolve_append: "resolve d (path_append p q) = fold resolve_step (names q) (resolve d p)"
  by (simp add: resolve_def names_path_append)

lemma fold_resolve_plain: "dot_free ns \<Longrightarrow> fold resolve_step ns k = k @ ns"
  by (induction ns arbitrary: k) (auto simp: dot_free_def resolve_step_def)

lemma canonical_resolves_below:
  assumes "canonical p = p"
  shows "resolve d (path_append q p) = resolve d q @ names p" "below (resolve d q) (resolve d (path_append q p))"
proof -
  have "dot_free (names p)" using dot_free_canonical [of p] assms by simp
  then show "resolve d (path_append q p) = resolve d q @ names p" by (simp add: resolve_append fold_resolve_plain)
  then show "below (resolve d q) (resolve d (path_append q p))" by (simp add: below_def)
qed

lemma resolve_split:
  assumes "names_file p"
  shows "resolve d (path_append (path_append q (parent_path p)) (filename p)) = resolve d (path_append q p)"
proof -
  have "names p = butlast (names p) @ [last (names p)]" using assms by (simp add: names_file_def)
  then have "fold resolve_step (names p) k =
      fold resolve_step [last (names p)] (fold resolve_step (butlast (names p)) k)" for k
    by (metis fold_append comp_apply)
  then show ?thesis using parent_and_name [OF assms] by (simp add: resolve_append)
qed

lemma find_put:
  "find_node (put_node k n d) j = (if j = [] then Some Directory else if j = k then Some n else find_node d j)"
  by (simp add: find_node_def put_node_def omap_put_lookup)

lemma resolve_put [simp]: "resolve (put_node k n d) p = resolve d p"
  by (simp add: resolve_def put_node_def)

lemma resolve_files [simp]: "resolve (d\<lparr>disk_files := fs\<rparr>) p = resolve d p"
  by (simp add: resolve_def)

lemma find_root [simp]: "find_node d [] = Some Directory"
  by (simp add: find_node_def)

subsection \<open>Writing and reading back\<close>

lemma file_write_find:
  assumes "file_write p s d = Some d'"
  shows "find_node d' j = (if j = resolve d p then Some (Regular s) else find_node d j)"
    "resolve d' q = resolve d q" "resolve d p \<noteq> []"
proof -
  have "d' = put_node (resolve d p) (Regular s) d \<and> resolve d p \<noteq> []"
    using assms by (auto simp: file_write_def Let_def parent_is_directory_def
        split: option.splits file_node.splits if_splits)
  then show "find_node d' j = (if j = resolve d p then Some (Regular s) else find_node d j)"
    "resolve d' q = resolve d q" "resolve d p \<noteq> []"
    by (auto simp: find_put)
qed

lemma file_write_content:
  assumes "file_write p s d = Some d'"
  shows "file_content d' q = (if q \<noteq> [] \<and> resolve d q = resolve d p then Some s else file_content d q)"
  using file_write_find [OF assms] by (simp add: file_content_def find_path_def)

lemma file_write_path: "file_write p s d = Some d' \<Longrightarrow> p \<noteq> []"
  by (auto simp: file_write_def)

lemma file_write_again:
  assumes "file_write p s d = Some d'"
  shows "\<exists>d''. file_write p t d' = Some d''"
proof -
  have "find_node d' (resolve d' p) = Some (Regular s)" using file_write_find [OF assms] by simp
  then show ?thesis using file_write_path [OF assms] by (simp add: file_write_def Let_def)
qed

lemma file_resize_zero:
  "file_content d p = Some s \<Longrightarrow> file_resize p 0 d = Inr (put_node (resolve d p) (Regular []) d)"
  by (auto simp: file_resize_def file_content_def split: option.splits file_node.splits)

subsection \<open>The tree\<close>

text \<open>Every file has a directory above it.\<close>

definition tree_ok :: "disk \<Rightarrow> bool" where
  "tree_ok d =
     (omap_wf (disk_files d) \<and>
      (\<forall>k n. map_of (disk_files d) k = Some n \<longrightarrow> k \<noteq> [] \<and> find_node d (butlast k) = Some Directory))"

lemma tree_parent: "tree_ok d \<Longrightarrow> find_node d k \<noteq> None \<Longrightarrow> k \<noteq> [] \<Longrightarrow> find_node d (butlast k) = Some Directory"
  by (auto simp: tree_ok_def find_node_def [of d k])

lemma tree_ok_put:
  assumes "tree_ok d" "parent_is_directory d k" "find_node d k \<noteq> Some Directory \<or> n = Directory"
  shows "tree_ok (put_node k n d)"
proof -
  have "j \<noteq> [] \<and> find_node (put_node k n d) (butlast j) = Some Directory"
    if j: "map_of (disk_files (put_node k n d)) j = Some m" for j m
  proof (cases "j = k")
    case True
    then show ?thesis using assms(2,3) by (auto simp: find_put parent_is_directory_def)
  next
    case False
    then have "map_of (disk_files d) j = Some m" using j by (simp add: put_node_def omap_put_lookup)
    then have "j \<noteq> []" "find_node d (butlast j) = Some Directory" using assms(1) by (auto simp: tree_ok_def)
    then show ?thesis using assms(3) by (auto simp: find_put)
  qed
  moreover have "omap_wf (disk_files (put_node k n d))"
    using assms(1) by (simp add: tree_ok_def put_node_def)
  ultimately show ?thesis by (simp add: tree_ok_def)
qed

lemma find_parent_is: "tree_ok d \<Longrightarrow> find_node d k \<noteq> None \<Longrightarrow> k \<noteq> [] \<Longrightarrow> parent_is_directory d k"
  by (simp add: parent_is_directory_def tree_parent)

lemma file_write_tree: "tree_ok d \<Longrightarrow> file_write p s d = Some d' \<Longrightarrow> tree_ok d'"
  by (auto simp: file_write_def Let_def intro!: tree_ok_put find_parent_is
      split: option.splits file_node.splits if_splits)

lemma file_create_tree: "tree_ok d \<Longrightarrow> tree_ok (snd (file_create p d))"
  by (auto simp: file_create_def Let_def intro!: tree_ok_put find_parent_is
      split: option.splits file_node.splits if_splits)

lemma file_resize_tree: "tree_ok d \<Longrightarrow> file_resize p n d = Inr d' \<Longrightarrow> tree_ok d'"
  by (auto simp: file_resize_def find_path_Some intro!: tree_ok_put find_parent_is
      split: option.splits file_node.splits)

lemma file_copy_tree: "tree_ok d \<Longrightarrow> file_copy_file p q o' d = Inr (b, d') \<Longrightarrow> tree_ok d'"
  by (auto simp: file_copy_file_def intro!: tree_ok_put find_parent_is
      split: option.splits file_node.splits if_splits)

lemma file_create_directory_tree: "tree_ok d \<Longrightarrow> file_create_directory p d = Inr (b, d') \<Longrightarrow> tree_ok d'"
  by (auto simp: file_create_directory_def Let_def intro!: tree_ok_put
      split: option.splits file_node.splits if_splits)

text \<open>Creating directories adds what is missing of the path, from the top.\<close>

lemma create_prefixes:
  assumes "tree_ok d" "m \<le> length k"
    and "\<forall>i\<le>m. \<forall>s. find_node d (take i k) \<noteq> Some (Regular s)"
  shows "tree_ok (fold create_missing (map (\<lambda>i. take i k) [1..<Suc m]) d) \<and>
    (\<forall>j. find_node (fold create_missing (map (\<lambda>i. take i k) [1..<Suc m]) d) j =
      (if \<exists>i\<le>m. j = take i k then Some Directory else find_node d j))"
  using assms(2,3)
proof (induction m)
  case 0
  then show ?case using assms(1) by simp
next
  case (Suc m)
  let ?d = "fold create_missing (map (\<lambda>i. take i k) [1..<Suc m]) d"
  let ?j = "take (Suc m) k"
  have IH: "tree_ok ?d" "\<And>j. find_node ?d j = (if \<exists>i\<le>m. j = take i k then Some Directory else find_node d j)"
    using Suc by auto
  have bl: "butlast ?j = take m k" using Suc.prems(1) by (simp add: butlast_take)
  have par: "parent_is_directory ?d ?j"
    using Suc.prems(1) IH(2) [of "take m k"] by (auto simp: parent_is_directory_def bl)
  have step: "fold create_missing (map (\<lambda>i. take i k) [1..<Suc (Suc m)]) d = create_missing ?j ?d"
    by simp
  have "tree_ok (create_missing ?j ?d)"
    using IH(1) par by (auto simp: create_missing_def intro: tree_ok_put)
  moreover have "find_node (create_missing ?j ?d) j =
      (if \<exists>i\<le>Suc m. j = take i k then Some Directory else find_node d j)" for j
  proof -
    have no_file: "find_node d ?j \<noteq> Some (Regular s)" for s
      using Suc.prems(2) order_refl [of "Suc m"] by meson
    have old: "find_node d ?j = None \<or> find_node d ?j = Some Directory"
    proof (cases "find_node d ?j")
      case (Some n)
      then show ?thesis using no_file by (cases n) simp_all
    qed simp
    have iff: "(\<exists>i\<le>Suc m. j = take i k) \<longleftrightarrow> j = ?j \<or> (\<exists>i\<le>m. j = take i k)"
      by (auto simp: le_Suc_eq)
    let ?old = "\<exists>i\<le>m. j = take i k"
    have j: "find_node ?d j = (if ?old then Some Directory else find_node d j)" by (rule IH(2))
    have k: "find_node ?d ?j = None \<or> find_node ?d ?j = Some Directory"
      using IH(2) [of ?j] old by metis
    show ?thesis
    proof (cases "j = ?j")
      case True
      then show ?thesis unfolding iff using k by (auto simp: create_missing_def find_put)
    next
      case False
      then have "find_node (create_missing ?j ?d) j = find_node ?d j"
        by (auto simp: create_missing_def find_put)
      then show ?thesis unfolding iff using False j by simp
    qed
  qed
  ultimately show ?case unfolding step by blast
qed

lemma create_directories_spec:
  assumes "tree_ok d" "file_create_directories p d = Inr (b, d')"
  shows "tree_ok d'" "find_node d' j =
      (if \<exists>i\<le>length (resolve d p). j = take i (resolve d p) then Some Directory else find_node d j)"
    "resolve d' q = resolve d q"
proof -
  let ?k = "resolve d p"
  have d': "d' = fold create_missing (map (\<lambda>i. take i ?k) [1..<Suc (length ?k)]) d"
    and free: "\<not> (\<exists>j\<in>set (prefixes_of ?k). case find_node d j of Some (Regular _) \<Rightarrow> True | _ \<Rightarrow> False)"
    using assms(2) by (auto simp: file_create_directories_def Let_def prefixes_of_def
        simp del: upt_Suc split: if_splits)
  have "find_node d (take i ?k) \<noteq> Some (Regular s)" if i: "i \<le> length ?k" for i s
  proof (cases i)
    case (Suc j)
    then have "take i ?k \<in> set (prefixes_of ?k)" using i by (simp add: prefixes_of_def del: upt_Suc)
    then show ?thesis using free by auto
  qed simp
  then show "tree_ok d'" "find_node d' j =
      (if \<exists>i\<le>length ?k. j = take i ?k then Some Directory else find_node d j)"
    using create_prefixes [OF assms(1), of "length ?k" ?k] unfolding d' by auto
  have "disk_cwd (fold create_missing ks d) = disk_cwd d" for ks
    by (induction ks arbitrary: d) (auto simp: create_missing_def put_node_def)
  then show "resolve d' q = resolve d q" by (simp add: resolve_def d' del: upt_Suc)
qed

lemma below_butlast: "below k (butlast j) \<Longrightarrow> j \<noteq> [] \<Longrightarrow> below k j"
  unfolding below_def by (metis append_butlast_last_id append_take_drop_id append_assoc take_append
      append_eq_conv_conj length_take min.absorb_iff2 nat_le_linear take_all)

lemma file_remove_tree:
  assumes "tree_ok d" "file_remove p d = Inr (b, d')"
  shows "tree_ok d'"
proof (cases "find_path d p")
  case None
  then show ?thesis using assms by (simp add: file_remove_def)
next
  case (Some n)
  then have node: "find_node d (resolve d p) = Some n" by (simp add: find_path_Some)
  let ?k = "resolve d p"
  have d': "d' = d\<lparr>disk_files := omap_erase ?k (disk_files d)\<rparr>"
    and leaf: "n \<noteq> Directory \<or> ?k \<noteq> [] \<and> children d ?k = []"
    using assms(2) Some by (auto simp: file_remove_def Let_def split: if_splits)
  have wf: "omap_wf (disk_files d)" using assms(1) by (simp add: tree_ok_def)
  have find: "find_node d' j = (if j = ?k \<and> j \<noteq> [] then None else find_node d j)" for j
    using wf by (auto simp: d' find_node_def omap_erase_lookup)
  have "j \<noteq> [] \<and> find_node d' (butlast j) = Some Directory" if j: "map_of (disk_files d') j = Some m" for j m
  proof -
    have jd: "map_of (disk_files d) j = Some m" using j wf by (auto simp: d' omap_erase_lookup split: if_splits)
    then have par: "j \<noteq> []" "find_node d (butlast j) = Some Directory"
      using assms(1) by (auto simp: tree_ok_def)
    have "butlast j \<noteq> ?k \<or> ?k = []"
    proof (rule ccontr)
      assume "\<not> (butlast j \<noteq> ?k \<or> ?k = [])"
      then have eq: "butlast j = ?k" by simp
      then have "n = Directory" using par node by simp
      moreover have "j \<in> set (children d ?k)"
        using jd par(1) eq
        by (auto simp: children_def below_def butlast_conv_take image_iff dest: map_of_SomeD
            simp flip: eq intro!: bexI [of _ "(j, m)"])
      ultimately show False using leaf by auto
    qed
    then show ?thesis using par by (simp add: find)
  qed
  moreover have "omap_wf (disk_files d')" using wf by (simp add: d')
  ultimately show ?thesis by (simp add: tree_ok_def)
qed

lemma map_of_filter: "map_of (filter (\<lambda>e. P (fst e)) m) j = (if P j then map_of m j else None)"
  by (induction m) auto

lemma file_remove_all_tree:
  assumes "tree_ok d" "file_remove_all p d = Inr (b, d')"
  shows "tree_ok d'"
proof (cases "p = []")
  case False
  let ?k = "resolve d p"
  have d': "d' = d\<lparr>disk_files := filter (\<lambda>e. \<not> below ?k (fst e)) (disk_files d)\<rparr>"
    using assms(2) False by (auto simp: file_remove_all_def Let_def)
  have find: "map_of (disk_files d') j = (if below ?k j then None else map_of (disk_files d) j)" for j
    by (simp add: d' map_of_filter [where P = "\<lambda>j. \<not> below ?k j"])
  have "j \<noteq> [] \<and> find_node d' (butlast j) = Some Directory" if j: "map_of (disk_files d') j = Some m" for j m
  proof -
    have above: "\<not> below ?k j" "map_of (disk_files d) j = Some m" using j by (auto simp: find split: if_splits)
    then have par: "j \<noteq> []" "find_node d (butlast j) = Some Directory"
      using assms(1) by (auto simp: tree_ok_def)
    then show ?thesis using above(1) below_butlast [of ?k j] by (auto simp: find_node_def find)
  qed
  moreover have "omap_wf (disk_files d')" using assms(1) by (simp add: d' tree_ok_def oset_wf_filter)
  ultimately show ?thesis by (simp add: tree_ok_def)
qed (use assms in \<open>simp add: file_remove_all_def\<close>)

text \<open>Renaming moves a whole subtree.\<close>

lemma fold_put_lookup:
  "map_of (fold (\<lambda>e. omap_put (f (fst e)) (snd e)) es acc) =
     map_of acc ++ map_of (rev (map (\<lambda>e. (f (fst e), snd e)) es))"
proof (induction es arbitrary: acc)
  case (Cons e es)
  show ?case
    unfolding fold.simps comp_apply Cons.IH
    by (auto simp: omap_put_lookup map_add_def fun_eq_iff split: option.split)
qed simp

lemma fold_put_wf: "omap_wf acc \<Longrightarrow> omap_wf (fold (\<lambda>e. omap_put (f (fst e)) (snd e)) es acc)"
  by (induction es arbitrary: acc) simp_all

lemma below_append: "below k i \<Longrightarrow> i = k @ drop (length k) i"
  unfolding below_def by (metis append_take_drop_id)

lemma file_rename_tree:
  assumes tree: "tree_ok d" and run: "file_rename p q d = Inr d'"
  shows "tree_ok d'"
proof (cases "resolve d p = resolve d q")
  case True
  then show ?thesis using assms by (auto simp: file_rename_def Let_def split: option.splits)
next
  case False
  let ?k = "resolve d p" let ?l = "resolve d q" let ?f = "move_key ?k ?l"
  let ?es = "filter (\<lambda>e. \<not> below ?l (fst e)) (disk_files d)"
  have d': "d' = d\<lparr>disk_files := fold (\<lambda>e. omap_put (?f (fst e)) (snd e)) ?es []\<rparr>"
    and k: "?k \<noteq> []" "\<not> below ?k ?l" "parent_is_directory d ?l"
    using run False by (auto simp: file_rename_def Let_def split: option.splits if_splits)
  have wf: "omap_wf (disk_files d)" using tree by (simp add: tree_ok_def)
  have keys: "distinct (map fst ?es)" using wf by (simp add: oset_wf_def strict_sorted_iff distinct_map_filter)
  have apart: "i = j" if "?f i = ?f j" "\<not> below ?l i" "\<not> below ?l j" for i j
  proof -
    have "below ?l (?l @ x)" for x by (simp add: below_def)
    then show ?thesis
      using that below_append [of ?k i] below_append [of ?k j] by (auto simp: move_key_def split: if_splits)
  qed
  have inj: "distinct (map ?f (map fst ?es))"
    using keys apart unfolding distinct_map [of ?f] by (auto simp: inj_on_def)
  have new: "map_of (disk_files d') j = Some m \<longleftrightarrow> (\<exists>i. (i, m) \<in> set (disk_files d) \<and> \<not> below ?l i \<and> ?f i = j)" for j m
  proof -
    have "distinct (map fst (rev (map (\<lambda>e. (?f (fst e), snd e)) ?es)))"
      using inj by (simp add: comp_def rev_map [symmetric])
    then have "map_of (disk_files d') j = Some m \<longleftrightarrow> (j, m) \<in> set (rev (map (\<lambda>e. (?f (fst e), snd e)) ?es))"
      by (simp add: d' fold_put_lookup del: set_rev set_map)
    then show ?thesis by force
  qed
  have old: "(i, m) \<in> set (disk_files d) \<longleftrightarrow> map_of (disk_files d) i = Some m" for i m
    using wf by (simp add: oset_wf_def strict_sorted_iff)
  have dir: "find_node d' (?f j) = Some Directory"
    if "find_node d j = Some Directory" "\<not> below ?l j" "?f j \<noteq> []" "j \<noteq> []" for j
    using that new [of "?f j" Directory] old [of j Directory] by (auto simp: find_node_def)
  have "j \<noteq> [] \<and> find_node d' (butlast j) = Some Directory" if "map_of (disk_files d') j = Some m" for j m
  proof -
    have "\<exists>i. (i, m) \<in> set (disk_files d) \<and> \<not> below ?l i \<and> ?f i = j"
      using that by (simp only: new)
    then obtain i where "(i, m) \<in> set (disk_files d)" and i: "\<not> below ?l i" "?f i = j" by (elim exE conjE)
    then have here: "map_of (disk_files d) i = Some m" by (simp only: old)
    have par: "i \<noteq> []" "find_node d (butlast i) = Some Directory"
      using tree here by (simp_all add: tree_ok_def)
    have l: "?l \<noteq> []" "find_node d (butlast ?l) = Some Directory" using k(3) by (simp_all add: parent_is_directory_def)
    have not_below: "\<not> below ?l (butlast i)" using i(1) par(1) below_butlast [of ?l i] by auto
    consider "i = ?k" | "i \<noteq> ?k" "below ?k i" | "\<not> below ?k i" by blast
    then show ?thesis
    proof cases
      case 1
      then have j: "j = ?l" using i(2) by (simp add: move_key_def below_def)
      have "\<not> below ?l (butlast ?l)" using l(1) by (cases "resolve d q") (simp_all add: below_def butlast_conv_take)
      moreover have "\<not> below ?k (butlast ?l)" using k(2) l(1) below_butlast [of ?k ?l] by auto
      then have "?f (butlast ?l) = butlast ?l" by (simp add: move_key_def)
      ultimately show ?thesis using dir [of "butlast ?l"] l j by (cases "butlast ?l = []") auto
    next
      case 2
      obtain x where x: "i = ?k @ x" "x \<noteq> []" using below_append [OF 2(2)] 2(1) by (cases "drop (length ?k) i") auto
      then have bl: "butlast i = ?k @ butlast x" by (simp add: butlast_append)
      then have "?f (butlast i) = butlast j" "j \<noteq> []" "butlast i \<noteq> []" "butlast j \<noteq> []"
        using x i(2) l(1) k(1) by (auto simp: move_key_def below_def butlast_append)
      then show ?thesis using dir [of "butlast i"] par(2) not_below by simp
    next
      case 3
      then have j: "j = i" using i(2) by (simp add: move_key_def)
      have "\<not> below ?k (butlast i)" using 3 par(1) below_butlast [of ?k i] by auto
      then have "?f (butlast i) = butlast i" by (simp add: move_key_def)
      then show ?thesis using dir [of "butlast i"] par not_below j by (cases "butlast i = []") auto
    qed
  qed
  moreover have "omap_wf (disk_files d')" by (simp add: d' fold_put_wf)
  ultimately show ?thesis by (simp add: tree_ok_def)
qed

end
