(* ===== verification/Metadata_Manager.thy ===== *)
theory Metadata_Manager
  imports Metadata Run
begin

text \<open>
  The metadata database of a peer (\<open>include/chord.fs.metadata.manager.h\<close>,
  \<open>include/chord.i.fs.metadata.manager.h\<close>): a RocksDB store from canonical paths to maps
  from names to entries, iterated in the order of the paths.  The text Boost serialises a
  map to is left out, a stored value is the map.  Errors of the database other than a
  missing key are not modelled.  \<open>Undefined\<close> is the directory entry the code makes from an
  empty set.
\<close>

type_synonym meta_map = "(string \<times> metadata) list"

type_synonym metadata_db = "(string \<times> meta_map) list"

definition as_uri :: "path \<Rightarrow> uri" where
  "as_uri p = new_uri ''chord'' p"

definition db_key :: "uri \<Rightarrow> string" where
  "db_key u = canonical (uri_path u)"

definition extract_metadata_set :: "meta_map \<Rightarrow> metadata_set" where
  "extract_metadata_set m = oset_of meta_name (map snd m)"

subsection \<open>Order of the results\<close>

definition count_slashes :: "string \<Rightarrow> nat" where
  "count_slashes s = length (filter (\<lambda>c. c = slash) s)"

definition uri_descending :: "uri \<Rightarrow> uri \<Rightarrow> bool" where
  "uri_descending l r =
     (let cl = count_slashes (canonical (uri_path l)); cr = count_slashes (canonical (uri_path r))
      in if cl \<noteq> cr then cl > cr else uri_less r l)"

type_synonym uri_meta_map = "(uri \<times> metadata_set) list"

fun umap_update :: "uri \<Rightarrow> (metadata_set \<Rightarrow> metadata_set) \<Rightarrow> uri_meta_map \<Rightarrow> uri_meta_map" where
  "umap_update u f [] = [(u, f [])]"
| "umap_update u f ((v, ms) # m) =
     (if uri_descending u v then (u, f []) # (v, ms) # m
      else if uri_descending v u then (v, ms) # umap_update u f m
      else (v, f ms) # m)"

subsection \<open>Operations\<close>

definition md_put :: "string \<Rightarrow> meta_map \<Rightarrow> metadata_db \<Rightarrow> metadata_db" where
  "md_put k m db = omap_put k m db"

definition insert_entry :: "metadata \<Rightarrow> bool \<times> meta_map \<Rightarrow> bool \<times> meta_map" where
  "insert_entry x s =
     (fst s \<or> map_of (snd s) (meta_name x) = None, omap_put (meta_name x) x (snd s))"

definition insert_all :: "metadata_set \<Rightarrow> meta_map \<Rightarrow> bool \<times> meta_map" where
  "insert_all ms m = fold insert_entry ms (False, m)"

definition md_add :: "uri \<Rightarrow> metadata_set \<Rightarrow> metadata_db \<Rightarrow> bool outcome \<times> metadata_db" where
  "md_add u ms db =
     (let current = (case map_of db (db_key u) of Some m \<Rightarrow> m | None \<Rightarrow> []);
          (added, current) = insert_all ms current
      in if map_of current ''.'' = None then (Returns added, md_put (db_key u) current db)
         else
           (case (create_directory ms ''.'', create_directory ms ''..'') of
              (Some d, Some dd) \<Rightarrow>
                (Returns added, md_put (db_key u) (omap_put ''..'' dd (omap_put ''.'' d current)) db)
            | _ \<Rightarrow> (Undefined, db)))"

definition root_metadata :: metadata where
  "root_metadata = new_metadata ''.'' [] [] perms_all type_directory 0 None None NONE"

definition md_initialize :: "metadata_db \<Rightarrow> metadata_db" where
  "md_initialize db = snd (md_add (as_uri ''/'') [root_metadata] db)"

definition md_get :: "uri \<Rightarrow> metadata_db \<Rightarrow> metadata_set outcome" where
  "md_get u db =
     (case map_of db (uri_path u) of
        None \<Rightarrow> Throws Chord_exception
      | Some m \<Rightarrow> Returns (extract_metadata_set m))"

definition md_dir :: "uri \<Rightarrow> metadata_db \<Rightarrow> metadata_set outcome" where
  "md_dir u db =
     (case map_of db (db_key u) of
        None \<Rightarrow> Throws Chord_exception
      | Some m \<Rightarrow> Returns (extract_metadata_set m))"

definition md_exists :: "uri \<Rightarrow> metadata_db \<Rightarrow> bool" where
  "md_exists u db = (map_of db (uri_path u) \<noteq> None)"

definition md_remove :: "uri \<Rightarrow> metadata_db \<Rightarrow> metadata_db" where
  "md_remove u db = omap_erase (db_key u) db"

definition md_del :: "uri \<Rightarrow> metadata_db \<Rightarrow> metadata_set outcome \<times> metadata_db" where
  "md_del u db =
     (if parent_path (uri_path u) = [] then (Returns [], db)
      else
        (case md_get u db of
           Returns ms \<Rightarrow> (Returns ms, md_remove u db)
         | Throws e \<Rightarrow> (Throws e, db)
         | Undefined \<Rightarrow> (Undefined, db)))"

text \<open>\<open>current[m.name]\<close> makes a default entry for a name that is not there.\<close>

definition take_entry :: "metadata \<Rightarrow> metadata_set \<times> meta_map \<Rightarrow> metadata_set \<times> meta_map" where
  "take_entry x s =
     (meta_insert (case map_of (snd s) (meta_name x) of Some y \<Rightarrow> y | None \<Rightarrow> default_metadata) (fst s),
      omap_erase (meta_name x) (snd s))"

definition take_out :: "metadata_set \<Rightarrow> meta_map \<Rightarrow> metadata_set \<times> meta_map" where
  "take_out ms m = fold take_entry ms ([], m)"

definition md_del_entries ::
  "uri \<Rightarrow> metadata_set \<Rightarrow> bool \<Rightarrow> metadata_db \<Rightarrow> metadata_set outcome \<times> metadata_db" where
  "md_del_entries u ms remove_if_empty db =
     (case map_of db (db_key u) of
        None \<Rightarrow> (Throws Chord_exception, db)
      | Some m \<Rightarrow>
          (let (out, m) = take_out ms m
           in (Returns out,
               if is_empty (extract_metadata_set m) \<and> remove_if_empty then md_remove u db
               else md_put (db_key u) m db)))"

definition md_get_all :: "metadata_db \<Rightarrow> uri_meta_map" where
  "md_get_all db =
     fold (\<lambda>(p, m). umap_update (as_uri p) (\<lambda>_. extract_metadata_set m)) db []"

definition md_get_range :: "(string \<Rightarrow> uuid) \<Rightarrow> uuid \<Rightarrow> uuid \<Rightarrow> metadata_db \<Rightarrow> uri_meta_map" where
  "md_get_range sha256 from_id to_id db =
     fold (\<lambda>(p, m) ret.
       if uuid_between (sha256 (uri_string (as_uri p))) from_id to_id
       then umap_update (as_uri p) (\<lambda>_. extract_metadata_set m) ret else ret) db []"

definition md_select :: "(metadata \<Rightarrow> bool) \<Rightarrow> metadata_db \<Rightarrow> uri_meta_map" where
  "md_select P db =
     fold (\<lambda>(p, m) ret.
       fold (\<lambda>(_, x) ret. if P x then umap_update (as_uri p) (meta_insert x) ret else ret) m ret) db []"

definition md_get_shallow_copies :: "node \<Rightarrow> metadata_db \<Rightarrow> uri_meta_map" where
  "md_get_shallow_copies n db = md_select (\<lambda>x. meta_node_ref x = Some n) db"

definition md_get_replicated :: "32 word \<Rightarrow> metadata_db \<Rightarrow> uri_meta_map" where
  "md_get_replicated min_idx db =
     md_select (\<lambda>x. meta_file_type x \<noteq> type_directory \<and> repl_count (meta_replication x) > 1 \<and>
       repl_index (meta_replication x) \<ge> min_idx) db"

subsection \<open>Invariant\<close>

definition map_ok :: "meta_map \<Rightarrow> bool" where
  "map_ok m = (omap_wf m \<and> (\<forall>(n, x)\<in>set m. meta_name x = n))"

definition db_ok :: "metadata_db \<Rightarrow> bool" where
  "db_ok db = (omap_wf db \<and> (\<forall>(p, m)\<in>set db. map_ok m))"

lemma map_ok_names: "map_ok m \<Longrightarrow> map meta_name (map snd m) = map fst m"
  by (auto simp: map_ok_def)

lemma extract_ok: "map_ok m \<Longrightarrow> extract_metadata_set m = map snd m"
proof -
  assume m: "map_ok m"
  have "meta_wf (map snd m)"
    unfolding oset_wf_def map_ok_names [OF m] using m by (simp add: map_ok_def oset_wf_def)
  then show ?thesis by (simp add: extract_metadata_set_def oset_of_id)
qed

lemma set_omap_put_subset: "set (omap_put k v m) \<subseteq> insert (k, v) (set m)"
  by (induction k v m rule: omap_put.induct) auto

lemma map_ok_put: "map_ok m \<Longrightarrow> meta_name x = k \<Longrightarrow> map_ok (omap_put k x m)"
  using set_omap_put_subset [of k x m] by (fastforce simp: map_ok_def)

lemma map_ok_erase: "map_ok m \<Longrightarrow> map_ok (omap_erase k m)"
  using omap_erase_subset [of k m] by (auto simp: map_ok_def)

lemma map_ok_Nil [simp]: "map_ok []"
  by (simp add: map_ok_def)

lemma db_ok_put: "db_ok db \<Longrightarrow> map_ok m \<Longrightarrow> db_ok (md_put k m db)"
  using set_omap_put_subset [of k m db] by (fastforce simp: db_ok_def md_put_def)

lemma db_ok_remove: "db_ok db \<Longrightarrow> db_ok (md_remove u db)"
  using omap_erase_subset [of "db_key u" db] by (auto simp: db_ok_def md_remove_def)

lemma db_ok_lookup: "db_ok db \<Longrightarrow> map_of db k = Some m \<Longrightarrow> map_ok m"
  by (auto simp: db_ok_def dest!: map_of_SomeD)

lemma fold_insert_ok: "map_ok (snd s) \<Longrightarrow> map_ok (snd (fold insert_entry ms s))"
  by (induction ms arbitrary: s) (simp_all add: insert_entry_def map_ok_put)

lemma insert_all_ok: "map_ok m \<Longrightarrow> map_ok (snd (insert_all ms m))"
  by (simp add: insert_all_def fold_insert_ok)

lemma create_directory_name: "create_directory ms n = Some d \<Longrightarrow> meta_name d = n"
  by (auto simp: create_directory_def create_directory_named_def)

lemma md_add_ok: "db_ok db \<Longrightarrow> db_ok (snd (md_add u ms db))"
proof -
  assume db: "db_ok db"
  let ?cur = "case map_of db (db_key u) of Some m \<Rightarrow> m | None \<Rightarrow> []"
  have "map_ok ?cur" using db_ok_lookup [OF db] by (auto split: option.split)
  then have "map_ok (snd (insert_all ms ?cur))" by (rule insert_all_ok)
  then show ?thesis
    using db create_directory_name
    by (auto simp: md_add_def Let_def intro!: db_ok_put map_ok_put split: prod.split option.split)
qed

lemma md_del_ok: "db_ok db \<Longrightarrow> db_ok (snd (md_del u db))"
  by (auto simp: md_del_def db_ok_remove split: outcome.split)

lemma fold_take_ok: "map_ok (snd s) \<Longrightarrow> map_ok (snd (fold take_entry ms s))"
  by (induction ms arbitrary: s) (simp_all add: take_entry_def map_ok_erase)

lemma md_del_entries_ok: "db_ok db \<Longrightarrow> db_ok (snd (md_del_entries u ms b db))"
proof (cases "map_of db (db_key u)")
  case (Some m)
  assume db: "db_ok db"
  have "map_ok (snd (take_out ms m))"
    using db_ok_lookup [OF db Some] by (simp add: take_out_def fold_take_ok)
  then show ?thesis
    using db Some by (auto simp: md_del_entries_def db_ok_remove db_ok_put split: prod.split)
qed (simp add: md_del_entries_def)

subsection \<open>What is read back\<close>

lemma fold_insert_lookup:
  "map_of (snd (fold insert_entry ms s)) =
   map_of (snd s) ++ map_of (rev (map (\<lambda>x. (meta_name x, x)) ms))"
proof (induction ms arbitrary: s)
  case (Cons x ms)
  show ?case
    using Cons.IH [of "insert_entry x s"]
    by (auto simp: insert_entry_def [of x] omap_put_lookup map_add_def fun_eq_iff split: option.split)
qed simp

lemma insert_all_lookup:
  assumes "meta_wf ms"
  shows "map_of (snd (insert_all ms m)) n =
    (if \<exists>x\<in>set ms. meta_name x = n then Some (THE x. x \<in> set ms \<and> meta_name x = n) else map_of m n)"
proof -
  let ?kv = "map (\<lambda>x. (meta_name x, x)) ms"
  have dist: "distinct (map fst (rev ?kv))"
    using assms by (simp add: oset_wf_def comp_def strict_sorted_iff rev_map [symmetric])
  show ?thesis
  proof (cases "\<exists>x\<in>set ms. meta_name x = n")
    case True
    then obtain x where x: "x \<in> set ms" "meta_name x = n" by blast
    have the: "(THE x. x \<in> set ms \<and> meta_name x = n) = x"
      using x oset_wf_inj [OF assms] by blast
    have "map_of (rev ?kv) n = Some x" using x dist by (auto simp: image_iff)
    then show ?thesis using True the by (simp add: insert_all_def fold_insert_lookup map_add_def)
  next
    case False
    then have "map_of (rev ?kv) n = None" by (auto simp: map_of_eq_None_iff)
    then show ?thesis using False by (simp add: insert_all_def fold_insert_lookup map_add_def)
  qed
qed

definition uri_ok :: "uri \<Rightarrow> bool" where
  "uri_ok u = (canonical (uri_path u) = uri_path u)"

lemma as_uri_ok [simp]: "uri_ok (as_uri p)"
  by (simp add: uri_ok_def as_uri_def new_uri_def)

definition plain_name :: "metadata \<Rightarrow> bool" where
  "plain_name x = (meta_name x \<noteq> ''.'' \<and> meta_name x \<noteq> ''..'')"

lemma insert_all_keeps:
  assumes "meta_wf ms" "x \<in> set ms"
  shows "map_of (snd (insert_all ms m)) (meta_name x) = Some x"
proof -
  have "(THE y. y \<in> set ms \<and> meta_name y = meta_name x) = x"
    using assms oset_wf_inj [OF assms(1)] by blast
  then show ?thesis using insert_all_lookup [OF assms(1), of m "meta_name x"] assms(2) by auto
qed

lemma insert_all_added:
  assumes "meta_wf ms"
  shows "fst (insert_all ms m) \<longleftrightarrow> (\<exists>x\<in>set ms. map_of m (meta_name x) = None)"
proof -
  have "fst (fold insert_entry ms s) \<longleftrightarrow> fst s \<or> (\<exists>x\<in>set ms. map_of (snd s) (meta_name x) = None)"
    if "distinct (map meta_name ms)" for s
    using that
  proof (induction ms arbitrary: s)
    case (Cons x ms)
    have other: "y \<in> set ms \<Longrightarrow> meta_name y \<noteq> meta_name x" for y
      using Cons.prems by (auto simp: image_iff)
    have "fst (fold insert_entry ms (insert_entry x s)) \<longleftrightarrow> fst (insert_entry x s) \<or>
        (\<exists>y\<in>set ms. map_of (snd (insert_entry x s)) (meta_name y) = None)"
      using Cons by simp
    also have "(\<exists>y\<in>set ms. map_of (snd (insert_entry x s)) (meta_name y) = None) \<longleftrightarrow>
        (\<exists>y\<in>set ms. map_of (snd s) (meta_name y) = None)"
      using other by (auto simp: insert_entry_def omap_put_lookup)
    finally show ?case by (auto simp: insert_entry_def)
  qed simp
  then show ?thesis using assms by (simp add: insert_all_def oset_wf_def strict_sorted_iff)
qed

lemma md_add_result:
  assumes db: "db_ok db" and ms: "meta_wf ms" and run: "md_add u ms db = (Returns b, db')"
  shows "\<exists>m. map_of db' (db_key u) = Some m \<and> map_ok m \<and>
      (\<forall>x\<in>set ms. plain_name x \<longrightarrow> map_of m (meta_name x) = Some x)"
    and "k \<noteq> db_key u \<Longrightarrow> map_of db' k = map_of db k"
    and "b \<longleftrightarrow> (\<exists>x\<in>set ms. \<forall>m. map_of db (db_key u) = Some m \<longrightarrow> map_of m (meta_name x) = None)"
proof -
  let ?cur = "case map_of db (db_key u) of Some m \<Rightarrow> m | None \<Rightarrow> []"
  have cur: "map_ok ?cur" using db_ok_lookup [OF db] by (auto split: option.split)
  let ?m = "snd (insert_all ms ?cur)"
  have m: "map_ok ?m" using cur by (rule insert_all_ok)
  have lookup: "\<forall>x\<in>set ms. map_of ?m (meta_name x) = Some x" using insert_all_keeps [OF ms] by blast
  have "\<exists>m'. db' = md_put (db_key u) m' db \<and> map_ok m' \<and>
      (\<forall>x\<in>set ms. plain_name x \<longrightarrow> map_of m' (meta_name x) = Some x)"
    using run m lookup create_directory_name
    by (auto simp: md_add_def Let_def plain_name_def omap_put_lookup map_ok_put
        split: prod.splits if_splits option.splits)
  then obtain m' where m': "db' = md_put (db_key u) m' db" "map_ok m'"
    "\<forall>x\<in>set ms. plain_name x \<longrightarrow> map_of m' (meta_name x) = Some x" by blast
  then show "\<exists>m. map_of db' (db_key u) = Some m \<and> map_ok m \<and>
      (\<forall>x\<in>set ms. plain_name x \<longrightarrow> map_of m (meta_name x) = Some x)"
    by (simp add: md_put_def omap_put_lookup)
  show "k \<noteq> db_key u \<Longrightarrow> map_of db' k = map_of db k"
    using m'(1) by (simp add: md_put_def omap_put_lookup)
  have "b = fst (insert_all ms ?cur)"
    using run by (auto simp: md_add_def Let_def split: prod.splits if_splits option.splits)
  then show "b \<longleftrightarrow> (\<exists>x\<in>set ms. \<forall>m. map_of db (db_key u) = Some m \<longrightarrow> map_of m (meta_name x) = None)"
    using insert_all_added [OF ms] by (auto split: option.splits)
qed

lemma md_del_result:
  assumes db: "db_ok db" and run: "md_del u db = (Returns ms, db')"
    and p: "parent_path (uri_path u) \<noteq> []" "uri_ok u"
  shows "md_get u db = Returns ms" "map_of db' (uri_path u) = None"
    "k \<noteq> uri_path u \<Longrightarrow> map_of db' k = map_of db k"
proof -
  have "omap_wf db" using db by (simp add: db_ok_def)
  moreover have "db' = md_remove u db \<and> md_get u db = Returns ms"
    using run p by (auto simp: md_del_def split: outcome.splits)
  ultimately show "md_get u db = Returns ms" "map_of db' (uri_path u) = None"
    "k \<noteq> uri_path u \<Longrightarrow> map_of db' k = map_of db k"
    using p(2) by (simp_all add: md_remove_def omap_erase_lookup db_key_def uri_ok_def)
qed

lemma md_get_wf: "db_ok db \<Longrightarrow> md_get u db = Returns ms \<Longrightarrow> meta_wf ms"
  by (auto simp: md_get_def extract_metadata_set_def split: option.splits)

subsection \<open>The interface the file system uses\<close>

text \<open>\<open>IMetadataManager\<close> as the service and the facade see it: what was added is read back, what
  was deleted is gone, other paths are not touched.\<close>

locale metadata_store =
  fixes inv :: "'s \<Rightarrow> bool"
    and exists :: "uri \<Rightarrow> 's \<Rightarrow> bool"
    and get :: "uri \<Rightarrow> 's \<Rightarrow> metadata_set outcome"
    and add :: "uri \<Rightarrow> metadata_set \<Rightarrow> 's \<Rightarrow> bool outcome \<times> 's"
    and del :: "uri \<Rightarrow> 's \<Rightarrow> metadata_set outcome \<times> 's"
  assumes get_iff: "(\<exists>ms. get u s = Returns ms) \<longleftrightarrow> exists u s"
    and get_wf: "inv s \<Longrightarrow> get u s = Returns ms \<Longrightarrow> meta_wf ms"
    and add_inv: "inv s \<Longrightarrow> inv (snd (add u ms s))"
    and add_get: "inv s \<Longrightarrow> uri_ok u \<Longrightarrow> meta_wf ms \<Longrightarrow> add u ms s = (Returns b, s') \<Longrightarrow>
      \<exists>ns. get u s' = Returns ns \<and> {x \<in> set ms. plain_name x} \<subseteq> set ns"
    and add_frame: "inv s \<Longrightarrow> uri_ok u \<Longrightarrow> meta_wf ms \<Longrightarrow> add u ms s = (Returns b, s') \<Longrightarrow>
      uri_path v \<noteq> uri_path u \<Longrightarrow> get v s' = get v s"
    and del_inv: "inv s \<Longrightarrow> inv (snd (del u s))"
    and del_get: "inv s \<Longrightarrow> uri_ok u \<Longrightarrow> parent_path (uri_path u) \<noteq> [] \<Longrightarrow> del u s = (Returns ms, s') \<Longrightarrow>
      get u s = Returns ms \<and> \<not> exists u s'"
    and del_frame: "inv s \<Longrightarrow> uri_ok u \<Longrightarrow> parent_path (uri_path u) \<noteq> [] \<Longrightarrow>
      del u s = (Returns ms, s') \<Longrightarrow> uri_path v \<noteq> uri_path u \<Longrightarrow> get v s' = get v s"
begin

lemma exists_after_add:
  "inv s \<Longrightarrow> uri_ok u \<Longrightarrow> meta_wf ms \<Longrightarrow> add u ms s = (Returns b, s') \<Longrightarrow> exists u s'"
  using add_get get_iff by blast

text \<open>Deleting an entry set and adding it again, as a failed transfer does, brings back every
  entry but the directory's own.\<close>

lemma restore:
  assumes "inv s" "uri_ok u" "parent_path (uri_path u) \<noteq> []"
    and "del u s = (Returns ms, s1)" "add u ms s1 = (Returns b, s2)"
  shows "\<exists>ns. get u s2 = Returns ns \<and> {x \<in> set ms. plain_name x} \<subseteq> set ns"
    and "uri_path v \<noteq> uri_path u \<Longrightarrow> get v s2 = get v s"
proof -
  have s1: "inv s1" using del_inv [OF assms(1), of u] assms(4) by simp
  have "get u s = Returns ms" using del_get [OF assms(1-4)] by simp
  then have wf: "meta_wf ms" using get_wf [OF assms(1)] by blast
  show "\<exists>ns. get u s2 = Returns ns \<and> {x \<in> set ms. plain_name x} \<subseteq> set ns"
    using add_get [OF s1 assms(2) wf assms(5)] .
  show "uri_path v \<noteq> uri_path u \<Longrightarrow> get v s2 = get v s"
    using add_frame [OF s1 assms(2) wf assms(5)] del_frame [OF assms(1-4)] by simp
qed

end

interpretation md: metadata_store db_ok md_exists md_get md_add md_del
proof
  fix u v s ms b s'
  show "(\<exists>ms. md_get u s = Returns ms) \<longleftrightarrow> md_exists u s"
    by (auto simp: md_get_def md_exists_def split: option.split)
  show "db_ok s \<Longrightarrow> md_get u s = Returns ms \<Longrightarrow> meta_wf ms" by (rule md_get_wf)
  show "db_ok s \<Longrightarrow> db_ok (snd (md_add u ms s))" by (rule md_add_ok)
  show "db_ok s \<Longrightarrow> db_ok (snd (md_del u s))" by (rule md_del_ok)
  { assume a: "db_ok s" "uri_ok u" "meta_wf ms" "md_add u ms s = (Returns b, s')"
    then obtain m where m: "map_of s' (uri_path u) = Some m" "map_ok m"
      "\<forall>x\<in>set ms. plain_name x \<longrightarrow> map_of m (meta_name x) = Some x"
      using md_add_result(1) [OF a(1,3,4)] by (auto simp: db_key_def uri_ok_def)
    then have "x \<in> set (map snd m)" if "x \<in> set ms" "plain_name x" for x
      using that by (force dest: map_of_SomeD)
    then show "\<exists>ns. md_get u s' = Returns ns \<and> {x \<in> set ms. plain_name x} \<subseteq> set ns"
      using m by (auto simp: md_get_def extract_ok)
    show "uri_path v \<noteq> uri_path u \<Longrightarrow> md_get v s' = md_get v s"
      using md_add_result(2) [OF a(1,3,4)] a(2) by (simp add: md_get_def db_key_def uri_ok_def) }
  { assume d: "db_ok s" "uri_ok u" "parent_path (uri_path u) \<noteq> []" "md_del u s = (Returns ms, s')"
    show "md_get u s = Returns ms \<and> \<not> md_exists u s'"
      using md_del_result(1,2) [OF d(1,4,3,2)] by (simp add: md_exists_def)
    show "uri_path v \<noteq> uri_path u \<Longrightarrow> md_get v s' = md_get v s"
      using md_del_result(3) [OF d(1,4,3,2)] by (simp add: md_get_def) }
qed

lemma create_directory_some: "ms \<noteq> [] \<Longrightarrow> \<exists>d. create_directory ms n = Some d"
  by (cases ms) (simp_all add: create_directory_def max_replication_index_zero_def max_replication_def)

lemma md_add_fresh:
  assumes "map_of db (db_key u) = None"
  shows "\<exists>b db'. md_add u ms db = (Returns b, db')"
proof (cases "ms = []")
  case True
  then show ?thesis using assms by (auto simp: md_add_def insert_all_def intro!: exI [of _ False])
next
  case False
  then obtain d dd where "create_directory ms ''.'' = Some d" "create_directory ms ''..'' = Some dd"
    using create_directory_some by blast
  then show ?thesis using assms by (simp add: md_add_def split: prod.split)
qed

end
