(* ===== verification/Metadata_Builder.thy ===== *)
theory Metadata_Builder
  imports Context_Metadata File_System Messages Metadata_Manager
begin

text \<open>
  Metadata from local files and from messages, and back
  (\<open>include/chord.fs.metadata.builder.h\<close>, the messages of \<open>proto/chord_fs.proto\<close>,
  \<open>src/chord.fs.common.cc\<close>, parts of \<open>src/chord.utils.cc\<close> and \<open>src/chord.fs.util.cc\<close>).  The
  hash of a file is the parameter \<open>sha256\<close>, that of OpenSSL.  Identifiers in messages are
  decoded: an empty \<open>file_hash\<close> text is \<open>None\<close>.
\<close>

subsection \<open>Messages\<close>

record data_message =
  data_type :: "32 word"
  data_size :: "64 word"
  data_permissions :: "32 word"
  data_filename :: string
  data_owner :: string
  data_group :: string
  data_replication_idx :: "32 word"
  data_replication_cnt :: "32 word"
  data_file_hash :: "uuid option"
  data_node_ref :: "entry option"

definition empty_data :: data_message where
  "empty_data =
     \<lparr>data_type = 0, data_size = 0, data_permissions = 0, data_filename = [], data_owner = [],
      data_group = [], data_replication_idx = 0, data_replication_cnt = 0,
      data_file_hash = None, data_node_ref = None\<rparr>"

datatype action = ADD | DEL | DIR

record meta_request =
  mreq_id :: uuid
  mreq_uri :: string
  mreq_action :: action
  mreq_metadata :: "data_message list"

record meta_response =
  mres_uri :: string
  mres_node_ref :: "entry option"
  mres_metadata :: "data_message list"

definition empty_meta_response :: meta_response where
  "empty_meta_response = \<lparr>mres_uri = [], mres_node_ref = None, mres_metadata = []\<rparr>"

record del_request =
  dreq_id :: uuid
  dreq_uri :: string
  dreq_recursive :: bool

record mov_request =
  vreq_src :: string
  vreq_dst :: string
  vreq_force :: bool

record get_request =
  greq_id :: uuid
  greq_uri :: string

subsection \<open>Results\<close>

definition is_successful :: "status_code \<Rightarrow> bool" where
  "is_successful st = (st = OK \<or> st = ALREADY_EXISTS)"

text \<open>The exceptions of the parts below, as the run monad has them.\<close>

definition uri_result :: "uri_error + uri \<Rightarrow> uri outcome" where
  "uri_result r =
     (case r of
        Inr u \<Rightarrow> Returns u
      | Inl Uri_port_range \<Rightarrow> Throws Std_exception
      | Inl _ \<Rightarrow> Throws Chord_exception)"

definition fs_result :: "fs_error + 'a \<Rightarrow> 'a outcome" where
  "fs_result r = (case r of Inr x \<Rightarrow> Returns x | Inl _ \<Rightarrow> Throws Std_exception)"

definition required :: "'a option \<Rightarrow> 'a outcome" where
  "required x = (case x of Some y \<Rightarrow> Returns y | None \<Rightarrow> Undefined)"

subsection \<open>From local files\<close>

text \<open>\<open>file_size\<close> of a directory throws, so only regular files get through; the loop over the
  contents at the end of the code then has nothing to visit, see \<open>regular_no_contents\<close>.\<close>

definition metadata_from_path ::
  "(string \<Rightarrow> uuid) \<Rightarrow> disk \<Rightarrow> path \<Rightarrow> replication \<Rightarrow> metadata outcome" where
  "metadata_from_path sha256 d local_path repl =
     (if \<not> file_exists d local_path then Throws Chord_exception
      else
        (case (file_size d local_path, file_content d local_path) of
           (Inr n, Some content) \<Rightarrow>
             Returns (new_metadata (filename local_path) [] [] perms_all
               (if file_is_directory d local_path then type_directory else type_regular)
               (of_nat n)
               (if file_is_regular d local_path then Some (sha256 content) else None) None repl)
         | _ \<Rightarrow> Throws Std_exception))"

fun add_contents ::
  "(string \<Rightarrow> uuid) \<Rightarrow> disk \<Rightarrow> replication \<Rightarrow> path list \<Rightarrow> metadata_set \<Rightarrow> metadata_set outcome" where
  "add_contents sha256 d repl [] ms = Returns ms"
| "add_contents sha256 d repl (p # ps) ms =
     (case metadata_from_path sha256 d p repl of
        Returns m \<Rightarrow> add_contents sha256 d repl ps (meta_insert m ms)
      | Throws e \<Rightarrow> Throws e
      | Undefined \<Rightarrow> Undefined)"

definition for_path ::
  "(string \<Rightarrow> uuid) \<Rightarrow> peer_context \<Rightarrow> disk \<Rightarrow> path \<Rightarrow> replication \<Rightarrow> metadata_set outcome" where
  "for_path sha256 ctx d chord_path repl =
     (let local_path = path_append (ctx_data_directory ctx) chord_path in
      if \<not> file_exists d local_path then Throws Chord_exception
      else
        (case metadata_from_path sha256 d local_path repl of
           Throws e \<Rightarrow> Throws e
         | Undefined \<Rightarrow> Undefined
         | Returns root \<Rightarrow>
             let root = (if meta_file_type root = type_directory then root\<lparr>meta_name := ''.''\<rparr> else root)
             in (case contents d local_path of
                   Inl _ \<Rightarrow> Throws Std_exception
                 | Inr ps \<Rightarrow> add_contents sha256 d repl ps [root])))"

definition builder_directory :: "path \<Rightarrow> metadata" where
  "builder_directory p = create_directory_named (filename p)"

definition builder_directory_uri :: "uri \<Rightarrow> replication \<Rightarrow> metadata" where
  "builder_directory_uri u repl =
     new_metadata (filename (uri_path u)) [] [] perms_all type_directory 0 None None repl"

subsection \<open>From and to messages\<close>

definition metadata_from_data :: "data_message \<Rightarrow> metadata" where
  "metadata_from_data item =
     new_metadata (data_filename item) [] [] (data_permissions item) (data_type item) (data_size item)
       (data_file_hash item) (map_option make_node (data_node_ref item))
       (new_replication (data_replication_idx item) (data_replication_cnt item))"

definition metadata_from_request :: "meta_request \<Rightarrow> metadata_set outcome" where
  "metadata_from_request req =
     (if mreq_metadata req = [] then Throws Chord_exception
      else Returns (oset_of meta_name (map metadata_from_data (mreq_metadata req))))"

definition metadata_from_response :: "meta_response \<Rightarrow> metadata_set" where
  "metadata_from_response res = oset_of meta_name (map metadata_from_data (mres_metadata res))"

definition node_of_response :: "meta_response \<Rightarrow> node option" where
  "node_of_response res = map_option make_node (mres_node_ref res)"

definition response_data :: "metadata \<Rightarrow> data_message" where
  "response_data m =
     (let d = empty_data\<lparr>data_filename := meta_name m, data_type := meta_file_type m,
                data_size := meta_file_size m, data_permissions := meta_permissions m,
                data_file_hash := meta_file_hash m\<rparr>
      in if replicated (meta_replication m)
         then d\<lparr>data_replication_idx := repl_index (meta_replication m),
                data_replication_cnt := repl_count (meta_replication m)\<rparr>
         else d)"

definition add_to_response :: "metadata_set \<Rightarrow> meta_response \<Rightarrow> meta_response" where
  "add_to_response ms res = res\<lparr>mres_metadata := mres_metadata res @ map response_data ms\<rparr>"

text \<open>\<open>Client::meta\<close> fills the messages of a request itself: the size is left out.\<close>

definition request_data :: "metadata \<Rightarrow> data_message" where
  "request_data m =
     empty_data\<lparr>data_filename := meta_name m, data_type := meta_file_type m,
       data_permissions := meta_permissions m, data_owner := meta_owner m, data_group := meta_group m,
       data_node_ref := map_option make_entry (meta_node_ref m), data_file_hash := meta_file_hash m,
       data_replication_idx := repl_index (meta_replication m),
       data_replication_cnt := repl_count (meta_replication m)\<rparr>"

text \<open>A map keyed by \<open>Replication\<close> compares the counts only.\<close>

fun group_insert ::
  "replication \<Rightarrow> metadata \<Rightarrow> (replication \<times> metadata_set) list \<Rightarrow> (replication \<times> metadata_set) list" where
  "group_insert r m [] = [(r, [m])]"
| "group_insert r m ((q, ms) # g) =
     (if repl_less r q then (r, [m]) # (q, ms) # g
      else if repl_less q r then (q, ms) # group_insert r m g
      else (q, meta_insert m ms) # g)"

definition group_by_replication :: "metadata_set \<Rightarrow> (replication \<times> metadata_set) list" where
  "group_by_replication ms =
     fold (\<lambda>m g.
       let repl = meta_replication m in
       if \<not> replicated repl \<or> repl_index repl \<ge> repl_count repl - 1 then g
       else group_insert repl m g) ms []"

subsection \<open>Addresses and local paths\<close>

definition port_of :: "string \<Rightarrow> string option" where
  "port_of addr = (if CHR '':'' \<in> set addr then Some (after_last CHR '':'' addr) else None)"

definition default_port :: string where
  "default_port = ''50050''"

definition port_of_context :: "peer_context \<Rightarrow> string" where
  "port_of_context ctx =
     (case port_of (ctx_advertise_addr ctx) of Some p \<Rightarrow> p | None \<Rightarrow> default_port)"

text \<open>\<open>chord::fs::util::remove\<close>; the lock that hides the removal from the monitor is left out.\<close>

definition util_remove :: "peer_context \<Rightarrow> uri \<Rightarrow> disk \<Rightarrow> fs_error + (bool \<times> disk)" where
  "util_remove ctx u d = file_remove (path_append (ctx_data_directory ctx) (uri_path u)) d"

text \<open>The same with the removal of emptied parent directories; the fuel is the length of the path,
  whose parents get shorter.\<close>

fun remove_parents :: "nat \<Rightarrow> path \<Rightarrow> path \<Rightarrow> disk \<Rightarrow> fs_error + (bool \<times> disk)" where
  "remove_parents 0 data parent d = Inr (False, d)"
| "remove_parents (Suc n) data parent d =
     (if path_less data parent \<and> file_exists d parent then
        (case file_is_empty d parent of
           Inl e \<Rightarrow> Inl e
         | Inr False \<Rightarrow> Inr (False, d)
         | Inr True \<Rightarrow>
             (case file_remove parent d of
                Inl e \<Rightarrow> Inl e
              | Inr (b, d) \<Rightarrow>
                  (case remove_parents n data (parent_path parent) d of
                     Inl e \<Rightarrow> Inl e
                   | Inr (c, d) \<Rightarrow> Inr (b \<or> c, d))))
      else Inr (False, d))"

definition util_remove_empty :: "peer_context \<Rightarrow> uri \<Rightarrow> disk \<Rightarrow> fs_error + (bool \<times> disk)" where
  "util_remove_empty ctx u d =
     (let p = path_append (ctx_data_directory ctx) (uri_path u) in
      case file_remove p d of
        Inl e \<Rightarrow> Inl e
      | Inr (b, d) \<Rightarrow>
          (case remove_parents (length p) (ctx_data_directory ctx) (canonical (parent_path p)) d of
             Inl e \<Rightarrow> Inl e
           | Inr (c, d) \<Rightarrow> Inr (b \<or> c, d)))"

definition as_journal_path :: "peer_context \<Rightarrow> path \<Rightarrow> disk \<Rightarrow> fs_error + (path \<times> disk)" where
  "as_journal_path ctx p d =
     (let parent = path_append (journal_directory ctx) (parent_path p) in
      if file_exists d parent then Inr (path_append parent (filename p), d)
      else
        (case file_create_directories parent d of
           Inl e \<Rightarrow> Inl e
         | Inr (_, d) \<Rightarrow> Inr (path_append parent (filename p), d)))"

subsection \<open>What survives a message\<close>

lemma regular_no_contents: "file_size d p = Inr n \<Longrightarrow> contents d p = Inr []"
  by (auto simp: file_size_def contents_def split: option.splits file_node.splits)

lemma file_size_content: "file_size d p = Inr n \<longleftrightarrow> (\<exists>s. file_content d p = Some s \<and> n = length s)"
  by (auto simp: file_size_def file_content_def split: option.splits file_node.splits)

lemma file_content_regular: "file_content d p = Some s \<Longrightarrow>
    p \<noteq> [] \<and> file_exists d p \<and> file_is_regular d p \<and> \<not> file_is_directory d p"
  by (auto simp: file_content_def file_exists_def file_is_regular_def file_is_directory_def find_path_Some
      split: option.splits file_node.splits)

lemma for_path_regular:
  assumes "file_content d p = Some s" and p: "p = path_append (ctx_data_directory ctx) cp"
  shows "for_path sha256 ctx d cp repl =
    Returns [new_metadata (filename p) [] [] perms_all type_regular (of_nat (length s)) (Some (sha256 s)) None repl]"
proof -
  have size: "file_size d p = Inr (length s)" using assms(1) by (simp add: file_size_content)
  have kind: "file_exists d p" "file_is_regular d p" "\<not> file_is_directory d p"
    using file_content_regular [OF assms(1)] by blast+
  have "type_regular \<noteq> type_directory" by (simp add: type_regular_def type_directory_def)
  then show ?thesis
    using size kind assms(1) regular_no_contents [OF size]
    by (simp add: for_path_def p [symmetric] metadata_from_path_def new_metadata_def)
qed

text \<open>A request carries an entry without its owner, group and size; a response also drops the
  reference, and a replication that is not replicated comes back as (0, 0).\<close>

lemma request_round_trip:
  "metadata_from_data (request_data m) =
     m\<lparr>meta_owner := [], meta_group := [], meta_file_size := 0\<rparr>"
  by (cases m; cases "meta_replication m"; cases "meta_node_ref m")
    (simp_all add: metadata_from_data_def request_data_def empty_data_def new_metadata_def
      new_replication_def)

lemma response_round_trip:
  "metadata_from_data (response_data m) =
     m\<lparr>meta_owner := [], meta_group := [], meta_node_ref := None,
       meta_replication := (if replicated (meta_replication m) then meta_replication m
                            else \<lparr>repl_index = 0, repl_count = 0\<rparr>)\<rparr>"
  by (cases m; cases "meta_replication m")
    (simp add: metadata_from_data_def response_data_def empty_data_def new_metadata_def
      new_replication_def Let_def)

lemma response_set_round_trip:
  assumes "meta_wf ms"
  shows "metadata_from_response (add_to_response ms empty_meta_response) =
    map (\<lambda>m. metadata_from_data (response_data m)) ms"
proof -
  have "meta_wf (map (\<lambda>m. metadata_from_data (response_data m)) ms)"
    using assms by (rule meta_wf_map [rotated]) (simp add: response_round_trip)
  then show ?thesis
    by (simp add: metadata_from_response_def add_to_response_def empty_meta_response_def comp_def
        oset_of_id)
qed

lemma request_set_round_trip:
  assumes "meta_wf ms" "ms \<noteq> []" "mreq_metadata req = map request_data ms"
  shows "metadata_from_request req =
    Returns (map (\<lambda>m. m\<lparr>meta_owner := [], meta_group := [], meta_file_size := 0\<rparr>) ms)"
proof -
  have "meta_wf (map (\<lambda>m. m\<lparr>meta_owner := [], meta_group := [], meta_file_size := 0\<rparr>) ms)"
    using assms(1) by (rule meta_wf_map [rotated]) simp
  then show ?thesis
    using assms(2,3) by (simp add: metadata_from_request_def comp_def request_round_trip oset_of_id)
qed

end
