(* ===== verification/Fs_Peers.thy ===== *)
theory Fs_Peers
  imports Metadata_Builder Chord_Facade
begin

text \<open>
  The processes of the file system and the calls between them.  A process of the ring also
  keeps a metadata database and a local disk; the configuration is the one of its ring peer.
  The file system asks the ring for successors through \<open>ChordFacade::successor\<close>.  The
  environment \<open>fs_env\<close> holds what the code takes from outside: the stubs of both services,
  the hash of OpenSSL and the text of an identifier.  A call has gRPC metadata beside its
  request.  The streams are lists of chunks: a \<open>put\<close> offers its chunks, which the server reads
  unless it finds the hashes equal, and a \<open>get\<close> returns the chunks it wrote.
\<close>

record storage =
  store_db :: metadata_db
  store_disk :: disk

record fs_world =
  ring :: world
  stores :: "endpoint \<Rightarrow> storage"

type_synonym ('req, 'res) fs_stub =
  "endpoint \<Rightarrow> endpoint \<Rightarrow> call_metadata \<Rightarrow> 'req \<Rightarrow> fs_world
    \<Rightarrow> ((status_code \<times> 'res) \<times> fs_world) option"

record fs_stubs =
  rpc_put :: "(string list, unit) fs_stub"
  rpc_get :: "(get_request, string list) fs_stub"
  rpc_del :: "(del_request, unit) fs_stub"
  rpc_mov :: "(mov_request, unit) fs_stub"
  rpc_meta :: "(meta_request, meta_response) fs_stub"

record fs_env =
  env_ring :: stubs
  env_fs :: fs_stubs
  env_sha256 :: "string \<Rightarrow> uuid"
  env_utext :: "uuid \<Rightarrow> string"
  env_uparse :: "string \<Rightarrow> uuid"

type_synonym 'a fs_run = "(fs_world, 'a) run"

subsection \<open>A process reading and writing its own state\<close>

definition my_ctx :: "endpoint \<Rightarrow> fs_world \<Rightarrow> peer_context" where
  "my_ctx me s = self_ctx me (ring s)"

definition my_db :: "endpoint \<Rightarrow> fs_world \<Rightarrow> metadata_db" where
  "my_db me s = store_db (stores s me)"

definition my_disk :: "endpoint \<Rightarrow> fs_world \<Rightarrow> disk" where
  "my_disk me s = store_disk (stores s me)"

definition set_db :: "endpoint \<Rightarrow> metadata_db \<Rightarrow> fs_world \<Rightarrow> fs_world" where
  "set_db me db s = s\<lparr>stores := (stores s)(me := (stores s me)\<lparr>store_db := db\<rparr>)\<rparr>"

definition set_disk :: "endpoint \<Rightarrow> disk \<Rightarrow> fs_world \<Rightarrow> fs_world" where
  "set_disk me d s = s\<lparr>stores := (stores s)(me := (stores s me)\<lparr>store_disk := d\<rparr>)\<rparr>"

definition data_path :: "endpoint \<Rightarrow> uri \<Rightarrow> fs_world \<Rightarrow> path" where
  "data_path me u s = path_append (ctx_data_directory (my_ctx me s)) (uri_path u)"

definition on_ring :: "(world \<Rightarrow> ('a outcome \<times> world) option) \<Rightarrow> 'a fs_run" where
  "on_ring f s = map_option (\<lambda>(r, w). (r, s\<lparr>ring := w\<rparr>)) (f (ring s))"

definition on_db :: "endpoint \<Rightarrow> (metadata_db \<Rightarrow> 'a outcome \<times> metadata_db) \<Rightarrow> 'a fs_run" where
  "on_db me f s = (case f (my_db me s) of (r, db) \<Rightarrow> Some (r, set_db me db s))"

definition on_disk :: "endpoint \<Rightarrow> (disk \<Rightarrow> fs_error + ('a \<times> disk)) \<Rightarrow> 'a fs_run" where
  "on_disk me f s =
     (case f (my_disk me s) of
        Inl _ \<Rightarrow> Some (Throws Std_exception, s)
      | Inr (x, d) \<Rightarrow> Some (Returns x, set_disk me d s))"

definition see_disk :: "endpoint \<Rightarrow> (disk \<Rightarrow> fs_error + 'a) \<Rightarrow> 'a fs_run" where
  "see_disk me f = reads (\<lambda>s. fs_result (f (my_disk me s)))"

definition parse_uri :: "string \<Rightarrow> uri fs_run" where
  "parse_uri t = reads (\<lambda>_. uri_result (uri_from t))"

definition metadata_uri :: "call_metadata \<Rightarrow> uri fs_run" where
  "metadata_uri md =
     (case uri_of_metadata md of None \<Rightarrow> raise Chord_exception | Some r \<Rightarrow> reads (\<lambda>_. uri_result r))"

definition require :: "'a option \<Rightarrow> 'a fs_run" where
  "require x = (case x of Some y \<Rightarrow> ret y | None \<Rightarrow> no_behaviour)"

definition rpc ::
  "('req, 'res) fs_stub \<Rightarrow> endpoint \<Rightarrow> node \<Rightarrow> call_metadata \<Rightarrow> 'req \<Rightarrow> (status_code \<times> 'res) fs_run" where
  "rpc stub me n md req s = map_option (\<lambda>(r, s). (Returns r, s)) (stub me (node_endpoint n) md req s)"

text \<open>\<open>chord->successor(hash)\<close> and \<open>chord->successor()\<close>\<close>

definition ring_successor :: "fs_env \<Rightarrow> endpoint \<Rightarrow> uuid \<Rightarrow> node fs_run" where
  "ring_successor E me u = on_ring (facade_successor (env_ring E) me u)"

definition ring_successor_self :: "fs_env \<Rightarrow> endpoint \<Rightarrow> node fs_run" where
  "ring_successor_self E me = on_ring (facade_successor_self (env_ring E) me)"

definition uri_hash :: "fs_env \<Rightarrow> uri \<Rightarrow> uuid" where
  "uri_hash E u = env_sha256 E (uri_string u)"

text \<open>Catching \<open>chord::exception\<close>, the base of the project's own exceptions, and
  \<open>std::ios_base::failure\<close>.\<close>

definition catch_chord :: "'a fs_run \<Rightarrow> 'a fs_run \<Rightarrow> 'a fs_run" where
  "catch_chord m h = on_exception m
     (\<lambda>e. case e of Grpc_exception _ \<Rightarrow> Some h | Chord_exception \<Rightarrow> Some h | _ \<Rightarrow> None)"

definition catch_io :: "'a fs_run \<Rightarrow> 'a \<Rightarrow> 'a fs_run" where
  "catch_io m x = on_exception m (\<lambda>e. if e = Io_failure then Some (ret x) else None)"

lemma keeps_catch_chord [keeps_rules]:
  assumes "keeps I m" "keeps I h"
  shows "keeps I (catch_chord m h)"
  unfolding catch_chord_def
proof (rule keeps_on_exception [OF assms(1)])
  fix e k assume "(case e of Grpc_exception _ \<Rightarrow> Some h | Chord_exception \<Rightarrow> Some h | _ \<Rightarrow> None) = Some k"
  then have "k = h" by (cases e) simp_all
  then show "keeps I k" using assms(2) by simp
qed

lemma keeps_catch_io [keeps_rules]: "keeps I m \<Longrightarrow> keeps I (catch_io m x)"
  unfolding catch_io_def
  by (rule keeps_on_exception) (auto split: if_splits intro: keeps_basic)

subsection \<open>Streams\<close>

text \<open>Opening a file for reading, with exceptions on: a missing file is a failure, a directory
  opens and has nothing to read.\<close>

definition open_for_reading :: "endpoint \<Rightarrow> path \<Rightarrow> string fs_run" where
  "open_for_reading me p s =
     (case find_path (my_disk me s) p of
        None \<Rightarrow> Some (Throws Io_failure, s)
      | Some Directory \<Rightarrow> Some (Returns [], s)
      | Some (Regular t) \<Rightarrow> Some (Returns t, s))"

definition open_for_writing :: "endpoint \<Rightarrow> path \<Rightarrow> unit fs_run" where
  "open_for_writing me p s =
     (case file_write p [] (my_disk me s) of
        None \<Rightarrow> Some (Throws Io_failure, s)
      | Some d \<Rightarrow> Some (Returns (), set_disk me d s))"

text \<open>Writing to the file that was opened; it stays writable should its name be gone.\<close>

definition write_all :: "endpoint \<Rightarrow> path \<Rightarrow> string list \<Rightarrow> unit fs_run" where
  "write_all me p chunks s =
     (case file_write p (concat chunks) (my_disk me s) of
        None \<Rightarrow> Some (Returns (), s)
      | Some d \<Rightarrow> Some (Returns (), set_disk me d s))"

definition CHUNK :: nat where
  "CHUNK = 512 * 1024"

function chunks_of :: "nat \<Rightarrow> string \<Rightarrow> string list" where
  "chunks_of n s = (if n = 0 \<or> s = [] then [] else take n s # chunks_of n (drop n s))"
  by pat_completeness auto
termination by (relation "measure (\<lambda>(n, s). length s)") auto

declare chunks_of.simps [simp del]

lemma chunks_Nil [simp]: "chunks_of n [] = []"
  by (simp add: chunks_of.simps [of n "[]"])

lemma concat_chunks [simp]: "n > 0 \<Longrightarrow> concat (chunks_of n s) = s"
proof (induction n s rule: chunks_of.induct)
  case (1 n s)
  then show ?case by (cases "s = []") (simp_all add: chunks_of.simps [of n s])
qed

lemma CHUNK_pos [simp]: "CHUNK > 0"
  by (simp add: CHUNK_def)

lemma chunks_bounded: "n > 0 \<Longrightarrow> c \<in> set (chunks_of n s) \<Longrightarrow> c \<noteq> [] \<and> length c \<le> n"
proof (induction n s rule: chunks_of.induct)
  case (1 n s)
  then show ?case by (cases "s = []") (auto simp: chunks_of.simps [of n s])
qed

subsection \<open>Reading back\<close>

lemma my_simps [simp]:
  "my_db x (set_db me db s) = (if x = me then db else my_db x s)"
  "my_disk x (set_db me db s) = my_disk x s"
  "my_db x (set_disk me d s) = my_db x s"
  "my_disk x (set_disk me d s) = (if x = me then d else my_disk x s)"
  "ring (set_db me db s) = ring s" "ring (set_disk me d s) = ring s"
  "my_ctx x (set_db me db s) = my_ctx x s" "my_ctx x (set_disk me d s) = my_ctx x s"
  "my_db x (s\<lparr>ring := w\<rparr>) = my_db x s" "my_disk x (s\<lparr>ring := w\<rparr>) = my_disk x s"
  by (simp_all add: my_db_def my_disk_def my_ctx_def set_db_def set_disk_def)

lemma set_same [simp]: "set_db me (my_db me s) s = s" "set_disk me (my_disk me s) s = s"
  by (simp_all add: set_db_def set_disk_def my_db_def my_disk_def)

lemma data_path_simps [simp]:
  "data_path x u (set_db me db s) = data_path x u s"
  "data_path x u (set_disk me d s) = data_path x u s"
  by (simp_all add: data_path_def)

end
