(* ===== verification/Fs_Client.thy ===== *)
theory Fs_Client
  imports Fs_Peers
begin

text \<open>
  The calls of the file system (\<open>include/chord.fs.client.h\<close>, \<open>src/chord.fs.client.cc\<close>).  Each
  function takes the environment \<open>E\<close> and the address \<open>me\<close> of the process that runs it.  A call
  that names no node goes to the successor of the hash of the uri.  \<open>put\<close> and \<open>get\<close> open their
  own channel; the model reaches the node's endpoint in either case.
\<close>

subsection \<open>Put\<close>

definition put_metadata :: "fs_env \<Rightarrow> uri \<Rightarrow> string \<Rightarrow> client_options \<Rightarrow> call_metadata" where
  "put_metadata E u content opts =
     add_stream_hash (env_sha256 E) (env_utext E) content
       (add_uri u (add_replication (opt_replication opts) (init_context (env_utext E) opts)))"

definition client_put_node ::
  "fs_env \<Rightarrow> endpoint \<Rightarrow> node \<Rightarrow> uri \<Rightarrow> string \<Rightarrow> client_options \<Rightarrow> status_code fs_run" where
  "client_put_node E me n u content opts =
     bnd (gets (my_ctx me)) (\<lambda>ctx.
     if n = ctx_node ctx \<and> opt_source opts = Some (ctx_uuid ctx) then ret ALREADY_EXISTS
     else
       bnd (rpc (rpc_put (env_fs E)) me n (put_metadata E u content opts) (chunks_of CHUNK content))
         (\<lambda>(st, _). ret st))"

definition client_put ::
  "fs_env \<Rightarrow> endpoint \<Rightarrow> uri \<Rightarrow> string \<Rightarrow> client_options \<Rightarrow> status_code fs_run" where
  "client_put E me u content opts =
     bnd (ring_successor E me (uri_hash E u)) (\<lambda>n. client_put_node E me n u content opts)"

definition client_put_node_path ::
  "fs_env \<Rightarrow> endpoint \<Rightarrow> node \<Rightarrow> uri \<Rightarrow> path \<Rightarrow> client_options \<Rightarrow> status_code fs_run" where
  "client_put_node_path E me n u source opts =
     catch_io
       (bnd (open_for_reading me source) (\<lambda>content. client_put_node E me n u content opts))
       CANCELLED"

definition client_put_path ::
  "fs_env \<Rightarrow> endpoint \<Rightarrow> uri \<Rightarrow> path \<Rightarrow> client_options \<Rightarrow> status_code fs_run" where
  "client_put_path E me u source opts =
     bnd (ring_successor E me (uri_hash E u)) (\<lambda>n. client_put_node_path E me n u source opts)"

subsection \<open>Move\<close>

definition client_mov_node ::
  "fs_env \<Rightarrow> endpoint \<Rightarrow> node \<Rightarrow> uri \<Rightarrow> uri \<Rightarrow> client_options \<Rightarrow> status_code fs_run" where
  "client_mov_node E me n src dst opts =
     bnd (rpc (rpc_mov (env_fs E)) me n (init_context (env_utext E) opts)
            \<lparr>vreq_src = uri_string src, vreq_dst = uri_string dst, vreq_force = opt_force opts\<rparr>)
       (\<lambda>(st, _). ret st)"

definition client_mov ::
  "fs_env \<Rightarrow> endpoint \<Rightarrow> uri \<Rightarrow> uri \<Rightarrow> client_options \<Rightarrow> status_code fs_run" where
  "client_mov E me src dst opts =
     (if uri_eq src dst then ret OK
      else bnd (ring_successor E me (uri_hash E src)) (\<lambda>n. client_mov_node E me n src dst opts))"

subsection \<open>Metadata\<close>

definition canonical_uri :: "uri \<Rightarrow> uri fs_run" where
  "canonical_uri u = reads (\<lambda>_. uri_result (build (builder_of (uri_scheme u) (canonical (uri_path u)))))"

definition client_dir ::
  "fs_env \<Rightarrow> endpoint \<Rightarrow> uri \<Rightarrow> metadata_set \<Rightarrow> client_options \<Rightarrow> (status_code \<times> metadata_set) fs_run" where
  "client_dir E me u ms opts =
     bnd (canonical_uri u) (\<lambda>meta_uri.
     bnd (ring_successor E me (uri_hash E meta_uri)) (\<lambda>n.
     bnd (rpc (rpc_meta (env_fs E)) me n (init_context (env_utext E) opts)
            \<lparr>mreq_id = uri_hash E meta_uri, mreq_uri = uri_string meta_uri, mreq_action = DIR,
             mreq_metadata = []\<rparr>) (\<lambda>(st, res).
     ret (st, fold meta_insert (metadata_from_response res) ms))))"

definition client_meta_node ::
  "fs_env \<Rightarrow> endpoint \<Rightarrow> node \<Rightarrow> uri \<Rightarrow> action \<Rightarrow> metadata_set \<Rightarrow> client_options
    \<Rightarrow> (status_code \<times> metadata_set) fs_run" where
  "client_meta_node E me target u act ms opts =
     bnd (canonical_uri u) (\<lambda>meta_uri.
     if act = DIR then client_dir E me u ms opts
     else
       bnd (rpc (rpc_meta (env_fs E)) me target (init_context (env_utext E) opts)
              \<lparr>mreq_id = uri_hash E meta_uri, mreq_uri = uri_string meta_uri, mreq_action = act,
               mreq_metadata = map request_data ms\<rparr>) (\<lambda>(st, _).
       ret (st, ms)))"

definition client_meta ::
  "fs_env \<Rightarrow> endpoint \<Rightarrow> uri \<Rightarrow> action \<Rightarrow> metadata_set \<Rightarrow> client_options
    \<Rightarrow> (status_code \<times> metadata_set) fs_run" where
  "client_meta E me u act ms opts =
     bnd (ring_successor E me (uri_hash E u)) (\<lambda>n. client_meta_node E me n u act ms opts)"

subsection \<open>Delete\<close>

definition client_del_request ::
  "fs_env \<Rightarrow> endpoint \<Rightarrow> node \<Rightarrow> del_request \<Rightarrow> client_options \<Rightarrow> status_code fs_run" where
  "client_del_request E me n req opts =
     bnd (rpc (rpc_del (env_fs E)) me n (init_context (env_utext E) opts) req) (\<lambda>(st, _). ret st)"

definition client_del_node ::
  "fs_env \<Rightarrow> endpoint \<Rightarrow> node \<Rightarrow> uri \<Rightarrow> bool \<Rightarrow> client_options \<Rightarrow> status_code fs_run" where
  "client_del_node E me n u recursive opts =
     bnd (rpc (rpc_del (env_fs E)) me n (init_context (env_utext E) opts)
            \<lparr>dreq_id = uri_hash E u, dreq_uri = uri_string u, dreq_recursive = recursive\<rparr>)
       (\<lambda>(st, _). ret st)"

definition client_del :: "fs_env \<Rightarrow> endpoint \<Rightarrow> uri \<Rightarrow> bool \<Rightarrow> client_options \<Rightarrow> status_code fs_run" where
  "client_del E me u recursive opts =
     bnd (ring_successor E me (uri_hash E u)) (\<lambda>n. client_del_node E me n u recursive opts)"

subsection \<open>Get\<close>

definition client_get_node :: "fs_env \<Rightarrow> endpoint \<Rightarrow> uri \<Rightarrow> node \<Rightarrow> (status_code \<times> string list) fs_run" where
  "client_get_node E me u n =
     rpc (rpc_get (env_fs E)) me n [] \<lparr>greq_id = uri_hash E u, greq_uri = uri_string u\<rparr>"

definition client_get :: "fs_env \<Rightarrow> endpoint \<Rightarrow> uri \<Rightarrow> (status_code \<times> string list) fs_run" where
  "client_get E me u = bnd (ring_successor E me (uri_hash E u)) (\<lambda>n. client_get_node E me u n)"

definition client_get_node_path :: "fs_env \<Rightarrow> endpoint \<Rightarrow> uri \<Rightarrow> node \<Rightarrow> path \<Rightarrow> status_code fs_run" where
  "client_get_node_path E me u n p =
     bnd (open_for_writing me p) (\<lambda>_.
     bnd (client_get_node E me u n) (\<lambda>(st, chunks).
     bnd (write_all me p chunks) (\<lambda>_. ret st)))"

definition client_get_path :: "fs_env \<Rightarrow> endpoint \<Rightarrow> uri \<Rightarrow> path \<Rightarrow> status_code fs_run" where
  "client_get_path E me u p =
     bnd (open_for_writing me p) (\<lambda>_.
     bnd (client_get E me u) (\<lambda>(st, chunks).
     bnd (write_all me p chunks) (\<lambda>_. ret st)))"

subsection \<open>What the server reads\<close>

text \<open>The metadata of a put call give the server the uri, the options and the hash the client
  meant, when the text of an identifier reads back and the uri is plain.\<close>

lemma put_metadata_reads:
  assumes utext: "\<And>v. env_uparse E (env_utext E v) = v"
  shows "options_from (env_uparse E) (put_metadata E u content opts) = opts\<lparr>opt_force := False\<rparr>"
    and "file_hash_from (env_uparse E) (put_metadata E u content opts) = Some (env_sha256 E content)"
    and "uri_of_metadata (put_metadata E u content opts) = Some (uri_from (uri_string u))"
proof -
  let ?md = "add_replication (opt_replication opts) (init_context (env_utext E) opts)"
  have other: "map_of (put_metadata E u content opts) k = map_of ?md k"
    if "k \<noteq> ''file.hash''" "k \<noteq> ''uri''" for k
    using that by (simp add: put_metadata_def add_stream_hash_def add_file_hash_def add_uri_def
        add_metadata_def map_add_def split: option.split)
  have "options_from (env_uparse E) (put_metadata E u content opts) = options_from (env_uparse E) ?md"
    by (simp add: options_from_def replication_from_def src_from_def rebalance_from_def other)
  then show "options_from (env_uparse E) (put_metadata E u content opts) = opts\<lparr>opt_force := False\<rparr>"
    using options_round_trip [of "env_uparse E" "env_utext E"] utext by simp
  have none: "map_of ?md ''file.hash'' = None" "map_of ?md ''uri'' = None"
    by (auto simp: add_replication_def init_context_def add_rebalance_def add_src_def
        add_metadata_def map_add_def split: option.split)
  then show "file_hash_from (env_uparse E) (put_metadata E u content opts) = Some (env_sha256 E content)"
    "uri_of_metadata (put_metadata E u content opts) = Some (uri_from (uri_string u))"
    using utext by (simp_all add: put_metadata_def add_stream_hash_def add_file_hash_def add_uri_def
        add_metadata_def map_add_def file_hash_from_def uri_of_metadata_def)
qed

end
