(* ===== verification/Fs_Service.thy ===== *)
theory Fs_Service
  imports Fs_Client
begin

text \<open>
  The handlers of the file system (\<open>include/chord.fs.service.h\<close>, \<open>src/chord.fs.service.cc\<close>).
  \<open>md\<close> is the gRPC metadata of the call.  The locks that tell the monitor which changes are
  the program's own and the logging are left out.  \<open>Undefined\<close> is the reading of the greatest
  element of an empty set.
\<close>

definition call_options :: "fs_env \<Rightarrow> call_metadata \<Rightarrow> client_options" where
  "call_options E md = options_from (env_uparse E) md"

definition is_valid :: "fs_env \<Rightarrow> peer_context \<Rightarrow> call_metadata \<Rightarrow> status_code" where
  "is_valid E ctx md =
     (if opt_source (call_options E md) = Some (ctx_uuid ctx) then ALREADY_EXISTS else OK)"

definition init_src :: "endpoint \<Rightarrow> fs_world \<Rightarrow> client_options \<Rightarrow> client_options" where
  "init_src me s opts = init_source opts (my_ctx me s)"

abbreviation successor_now :: "fs_env \<Rightarrow> endpoint \<Rightarrow> node fs_run" where
  "successor_now \<equiv> ring_successor_self"

subsection \<open>Metadata\<close>

definition handle_meta_dir :: "fs_env \<Rightarrow> endpoint \<Rightarrow> meta_request \<Rightarrow> (status_code \<times> meta_response) fs_run" where
  "handle_meta_dir E me req =
     bnd (parse_uri (mreq_uri req)) (\<lambda>u.
     bnd (gets (\<lambda>s. md_exists u (my_db me s))) (\<lambda>there.
     if \<not> there then ret (NOT_FOUND, empty_meta_response)
     else
       bnd (reads (\<lambda>s. md_get u (my_db me s))) (\<lambda>ms.
       ret (OK, add_to_response ms empty_meta_response))))"

definition handle_meta_del :: "fs_env \<Rightarrow> endpoint \<Rightarrow> call_metadata \<Rightarrow> meta_request \<Rightarrow> status_code fs_run" where
  "handle_meta_del E me md req =
     bnd (parse_uri (mreq_uri req)) (\<lambda>u.
     bnd (reads (\<lambda>_. metadata_from_request req)) (\<lambda>given.
     bnd (on_db me (md_del_entries u given False)) (\<lambda>deleted.
     let metadata = increase_replication_and_clean deleted in
     if is_empty metadata then ret OK
     else
       bnd (successor_now E me) (\<lambda>n.
       bnd (gets (\<lambda>s. init_src me s (call_options E md))) (\<lambda>opts.
       bnd (client_meta_node E me n u DEL metadata opts) (\<lambda>_. ret OK))))))"

definition meta_add_parent ::
  "fs_env \<Rightarrow> endpoint \<Rightarrow> uri \<Rightarrow> metadata_set \<Rightarrow> bool \<Rightarrow> replication \<Rightarrow> client_options \<Rightarrow> unit fs_run" where
  "meta_add_parent E me u metadata added max_repl opts =
     (let parent = parent_path (uri_path u) in
      if added \<and> \<not> path_eq parent (uri_path u) \<and> repl_index max_repl = 0 \<and> parent \<noteq> [] then
        bnd (require (create_directory metadata (filename (uri_path u)))) (\<lambda>d.
        bnd (client_meta E me (new_uri (uri_scheme u) parent) ADD [d] opts) (\<lambda>_. ret ()))
      else ret ())"

definition meta_add_replicate ::
  "fs_env \<Rightarrow> endpoint \<Rightarrow> uri \<Rightarrow> metadata_set \<Rightarrow> client_options \<Rightarrow> unit fs_run" where
  "meta_add_replicate E me u metadata opts =
     (let new_metadata = increase_replication_and_clean metadata in
      if new_metadata = [] then ret ()
      else
        bnd (successor_now E me) (\<lambda>n.
        bnd (gets (\<lambda>s. init_src me s opts)) (\<lambda>opts.
        bnd (client_meta_node E me n u ADD new_metadata opts) (\<lambda>_. ret ()))))"

definition handle_meta_add :: "fs_env \<Rightarrow> endpoint \<Rightarrow> call_metadata \<Rightarrow> meta_request \<Rightarrow> status_code fs_run" where
  "handle_meta_add E me md req =
     bnd (parse_uri (mreq_uri req)) (\<lambda>u.
     bnd (reads (\<lambda>_. metadata_from_request req)) (\<lambda>metadata.
     bnd (gets (\<lambda>s. md_exists u (my_db me s))) (\<lambda>there.
     bnd (if there then reads (\<lambda>s. md_get u (my_db me s)) else ret []) (\<lambda>known.
     if there \<and> equal_basic known metadata then ret ALREADY_EXISTS
     else
       bnd (if is_mkdir u metadata then bnd (require (create_directory metadata ''.'')) (\<lambda>d. ret [d])
            else ret metadata) (\<lambda>entries.
       bnd (on_db me (md_add u entries)) (\<lambda>added.
       bnd (require (max_replication metadata)) (\<lambda>max_repl.
       bnd (meta_add_parent E me u metadata added max_repl (call_options E md)) (\<lambda>_.
       bnd (meta_add_replicate E me u metadata (call_options E md)) (\<lambda>_.
       ret OK)))))))))"

definition fs_service_meta ::
  "fs_env \<Rightarrow> endpoint \<Rightarrow> call_metadata \<Rightarrow> meta_request \<Rightarrow> (status_code \<times> meta_response) fs_run" where
  "fs_service_meta E me md req =
     bnd (gets (\<lambda>s. is_valid E (my_ctx me s) md)) (\<lambda>st.
     if st \<noteq> OK then ret (st, empty_meta_response)
     else
       catch_chord
         (case mreq_action req of
            ADD \<Rightarrow> bnd (handle_meta_add E me md req) (\<lambda>st. ret (st, empty_meta_response))
          | DEL \<Rightarrow> bnd (handle_meta_del E me md req) (\<lambda>st. ret (st, empty_meta_response))
          | DIR \<Rightarrow> handle_meta_dir E me req)
         (bnd (parse_uri (mreq_uri req)) (\<lambda>_. ret (NOT_FOUND, empty_meta_response))))"

subsection \<open>Put\<close>

definition file_hashes_equal :: "fs_env \<Rightarrow> endpoint \<Rightarrow> call_metadata \<Rightarrow> bool fs_run" where
  "file_hashes_equal E me md =
     bnd (metadata_uri md) (\<lambda>u.
     let hash = file_hash_from (env_uparse E) md in
     bnd (gets (\<lambda>s. md_exists u (my_db me s))) (\<lambda>there.
     if hash \<noteq> None \<and> there then
       bnd (reads (\<lambda>s. md_get u (my_db me s))) (\<lambda>ms.
       ret (is_regular_file ms \<and> meta_file_hash (hd ms) \<noteq> None \<and> meta_file_hash (hd ms) = hash))
     else ret False))"

definition make_directories :: "endpoint \<Rightarrow> path \<Rightarrow> unit fs_run" where
  "make_directories me p = bnd (on_disk me (file_create_directories p)) (\<lambda>_. ret ())"

definition put_write ::
  "fs_env \<Rightarrow> endpoint \<Rightarrow> call_metadata \<Rightarrow> uri \<Rightarrow> path \<Rightarrow> string list \<Rightarrow> unit fs_run" where
  "put_write E me md u data_dir chunks =
     (let parent = path_append data_dir (parent_path (uri_path u));
          data = path_append parent (filename (uri_path u))
      in bnd (gets (\<lambda>s. file_exists (my_disk me s) parent)) (\<lambda>there.
         bnd (if there then ret () else make_directories me parent) (\<lambda>_.
         bnd (gets (\<lambda>s. file_exists (my_disk me s) data)) (\<lambda>there.
         bnd (if there then ret True else on_disk me (\<lambda>d. Inr (file_create data d))) (\<lambda>_.
         bnd (file_hashes_equal E me md) (\<lambda>same.
         if same then ret ()
         else
           bnd (open_for_writing me data) (\<lambda>_.
           if chunks = [] then on_disk me (\<lambda>d. map_sum id (Pair ()) (file_resize data 0 d))
           else write_all me data chunks)))))))"

definition put_announce ::
  "fs_env \<Rightarrow> endpoint \<Rightarrow> uri \<Rightarrow> metadata_set \<Rightarrow> client_options \<Rightarrow> unit fs_run" where
  "put_announce E me u ms opts =
     (if repl_index (opt_replication opts) = 0 then
        bnd (require (create_directory ms ''.'')) (\<lambda>d.
        let ms = meta_insert d ms in
        bnd (require (create_directory ms ''..'')) (\<lambda>dd.
        let ms = meta_insert dd ms in
        bnd (client_meta E me (new_uri (uri_scheme u) (parent_path (uri_path u))) ADD ms opts) (\<lambda>_.
        ret ())))
      else ret ())"

definition put_replicate ::
  "fs_env \<Rightarrow> endpoint \<Rightarrow> uri \<Rightarrow> client_options \<Rightarrow> unit fs_run" where
  "put_replicate E me u opts =
     (if replicated (opt_replication opts) then
        bnd (successor_now E me) (\<lambda>n.
        bnd (gets (\<lambda>s. path_append (path_append (ctx_data_directory (my_ctx me s))
               (parent_path (uri_path u))) (filename (uri_path u)))) (\<lambda>data.
        bnd (open_for_reading me data) (\<lambda>content.
        bnd (gets (\<lambda>s. init_src me s opts)) (\<lambda>opts.
        bnd (client_put_node E me n u content opts) (\<lambda>_. ret ())))))
      else ret ())"

definition put_move_away ::
  "fs_env \<Rightarrow> endpoint \<Rightarrow> uri \<Rightarrow> bool \<Rightarrow> client_options \<Rightarrow> unit fs_run" where
  "put_move_away E me u del_needed opts =
     (if del_needed then
        bnd (successor_now E me) (\<lambda>n.
        bnd (ring_successor E me (uri_hash E u)) (\<lambda>home.
        if n \<noteq> home then
          bnd (gets (\<lambda>s. init_src me s opts)) (\<lambda>opts.
          bnd (client_del_node E me n u False opts) (\<lambda>_. ret ()))
        else ret ()))
      else ret ())"

definition fs_service_put ::
  "fs_env \<Rightarrow> endpoint \<Rightarrow> call_metadata \<Rightarrow> string list \<Rightarrow> (status_code \<times> unit) fs_run" where
  "fs_service_put E me md chunks =
     bnd (gets (my_ctx me)) (\<lambda>ctx.
     if is_valid E ctx md \<noteq> OK then ret (is_valid E ctx md, ())
     else
       bnd (gets (\<lambda>s. file_is_directory (my_disk me s) (ctx_data_directory ctx))) (\<lambda>there.
       bnd (if there then ret () else make_directories me (ctx_data_directory ctx)) (\<lambda>_.
       let opts = call_options E md;
           del_needed = (opt_flag opts \<and> \<not> has_next (opt_replication opts))
       in
       bnd (metadata_uri md) (\<lambda>u.
       bnd (catch_io (bnd (put_write E me md u (ctx_data_directory ctx) chunks) (\<lambda>_. ret True)) False)
         (\<lambda>written.
       if \<not> written then ret (CANCELLED, ())
       else
         bnd (reads (\<lambda>s. for_path (env_sha256 E) ctx (my_disk me s) (uri_path u) (opt_replication opts)))
           (\<lambda>ms.
         bnd (on_db me (md_add u ms)) (\<lambda>_.
         bnd (put_announce E me u ms opts) (\<lambda>_.
         let opts = opts\<lparr>opt_replication := next_copy (opt_replication opts)\<rparr> in
         bnd (put_replicate E me u opts) (\<lambda>_.
         bnd (put_move_away E me u del_needed opts) (\<lambda>_.
         ret (OK, ())))))))))))"

subsection \<open>Delete\<close>

definition handle_del_file :: "fs_env \<Rightarrow> endpoint \<Rightarrow> call_metadata \<Rightarrow> del_request \<Rightarrow> status_code fs_run" where
  "handle_del_file E me md req =
     bnd (parse_uri (dreq_uri req)) (\<lambda>u.
     bnd (gets (\<lambda>s. (my_ctx me s, data_path me u s))) (\<lambda>(ctx, data).
     let opts = call_options E md in
     bnd (on_db me (md_del u)) (\<lambda>deleted.
     bnd (case List.find (\<lambda>m. meta_name m = filename (uri_path u)) deleted of
            None \<Rightarrow> ret ()
          | Some m \<Rightarrow>
              (case meta_node_ref m of
                 None \<Rightarrow> ret ()
               | Some n \<Rightarrow>
                   if n \<noteq> ctx_node ctx
                   then bnd (client_del_request E me n req (init_source opts ctx)) (\<lambda>_. ret ())
                   else ret ())) (\<lambda>_.
     bnd (gets (\<lambda>s. file_exists (my_disk me s) data)) (\<lambda>there.
     bnd (if there then on_disk me (util_remove ctx u) else ret False) (\<lambda>_.
     bnd (require (max_replication deleted)) (\<lambda>max_repl.
     bnd (if replicated max_repl \<and> has_next max_repl then
            bnd (successor_now E me) (\<lambda>n.
            if n \<noteq> ctx_node ctx
            then bnd (client_del_request E me n req (init_source opts ctx)) (\<lambda>_. ret ())
            else ret ())
          else ret ()) (\<lambda>_.
     bnd (if opt_source opts = None then
            bnd (client_meta E me (new_uri (uri_scheme u) (parent_path (uri_path u))) DEL deleted
              (clear_source opts)) (\<lambda>_. ret ())
          else ret ()) (\<lambda>_.
     ret OK)))))))))"

fun del_each :: "fs_env \<Rightarrow> endpoint \<Rightarrow> uri \<Rightarrow> bool \<Rightarrow> client_options \<Rightarrow> metadata list \<Rightarrow> status_code fs_run" where
  "del_each E me u recursive opts [] = ret OK"
| "del_each E me u recursive opts (m # ms) =
     (if is_directory m then del_each E me u recursive opts ms
      else
        bnd (client_del E me (new_uri (uri_scheme u) (path_append (uri_path u) (meta_name m))) recursive
          (clear_source opts)) (\<lambda>st.
        if \<not> is_successful st then ret st else del_each E me u recursive opts ms))"

definition handle_del_recursive :: "fs_env \<Rightarrow> endpoint \<Rightarrow> call_metadata \<Rightarrow> del_request \<Rightarrow> status_code fs_run" where
  "handle_del_recursive E me md req =
     bnd (parse_uri (dreq_uri req)) (\<lambda>u.
     bnd (reads (\<lambda>s. md_get u (my_db me s))) (\<lambda>ms.
     del_each E me u (dreq_recursive req) (call_options E md) ms))"

definition handle_del_dir :: "fs_env \<Rightarrow> endpoint \<Rightarrow> call_metadata \<Rightarrow> del_request \<Rightarrow> status_code fs_run" where
  "handle_del_dir E me md req =
     bnd (parse_uri (dreq_uri req)) (\<lambda>u.
     bnd (gets (\<lambda>s. (my_ctx me s, data_path me u s))) (\<lambda>(ctx, data).
     bnd (gets (\<lambda>s. file_exists (my_disk me s) data)) (\<lambda>there.
     bnd (if there then see_disk me (\<lambda>d. file_is_empty d data) else ret False) (\<lambda>empty.
     bnd (gets (\<lambda>s. file_is_directory (my_disk me s) data)) (\<lambda>dir.
     if there \<and> dir \<and> \<not> empty \<and> \<not> dreq_recursive req then ret FAILED_PRECONDITION
     else
       bnd (if \<not> empty \<and> dreq_recursive req then handle_del_recursive E me md req else ret OK) (\<lambda>_.
       let opts = call_options E md in
       bnd (on_db me (md_del u)) (\<lambda>deleted.
       bnd (require (max_replication deleted)) (\<lambda>max_repl.
       bnd (if replicated (next_copy max_repl) then
              bnd (successor_now E me) (\<lambda>n.
              if n \<noteq> ctx_node ctx
              then bnd (client_del_request E me n req (init_source opts ctx)) (\<lambda>_. ret ())
              else ret ())
            else ret ()) (\<lambda>_.
       bnd (gets (\<lambda>s. file_exists (my_disk me s) data)) (\<lambda>there.
       bnd (if there then see_disk me (\<lambda>d. file_is_empty d data) else ret False) (\<lambda>empty.
       bnd (if there \<and> empty then on_disk me (util_remove ctx u) else ret False) (\<lambda>_.
       let parent = parent_path (uri_path u) in
       bnd (if opt_source opts = None \<and> \<not> path_eq parent (uri_path u) \<and> parent \<noteq> [] then
              bnd (client_meta E me (new_uri (uri_scheme u) parent) DEL [builder_directory (uri_path u)]
                (clear_source opts)) (\<lambda>_. ret ())
            else ret ()) (\<lambda>_.
       ret OK)))))))))))))"

definition fs_service_del ::
  "fs_env \<Rightarrow> endpoint \<Rightarrow> call_metadata \<Rightarrow> del_request \<Rightarrow> (status_code \<times> unit) fs_run" where
  "fs_service_del E me md req =
     bnd (gets (my_ctx me)) (\<lambda>ctx.
     if is_valid E ctx md \<noteq> OK then ret (is_valid E ctx md, ())
     else
       bnd (parse_uri (dreq_uri req)) (\<lambda>u.
       bnd (gets (data_path me u)) (\<lambda>data.
       bnd (gets (\<lambda>s. file_exists (my_disk me s) data \<and> file_is_regular (my_disk me s) data \<and>
              \<not> md_exists u (my_db me s))) (\<lambda>shallow.
       if shallow then
         bnd (on_disk me (file_remove data)) (\<lambda>done. ret (if done then OK else CANCELLED, ()))
       else
         bnd (reads (\<lambda>s. md_get u (my_db me s))) (\<lambda>ms.
         case List.find (\<lambda>m. meta_name m = filename (uri_path u) \<or> is_directory m) ms of
           None \<Rightarrow> ret (NOT_FOUND, ())
         | Some element \<Rightarrow>
             bnd (if meta_file_type element = type_directory then handle_del_dir E me md req
                  else handle_del_file E me md req) (\<lambda>st. ret (st, ())))))))"

subsection \<open>Move\<close>

definition fs_service_mov ::
  "fs_env \<Rightarrow> endpoint \<Rightarrow> call_metadata \<Rightarrow> mov_request \<Rightarrow> (status_code \<times> unit) fs_run" where
  "fs_service_mov E me md req =
     bnd (gets (my_ctx me)) (\<lambda>ctx.
     if is_valid E ctx md \<noteq> OK then ret (is_valid E ctx md, ())
     else
       bnd (parse_uri (vreq_src req)) (\<lambda>u.
       bnd (parse_uri (vreq_dst req)) (\<lambda>dst.
       bnd (gets (\<lambda>s. (md_exists u (my_db me s), data_path me u s))) (\<lambda>(there, data).
       if \<not> there then ret (NOT_FOUND, ())
       else
         bnd (gets (\<lambda>s. file_exists (my_disk me s) data)) (\<lambda>there.
         if \<not> there then ret (NOT_FOUND, ())
         else
           bnd (client_put_path E me dst data (call_options E md)) (\<lambda>st.
           if st = OK then bnd (client_del E me u False default_options) (\<lambda>st. ret (st, ()))
           else ret (st, ())))))))"

text \<open>Whether an existing target may be overwritten is part of the request, but makes no difference.\<close>

lemma move_ignores_force: "fs_service_mov E me md (req\<lparr>vreq_force := f\<rparr>) = fs_service_mov E me md req"
  by (cases req) (simp only: fs_service_mov_def mov_request.simps)

subsection \<open>Get\<close>

text \<open>\<open>Some\<close> is a status the handler returns with, \<open>None\<close> goes on with the next way.\<close>

definition get_by_reference :: "fs_env \<Rightarrow> endpoint \<Rightarrow> uri \<Rightarrow> path \<Rightarrow> metadata \<Rightarrow> status_code option fs_run" where
  "get_by_reference E me u data m =
     (case meta_node_ref m of
        None \<Rightarrow> ret None
      | Some n \<Rightarrow>
          catch_io
            (bnd (client_get_node_path E me u n data) (\<lambda>st.
             if st \<noteq> OK then ret None
             else
               bnd (gets (\<lambda>s. env_sha256 E
                      (case file_content (my_disk me s) data of Some t \<Rightarrow> t | None \<Rightarrow> []))) (\<lambda>hash.
               bnd (on_db me (md_add u [m\<lparr>meta_node_ref := None, meta_file_hash := Some hash\<rparr>])) (\<lambda>_.
               bnd (client_del_node E me n u False default_options) (\<lambda>st. ret (Some st))))))
            (Some CANCELLED))"

definition get_by_replication :: "fs_env \<Rightarrow> endpoint \<Rightarrow> uri \<Rightarrow> path \<Rightarrow> metadata \<Rightarrow> status_code option fs_run" where
  "get_by_replication E me u data m =
     (if replicated (meta_replication m) then
        catch_io
          (bnd (successor_now E me) (\<lambda>n.
           bnd (client_get_node_path E me u n data) (\<lambda>st. ret (Some st))))
          (Some CANCELLED)
      else ret None)"

fun get_each :: "fs_env \<Rightarrow> endpoint \<Rightarrow> uri \<Rightarrow> path \<Rightarrow> metadata list \<Rightarrow> status_code fs_run" where
  "get_each E me u data [] = ret CANCELLED"
| "get_each E me u data (m # ms) =
     bnd (gets (\<lambda>s. file_is_directory (my_disk me s) data)) (\<lambda>dir.
     bnd (if dir then ret () else make_directories me (parent_path data)) (\<lambda>_.
     bnd (get_by_reference E me u data m) (\<lambda>r.
     case r of
       Some st \<Rightarrow> ret st
     | None \<Rightarrow>
         bnd (get_by_replication E me u data m) (\<lambda>r.
         case r of Some st \<Rightarrow> ret st | None \<Rightarrow> get_each E me u data ms))))"

definition get_from_reference_or_replication :: "fs_env \<Rightarrow> endpoint \<Rightarrow> uri \<Rightarrow> status_code fs_run" where
  "get_from_reference_or_replication E me u =
     bnd (gets (data_path me u)) (\<lambda>data.
     bnd (reads (\<lambda>s. md_get u (my_db me s))) (\<lambda>ms.
     get_each E me u data ms))"

definition fs_service_get ::
  "fs_env \<Rightarrow> endpoint \<Rightarrow> call_metadata \<Rightarrow> get_request \<Rightarrow> (status_code \<times> string list) fs_run" where
  "fs_service_get E me md req =
     bnd (gets (my_ctx me)) (\<lambda>ctx.
     bnd (gets (\<lambda>s. file_is_directory (my_disk me s) (ctx_data_directory ctx))) (\<lambda>there.
     bnd (if there then ret () else make_directories me (ctx_data_directory ctx)) (\<lambda>_.
     bnd (parse_uri (greq_uri req)) (\<lambda>u.
     bnd (gets (data_path me u)) (\<lambda>data.
     bnd (gets (\<lambda>s. (file_exists (my_disk me s) data, file_is_regular (my_disk me s) data))) (\<lambda>(there, regular).
     bnd (if \<not> there then get_from_reference_or_replication E me u
          else ret (if regular then OK else CANCELLED)) (\<lambda>st.
     if st \<noteq> OK then ret (st, [])
     else
       bnd (catch_io (bnd (open_for_reading me data) (\<lambda>t. ret (Some t))) None) (\<lambda>content.
       case content of
         None \<Rightarrow> ret (CANCELLED, [])
       | Some t \<Rightarrow> ret (OK, chunks_of CHUNK t)))))))))"

text \<open>A call that carries the identifier of the called process as its source has come round the ring:
  every handler that passes calls on rejects it.\<close>

lemma own_calls_are_rejected:
  assumes "opt_source (call_options E md) = Some (ctx_uuid (my_ctx me s))"
  shows "fs_service_put E me md chunks s = Some (Returns (ALREADY_EXISTS, ()), s) \<and>
    fs_service_del E me md dreq s = Some (Returns (ALREADY_EXISTS, ()), s) \<and>
    fs_service_mov E me md vreq s = Some (Returns (ALREADY_EXISTS, ()), s) \<and>
    fs_service_meta E me md mreq s = Some (Returns (ALREADY_EXISTS, empty_meta_response), s)"
  using assms
  by (simp add: fs_service_put_def fs_service_del_def fs_service_mov_def fs_service_meta_def is_valid_def ret_def)

end
