(* ===== verification/Fs_Network.thy ===== *)
theory Fs_Network
  imports Fs_Service Protocol
begin

text \<open>
  The file system as a whole: as for the ring, the stubs are closed by running the handler of
  the process that listens on the target address.  \<open>fs_network E n\<close> lets calls of the file
  system nest to depth \<open>n\<close>; the ring's own stubs are part of the environment.  The locales
  are the interfaces between a handler and the processes it calls: an invariant of the store
  that the ring and the other handlers keep is kept by every call.
\<close>

definition fs_crash :: "endpoint \<Rightarrow> fs_world \<Rightarrow> fs_world" where
  "fs_crash me s = s\<lparr>ring := crash me (ring s)\<rparr>"

definition fs_respond ::
  "endpoint \<Rightarrow> 'res \<Rightarrow> ((status_code \<times> 'res) outcome \<times> fs_world)
    \<Rightarrow> (status_code \<times> 'res) \<times> fs_world" where
  "fs_respond target res r =
     (case r of
        (Returns x, s) \<Rightarrow> (x, s)
      | (Throws _, s) \<Rightarrow> ((UNKNOWN, res), s)
      | (Undefined, s) \<Rightarrow> ((UNAVAILABLE, res), fs_crash target s))"

definition fs_deliver ::
  "endpoint \<Rightarrow> 'res \<Rightarrow> (status_code \<times> 'res) fs_run \<Rightarrow> fs_world
    \<Rightarrow> ((status_code \<times> 'res) \<times> fs_world) option" where
  "fs_deliver target res handler s =
     (if alive (ring s) target then map_option (fs_respond target res) (handler s)
      else Some ((UNAVAILABLE, res), s))"

definition no_fs_stubs :: fs_stubs where
  "no_fs_stubs =
     \<lparr>rpc_put = \<lambda>_ _ _ _ _. None, rpc_get = \<lambda>_ _ _ _ _. None, rpc_del = \<lambda>_ _ _ _ _. None,
      rpc_mov = \<lambda>_ _ _ _ _. None, rpc_meta = \<lambda>_ _ _ _ _. None\<rparr>"

fun fs_network :: "fs_env \<Rightarrow> nat \<Rightarrow> fs_stubs" where
  "fs_network E 0 = no_fs_stubs"
| "fs_network E (Suc n) =
     \<lparr>rpc_put = \<lambda>from_addr to_addr md req.
        fs_deliver to_addr () (fs_service_put (E\<lparr>env_fs := fs_network E n\<rparr>) to_addr md req),
      rpc_get = \<lambda>from_addr to_addr md req.
        fs_deliver to_addr [] (fs_service_get (E\<lparr>env_fs := fs_network E n\<rparr>) to_addr md req),
      rpc_del = \<lambda>from_addr to_addr md req.
        fs_deliver to_addr () (fs_service_del (E\<lparr>env_fs := fs_network E n\<rparr>) to_addr md req),
      rpc_mov = \<lambda>from_addr to_addr md req.
        fs_deliver to_addr () (fs_service_mov (E\<lparr>env_fs := fs_network E n\<rparr>) to_addr md req),
      rpc_meta = \<lambda>from_addr to_addr md req.
        fs_deliver to_addr empty_meta_response
          (fs_service_meta (E\<lparr>env_fs := fs_network E n\<rparr>) to_addr md req)\<rparr>"

declare fs_network.simps [simp del]

definition fs_close :: "fs_env \<Rightarrow> nat \<Rightarrow> fs_env" where
  "fs_close E n = E\<lparr>env_fs := fs_network E n\<rparr>"

lemma fs_close_simps [simp]:
  "env_ring (fs_close E n) = env_ring E" "env_sha256 (fs_close E n) = env_sha256 E"
  "env_utext (fs_close E n) = env_utext E" "env_uparse (fs_close E n) = env_uparse E"
  "env_fs (fs_close E n) = fs_network E n"
  by (simp_all add: fs_close_def)

lemma fs_network_stubs:
  "rpc_put (fs_network E (Suc n)) a b md preq = fs_deliver b () (fs_service_put (fs_close E n) b md preq)"
  "rpc_get (fs_network E (Suc n)) a b md greq = fs_deliver b [] (fs_service_get (fs_close E n) b md greq)"
  "rpc_del (fs_network E (Suc n)) a b md dreq = fs_deliver b () (fs_service_del (fs_close E n) b md dreq)"
  "rpc_mov (fs_network E (Suc n)) a b md vreq = fs_deliver b () (fs_service_mov (fs_close E n) b md vreq)"
  "rpc_meta (fs_network E (Suc n)) a b md mreq =
     fs_deliver b empty_meta_response (fs_service_meta (fs_close E n) b md mreq)"
  by (simp_all add: fs_network.simps(2) fs_close_def)

lemma fs_network_0 [simp]:
  "rpc_put (fs_network E 0) a b md preq s = None" "rpc_get (fs_network E 0) a b md greq s = None"
  "rpc_del (fs_network E 0) a b md dreq s = None" "rpc_mov (fs_network E 0) a b md vreq s = None"
  "rpc_meta (fs_network E 0) a b md mreq s = None"
  by (simp_all add: fs_network.simps(1) no_fs_stubs_def)

lemma fs_deliver_OK: "fs_deliver b res h s = Some ((OK, x), s') \<Longrightarrow> h s = Some (Returns (OK, x), s')"
proof -
  assume run: "fs_deliver b res h s = Some ((OK, x), s')"
  then obtain q t where q: "h s = Some (q, t)" "fs_respond b res (q, t) = ((OK, x), s')"
    by (auto simp: fs_deliver_def split: if_splits)
  then show ?thesis by (cases q) (auto simp: fs_respond_def)
qed

subsection \<open>Metadata calls\<close>

text \<open>The interface of the metadata handlers: an invariant that the lookups of the processes \<open>at\<close> the
  ring, a crash and a change of a database that leaves it well-formed keep.  It is kept by metadata
  calls at every depth, because only processes that are alive, hence at the ring, answer them.\<close>

locale meta_invariant =
  fixes I :: "fs_world \<Rightarrow> bool" and R :: stubs and at :: "endpoint \<Rightarrow> bool"
  assumes ring_keeps: "at me \<Longrightarrow> keeps I (on_ring (facade_successor R me u))"
    and alive_at: "I s \<Longrightarrow> alive (ring s) me \<Longrightarrow> at me"
    and db_keeps: "I s \<Longrightarrow> (db_ok (my_db me s) \<Longrightarrow> db_ok db) \<Longrightarrow> I (set_db me db s)"
    and crash_keeps: "I s \<Longrightarrow> I (fs_crash me s)"
begin

lemma on_db_keeps:
  assumes "\<And>db. db_ok db \<Longrightarrow> db_ok (snd (f db))"
  shows "keeps I (on_db me f)"
proof (rule keepsI)
  fix s r s' assume s: "I s" "on_db me f s = Some (r, s')"
  then have "s' = set_db me (snd (f (my_db me s))) s" by (auto simp: on_db_def split: prod.splits)
  then show "I s'" using s(1) assms by (simp add: db_keeps)
qed

lemmas db_steps = on_db_keeps [OF md_add_ok] on_db_keeps [OF md_del_ok] on_db_keeps [OF md_del_entries_ok]

lemma fs_deliver_keeps:
  assumes "fs_deliver a d h s = Some (r, s')" "I s" "at a \<Longrightarrow> keeps I h"
  shows "I s'"
proof (cases "alive (ring s) a")
  case True
  then obtain q t where q: "h s = Some (q, t)" "fs_respond a d (q, t) = (r, s')"
    using assms(1) by (auto simp: fs_deliver_def)
  then have "I t" using assms(2,3) alive_at [OF assms(2) True] by (blast dest: keepsD)
  then show ?thesis using q(2) by (auto simp: fs_respond_def crash_keeps split: outcome.splits)
next
  case False
  then show ?thesis using assms by (simp add: fs_deliver_def)
qed

end

locale meta_contract = meta_invariant I R at for I :: "fs_world \<Rightarrow> bool" and R :: stubs and at :: "endpoint \<Rightarrow> bool" +
  fixes E :: fs_env and me :: endpoint
  assumes env: "env_ring E = R" and at_me: "at me"
    and meta_keeps: "I s \<Longrightarrow> rpc_meta (env_fs E) a b md req s = Some (r, s') \<Longrightarrow> I s'"
begin

lemma successor_keeps: "keeps I (ring_successor E me u)" "keeps I (ring_successor_self E me)"
proof -
  show "keeps I (ring_successor E me u)" for u by (simp add: ring_successor_def env ring_keeps at_me)
  have "ring_successor_self E me s = ring_successor E me (ctx_uuid (my_ctx me s)) s" for s
    by (simp add: ring_successor_self_def ring_successor_def on_ring_def facade_successor_self_def my_ctx_def)
  then show "keeps I (ring_successor_self E me)"
    using ring_keeps [OF at_me] by (simp add: keeps_def ring_successor_def env)
qed

lemma rpc_meta_keeps: "keeps I (rpc (rpc_meta (env_fs E)) me n md req)"
  by (rule keepsI) (auto simp: rpc_def dest: meta_keeps)

lemmas steps = keeps_rules db_steps successor_keeps rpc_meta_keeps

lemma client_dir_keeps: "keeps I (client_dir E me u ms opts)"
  unfolding client_dir_def canonical_uri_def by (intro steps)

lemma client_meta_node_keeps: "keeps I (client_meta_node E me n u act ms opts)"
  unfolding client_meta_node_def canonical_uri_def by (intro steps client_dir_keeps)

lemma client_meta_keeps: "keeps I (client_meta E me u act ms opts)"
  unfolding client_meta_def by (intro steps client_meta_node_keeps)

lemma require_keeps: "keeps I (require x)"
  unfolding require_def by (intro steps)

lemma parse_uri_keeps: "keeps I (parse_uri t)"
  unfolding parse_uri_def by (intro steps)

lemmas meta_steps = steps client_meta_node_keeps client_meta_keeps require_keeps parse_uri_keeps

lemma handle_meta_dir_keeps: "keeps I (handle_meta_dir E me req)"
  unfolding handle_meta_dir_def by (intro meta_steps)

lemma handle_meta_del_keeps: "keeps I (handle_meta_del E me md req)"
  unfolding handle_meta_del_def by (intro meta_steps)

lemma handle_meta_add_keeps: "keeps I (handle_meta_add E me md req)"
  unfolding handle_meta_add_def meta_add_parent_def meta_add_replicate_def
  by (intro meta_steps)

lemma service_meta_keeps: "keeps I (fs_service_meta E me md req)"
  unfolding fs_service_meta_def
  by (cases "mreq_action req"; simp only: action.case;
      intro meta_steps handle_meta_dir_keeps handle_meta_del_keeps handle_meta_add_keeps)

lemma put_announce_keeps: "keeps I (put_announce E me u ms opts)"
  unfolding put_announce_def by (intro meta_steps)

end

context meta_invariant
begin

lemma network_meta_contract:
  assumes "env_ring E = R"
  shows "at me \<Longrightarrow> meta_contract I R at (fs_close E n) me"
proof (induction n arbitrary: me)
  case 0
  then show ?case by unfold_locales (simp_all add: assms)
next
  case (Suc n)
  show ?case
  proof unfold_locales
    fix s s' a b md req r
    assume "I s" "rpc_meta (env_fs (fs_close E (Suc n))) a b md req s = Some (r, s')"
    then have s: "I s"
      and run: "fs_deliver b empty_meta_response (fs_service_meta (fs_close E n) b md req) s = Some (r, s')"
      by (simp_all add: fs_network_stubs)
    show "I s'" by (rule fs_deliver_keeps [OF run s meta_contract.service_meta_keeps [OF Suc.IH]])
  qed (simp_all add: assms Suc.prems)
qed

end

text \<open>Metadata calls leave every disk and every configuration as it is.\<close>

definition same_disks :: "fs_world \<Rightarrow> fs_world \<Rightarrow> bool" where
  "same_disks s0 s = (same_setup (ring s0) (ring s) \<and> (\<forall>x. my_disk x s = my_disk x s0))"

lemma facade_successor_setup:
  "facade_successor (network t n) me u w = Some (r, w') \<Longrightarrow> same_setup w0 w \<Longrightarrow> same_setup w0 w'"
  by (auto simp: facade_successor_def dest!: fixed_net.service_successor_id_keeps [rotated] split: bind_splits)

interpretation disks: meta_invariant "same_disks s0" "network t n" "\<lambda>_. True" for s0 t n
proof
  fix me u s db
  show "keeps (same_disks s0) (on_ring (facade_successor (network t n) me u))"
    by (rule keepsI) (auto simp: on_ring_def same_disks_def dest: facade_successor_setup)
  show "same_disks s0 s \<Longrightarrow> (db_ok (my_db me s) \<Longrightarrow> db_ok db) \<Longrightarrow> same_disks s0 (set_db me db s)"
    by (simp add: same_disks_def)
  show "same_disks s0 s \<Longrightarrow> same_disks s0 (fs_crash me s)"
    by (simp add: same_disks_def fs_crash_def fixed.crash_keeps)
qed simp

lemma same_disks_refl [simp]: "same_disks s s"
  by (simp add: same_disks_def same_setup_def)

end
