(* ===== verification/Fs_Transfer.thy ===== *)
theory Fs_Transfer
  imports Fs_Network
begin

text \<open>
  What a transfer achieves: after a put that succeeds, the node it was sent to holds the bytes
  of the file, and a get from that node returns them.
\<close>

subsection \<open>Steps that only change the own disk\<close>

definition disk_step :: "endpoint \<Rightarrow> fs_world \<Rightarrow> fs_world \<Rightarrow> bool" where
  "disk_step me s s' =
     (\<exists>d. s' = set_disk me d s \<and> (tree_ok (my_disk me s) \<longrightarrow> tree_ok d) \<and>
        (\<forall>p. resolve d p = resolve (my_disk me s) p))"

lemma disk_step_refl [simp]: "disk_step me s s"
  unfolding disk_step_def by (rule exI [of _ "my_disk me s"]) simp

lemma set_disk_set_disk [simp]: "set_disk me d (set_disk me d' s) = set_disk me d s"
  by (simp add: set_disk_def)

lemma disk_step_trans: "disk_step me s s' \<Longrightarrow> disk_step me s' s'' \<Longrightarrow> disk_step me s s''"
  unfolding disk_step_def by force

lemma disk_step_same:
  assumes "disk_step me s s'"
  shows "ring s' = ring s" "my_db x s' = my_db x s" "my_ctx x s' = my_ctx x s" "data_path x u s' = data_path x u s"
    "x \<noteq> me \<Longrightarrow> my_disk x s' = my_disk x s" "resolve (my_disk me s') p = resolve (my_disk me s) p"
    "tree_ok (my_disk me s) \<Longrightarrow> tree_ok (my_disk me s')"
  using assms by (auto simp: disk_step_def)

lemma file_create_resolve [simp]: "resolve (snd (file_create p d)) q = resolve d q"
  by (simp add: file_create_def Let_def split: option.split file_node.split)

lemma make_directories_step:
  assumes "make_directories me p s = Some (r, s')" "tree_ok (my_disk me s)"
  shows "disk_step me s s'"
proof (cases "file_create_directories p (my_disk me s)")
  case (Inl e)
  then show ?thesis using assms(1) by (simp add: make_directories_def on_disk_def bnd_def)
next
  case (Inr y)
  then obtain b d where y: "file_create_directories p (my_disk me s) = Inr (b, d)" by (cases y) simp
  then have "s' = set_disk me d s"
    using assms(1) by (simp add: make_directories_def on_disk_def bnd_def ret_def)
  then show ?thesis
    using create_directories_spec [OF assms(2) y] unfolding disk_step_def by blast
qed

lemma create_file_step:
  assumes "on_disk me (\<lambda>d. Inr (file_create p d)) s = Some (r, s')"
  shows "disk_step me s s'"
proof -
  have "s' = set_disk me (snd (file_create p (my_disk me s))) s"
    using assms by (auto simp: on_disk_def split: prod.splits)
  then show ?thesis unfolding disk_step_def using file_create_tree by auto
qed

text \<open>Opening for writing empties or creates the file, writing then fills it.\<close>

lemma write_chunks:
  assumes "bnd (open_for_writing me p) (\<lambda>_.
      if chunks = [] then on_disk me (\<lambda>d. map_sum id (Pair ()) (file_resize p 0 d))
      else write_all me p chunks) s = Some (Returns (), s')"
  shows "disk_step me s s'"
    "file_content (my_disk me s') q =
      (if q \<noteq> [] \<and> resolve (my_disk me s) q = resolve (my_disk me s) p then Some (concat chunks)
       else file_content (my_disk me s) q)"
proof -
  let ?d = "my_disk me s"
  obtain d where d: "file_write p [] ?d = Some d"
    using assms by (auto simp: bnd_def open_for_writing_def split: option.splits)
  note find = file_write_find [OF d] file_write_content [OF d] file_write_path [OF d]
  have tree: "tree_ok ?d \<Longrightarrow> tree_ok d" using file_write_tree d by blast
  have open_run: "open_for_writing me p s = Some (Returns (), set_disk me d s)"
    by (simp add: open_for_writing_def d)
  have "\<exists>d'. s' = set_disk me d' s \<and> (tree_ok d \<longrightarrow> tree_ok d') \<and> (\<forall>q. resolve d' q = resolve d q) \<and>
      (\<forall>q. file_content d' q = (if q \<noteq> [] \<and> resolve d q = resolve d p then Some (concat chunks) else file_content d q))"
  proof (cases "chunks = []")
    case True
    have "file_resize p 0 d = Inr (put_node (resolve d p) (Regular []) d)"
      using find by (intro file_resize_zero [of d p "[]"]) simp
    moreover from this have "tree_ok d \<Longrightarrow> tree_ok (put_node (resolve d p) (Regular []) d)"
      using file_resize_tree by blast
    moreover have "find_node (put_node (resolve d p) (Regular []) d) j = find_node d j" for j
      using find by (simp add: find_put)
    ultimately show ?thesis
      using assms True find
      by (intro exI [of _ "put_node (resolve d p) (Regular []) d"])
        (auto simp: open_run on_disk_def file_content_def find_path_def)
  next
    case False
    obtain d' where d': "file_write p (concat chunks) d = Some d'" using file_write_again [OF d] by blast
    then show ?thesis
      using assms False file_write_tree [of d p "concat chunks" d'] file_write_find [OF d']
        file_write_content [OF d']
      by (intro exI [of _ d']) (auto simp: open_run write_all_def)
  qed
  then obtain d' where d': "s' = set_disk me d' s" "tree_ok d \<Longrightarrow> tree_ok d'" "\<And>q. resolve d' q = resolve d q"
    "\<And>q. file_content d' q = (if q \<noteq> [] \<and> resolve d q = resolve d p then Some (concat chunks) else file_content d q)"
    by blast
  then show "disk_step me s s'" unfolding disk_step_def using tree find by auto
  show "file_content (my_disk me s') q =
      (if q \<noteq> [] \<and> resolve ?d q = resolve ?d p then Some (concat chunks) else file_content ?d q)"
    using d' find by auto
qed

lemma path_append_file: "names_file p \<Longrightarrow> path_append d p \<noteq> []"
  using names_path_append [of d p] by (auto simp: names_file_def)

subsection \<open>The handler of a put\<close>

lemma file_hashes_equal_reads:
  "file_hashes_equal E me md s = Some (r, s') \<Longrightarrow> s' = s"
  by (auto simp: file_hashes_equal_def metadata_uri_def bnd_def reads_def gets_def ret_def raise_def Let_def
      split: option.splits outcome.splits prod.splits if_splits)

lemma put_write_stores:
  assumes run: "put_write E me md u dir chunks s = Some (Returns (), s')"
    and hash: "\<And>s1. my_db me s1 = my_db me s \<Longrightarrow> file_hashes_equal E me md s1 = Some (Returns False, s1)"
    and tree: "tree_ok (my_disk me s)" and u: "names_file (uri_path u)"
  shows "disk_step me s s' \<and> file_content (my_disk me s') (path_append dir (uri_path u)) = Some (concat chunks)"
proof -
  let ?parent = "path_append dir (parent_path (uri_path u))"
  let ?data = "path_append ?parent (filename (uri_path u))"
  obtain s1 where s1: "(if file_exists (my_disk me s) ?parent then ret () else make_directories me ?parent) s
      = Some (Returns (), s1)"
    using run by (auto simp: put_write_def Let_def bnd_Some)
  then have step1: "disk_step me s s1"
    using make_directories_step tree by (auto simp: ret_def split: if_splits)
  obtain b s2 where s2: "(if file_exists (my_disk me s1) ?data then ret True
      else on_disk me (\<lambda>d. Inr (file_create ?data d))) s1 = Some (Returns b, s2)"
    using run s1 by (auto simp: put_write_def Let_def bnd_Some)
  then have step2: "disk_step me s1 s2"
    using create_file_step by (auto simp: ret_def split: if_splits)
  have step: "disk_step me s s2" using step1 step2 by (rule disk_step_trans)
  have eq: "file_hashes_equal E me md s2 = Some (Returns False, s2)"
    using hash disk_step_same(2) [OF step] by blast
  have r1: "bnd (if file_exists (my_disk me s) ?parent then ret () else make_directories me ?parent) f s = f () s1" for f :: "unit \<Rightarrow> unit fs_run"
    by (rule bnd_returns) (rule s1)
  have r2: "bnd (if file_exists (my_disk me s1) ?data then ret True
      else on_disk me (\<lambda>d. Inr (file_create ?data d))) f s1 = f b s2" for f :: "bool \<Rightarrow> unit fs_run"
    by (rule bnd_returns) (rule s2)
  have r3: "bnd (file_hashes_equal E me md) f s2 = f False s2" for f :: "bool \<Rightarrow> unit fs_run"
    by (rule bnd_returns) (rule eq)
  have final: "bnd (open_for_writing me ?data) (\<lambda>_.
      if chunks = [] then on_disk me (\<lambda>d. map_sum id (Pair ()) (file_resize ?data 0 d))
      else write_all me ?data chunks) s2 = Some (Returns (), s')"
    using run by (simp add: put_write_def Let_def r1 r2 r3)
  show ?thesis
    using disk_step_trans [OF step write_chunks(1) [OF final]] path_append_file [OF u, of dir]
      write_chunks(2) [OF final, of "path_append dir (uri_path u)"] resolve_split [OF u]
    by simp
qed

lemma fresh_hashes:
  assumes "uri_of_metadata md = Some (Inr u)" "\<not> md_exists u (my_db me s)"
  shows "file_hashes_equal E me md s = Some (Returns False, s)"
  using assms by (simp add: file_hashes_equal_def metadata_uri_def uri_result_def bnd_def reads_def gets_def
      ret_def Let_def)

definition plain_put :: "client_options \<Rightarrow> bool" where
  "plain_put opts = (\<not> replicated (next_copy (opt_replication opts)) \<and> \<not> opt_flag opts)"

lemma service_put_stores:
  assumes contract: "\<And>s0. meta_contract (same_disks s0) R at E me"
    and run: "fs_service_put E me md chunks s = Some (Returns (OK, ()), s')"
    and u: "uri_of_metadata md = Some (Inr u)" "names_file (uri_path u)" "\<not> md_exists u (my_db me s)"
    and tree: "tree_ok (my_disk me s)" and plain: "plain_put (call_options E md)"
  shows "file_content (my_disk me s') (data_path me u s') = Some (concat chunks)"
    "tree_ok (my_disk me s')" "my_ctx x s' = my_ctx x s" "x \<noteq> me \<Longrightarrow> my_disk x s' = my_disk x s"
    "alive (ring s') x \<Longrightarrow> alive (ring s) x"
proof -
  let ?ctx = "my_ctx me s" let ?dir = "ctx_data_directory ?ctx" let ?opts = "call_options E md"
  have valid: "is_valid E ?ctx md = OK"
    using run by (auto simp: fs_service_put_def ret_def split: if_splits)
  obtain s1 where s1: "(if file_is_directory (my_disk me s) ?dir then ret () else make_directories me ?dir) s
      = Some (Returns (), s1)"
    using run valid by (auto simp: fs_service_put_def Let_def bnd_Some)
  have r1: "bnd (if file_is_directory (my_disk me s) ?dir then ret () else make_directories me ?dir) f s = f () s1"
    for f :: "unit \<Rightarrow> (status_code \<times> unit) fs_run"
    by (rule bnd_returns) (rule s1)
  have step1: "disk_step me s s1"
    using s1 make_directories_step tree by (auto simp: ret_def split: if_splits)
  have parse: "bnd (metadata_uri md) f s1 = f u s1" for f :: "uri \<Rightarrow> (status_code \<times> unit) fs_run"
    by (simp add: metadata_uri_def u(1) bnd_def reads_def uri_result_def)
  define body where "body = (\<lambda>written. if \<not> written then ret (CANCELLED, ())
       else
         bnd (reads (\<lambda>s. for_path (env_sha256 E) ?ctx (my_disk me s) (uri_path u) (opt_replication ?opts)))
           (\<lambda>ms.
         bnd (on_db me (md_add u ms)) (\<lambda>_.
         bnd (put_announce E me u ms ?opts) (\<lambda>_.
         ret (OK, ())))))"
  have "bnd (catch_io (bnd (put_write E me md u ?dir chunks) (\<lambda>_. ret True)) False) body s1
      = Some (Returns (OK, ()), s')"
    using run valid plain
    by (simp add: fs_service_put_def Let_def r1 parse body_def plain_put_def put_replicate_def put_move_away_def
        cong: if_cong)
  then obtain b s2 where s2: "catch_io (bnd (put_write E me md u ?dir chunks) (\<lambda>_. ret True)) False s1
      = Some (Returns b, s2)" and rest: "body b s2 = Some (Returns (OK, ()), s')"
    by (auto simp: bnd_Some)
  have b: b using rest by (auto simp: body_def ret_def split: if_splits)
  then have "put_write E me md u ?dir chunks s1 = Some (Returns (), s2)"
    using s2 by (auto simp: catch_io_def on_exception_def bnd_def ret_def
        split: option.splits outcome.splits prod.splits if_splits)
  then have wrote: "disk_step me s1 s2 \<and>
      file_content (my_disk me s2) (path_append ?dir (uri_path u)) = Some (concat chunks)"
    using disk_step_same(2,7) [OF step1] tree u fresh_hashes [OF u(1)]
    by (intro put_write_stores) auto
  have same: "same_disks s2 s'"
  proof -
    have "keeps (same_disks s2) (body True)"
      unfolding body_def
      by (simp only: simp_thms if_False)
        (intro meta_contract.steps [OF contract] meta_contract.put_announce_keeps [OF contract])
    moreover have "body True s2 = Some (Returns (OK, ()), s')" using rest b by simp
    ultimately show ?thesis
      using keepsD [where I = "same_disks s2" and s = s2] same_disks_refl by blast
  qed
  have step: "disk_step me s s2" using disk_step_trans [OF step1] wrote by blast
  have ctx: "my_ctx x s' = my_ctx x s" for x
    using same disk_step_same(3) [OF step, of x] by (simp add: same_disks_def same_setup_def my_ctx_def)
  then show "my_ctx x s' = my_ctx x s" .
  have disk: "my_disk me s' = my_disk me s2" using same by (simp add: same_disks_def)
  show "file_content (my_disk me s') (data_path me u s') = Some (concat chunks)"
    using wrote by (simp add: disk data_path_def ctx)
  show "tree_ok (my_disk me s')" using disk_step_same(7) [OF step tree] by (simp add: disk)
  show "x \<noteq> me \<Longrightarrow> my_disk x s' = my_disk x s"
    using same disk_step_same(5) [OF step] by (simp add: same_disks_def)
  show "alive (ring s') x \<Longrightarrow> alive (ring s) x"
    using same disk_step_same(1) [OF step] by (simp add: same_disks_def same_setup_def)
qed

subsection \<open>The handler of a get\<close>

lemma above_is_directory:
  assumes "tree_ok d" "find_node d (k @ ns) \<noteq> None" "ns \<noteq> []"
  shows "find_node d k = Some Directory"
  using assms(2,3)
proof (induction ns rule: rev_induct)
  case (snoc n ns)
  have "find_node d (k @ ns) = Some Directory"
    using tree_parent [OF assms(1) snoc.prems(1)] by (simp add: butlast_append)
  then show ?case using snoc.IH by (cases "ns = []") auto
qed simp

lemma service_get_reads:
  assumes tree: "tree_ok (my_disk me s)" and u: "names_file (uri_path u)" "uri_from (greq_uri req) = Inr u"
    and content: "file_content (my_disk me s) (data_path me u s) = Some t"
    and dir: "ctx_data_directory (my_ctx me s) \<noteq> []"
  shows "fs_service_get E me md req s = Some (Returns (OK, chunks_of CHUNK t), s)"
proof -
  let ?d = "my_disk me s" let ?dir = "ctx_data_directory (my_ctx me s)"
  note reg = file_content_regular [OF content]
  have "dot_free (names (uri_path u))" using dot_free_canonical [of "uri_path u"] u(1) by (simp add: names_file_def)
  then have key: "resolve ?d (data_path me u s) = resolve ?d ?dir @ names (uri_path u)"
    by (simp add: data_path_def resolve_append fold_resolve_plain)
  have "find_node ?d (resolve ?d ?dir) = Some Directory"
    using reg u(1) above_is_directory [OF tree, of "resolve ?d ?dir" "names (uri_path u)"]
    by (auto simp: file_exists_def key names_file_def)
  then have "file_is_directory ?d ?dir" using dir by (simp add: file_is_directory_def)
  moreover have "open_for_reading me (data_path me u s) s = Some (Returns t, s)"
    using content by (auto simp: open_for_reading_def file_content_def split: option.splits file_node.splits)
  ultimately show ?thesis
    using reg u(2)
    by (simp add: fs_service_get_def parse_uri_def bnd_def gets_def reads_def ret_def uri_result_def
        catch_io_def on_exception_def)
qed

subsection \<open>Put and get\<close>

lemma transfer_stores:
  assumes env: "env_ring E = network t k" "\<And>v. env_uparse E (env_utext E v) = v"
    and u: "uri_from (uri_string u) = Inr u" "names_file (uri_path u)"
    and fresh: "\<not> md_exists u (my_db (node_endpoint n) s)"
    and tree: "tree_ok (my_disk (node_endpoint n) s)" and plain: "plain_put opts"
    and put: "client_put_node (fs_close E d) me n u content opts s = Some (Returns OK, s')"
  shows "file_content (my_disk (node_endpoint n) s') (data_path (node_endpoint n) u s') = Some content"
    "tree_ok (my_disk (node_endpoint n) s')" "my_ctx x s' = my_ctx x s"
    "\<exists>md. rpc_put (fs_network E d) me (node_endpoint n) md (chunks_of CHUNK content) s = Some ((OK, ()), s')"
proof -
  let ?me = "node_endpoint n" let ?md = "put_metadata (fs_close E d) u content opts"
  let ?chunks = "chunks_of CHUNK content"
  obtain d' where d': "d = Suc d'"
    using put by (cases d) (auto simp: client_put_node_def rpc_def bnd_def gets_def ret_def split: if_splits)
  let ?E = "fs_close E d'"
  have rpc: "rpc_put (fs_network E d) me ?me ?md ?chunks s = Some ((OK, ()), s')"
    using put by (auto simp: client_put_node_def rpc_def bnd_def gets_def ret_def
        split: if_splits option.splits)
  then have run: "fs_service_put ?E ?me ?md ?chunks s = Some (Returns (OK, ()), s')"
    by (auto simp: d' fs_network_stubs dest: fs_deliver_OK)
  note reads = put_metadata_reads [where E = "fs_close E d", simplified, OF env(2)]
  have contract: "meta_contract (same_disks s0) (network t k) (\<lambda>_. True) ?E ?me" for s0
    by (rule disks.network_meta_contract [OF env(1) TrueI])
  have md: "uri_of_metadata ?md = Some (Inr u)" "plain_put (call_options ?E ?md)"
    using reads u(1) plain by (simp_all add: call_options_def plain_put_def)
  note stored = service_put_stores [OF contract run md(1) u(2) fresh tree md(2)]
  show "file_content (my_disk ?me s') (data_path ?me u s') = Some content" "tree_ok (my_disk ?me s')"
    "my_ctx x s' = my_ctx x s"
    using stored by simp_all
  show "\<exists>md. rpc_put (fs_network E d) me ?me md ?chunks s = Some ((OK, ()), s')" using rpc by blast
qed

lemma stored_served:
  assumes u: "uri_from (uri_string u) = Inr u" "names_file (uri_path u)"
    and stored: "file_content (my_disk (node_endpoint n) s) (data_path (node_endpoint n) u s) = Some content"
      "tree_ok (my_disk (node_endpoint n) s)" "ctx_data_directory (my_ctx (node_endpoint n) s) \<noteq> []"
    and up: "alive (ring s) (node_endpoint n)"
  shows "\<exists>cs. client_get_node (fs_close E (Suc e)) you u n s = Some (Returns (OK, cs), s) \<and> concat cs = content"
proof -
  have "fs_service_get (fs_close E e) (node_endpoint n) []
      \<lparr>greq_id = uri_hash (fs_close E (Suc e)) u, greq_uri = uri_string u\<rparr> s =
      Some (Returns (OK, chunks_of CHUNK content), s)"
    using stored u by (intro service_get_reads) simp_all
  then have "client_get_node (fs_close E (Suc e)) you u n s = Some (Returns (OK, chunks_of CHUNK content), s)"
    using up by (simp add: client_get_node_def rpc_def fs_network_stubs fs_deliver_def fs_respond_def)
  then show ?thesis by simp
qed

lemma transfer_round_trip:
  assumes env: "env_ring E = network t k" "\<And>v. env_uparse E (env_utext E v) = v"
    and u: "uri_from (uri_string u) = Inr u" "names_file (uri_path u)"
    and fresh: "\<not> md_exists u (my_db (node_endpoint n) s)"
    and server: "tree_ok (my_disk (node_endpoint n) s)" "ctx_data_directory (my_ctx (node_endpoint n) s) \<noteq> []"
    and plain: "plain_put opts"
    and put: "client_put_node (fs_close E d) me n u content opts s = Some (Returns OK, s')"
    and up: "alive (ring s') (node_endpoint n)"
  shows "\<exists>cs. client_get_node (fs_close E (Suc e)) you u n s' = Some (Returns (OK, cs), s') \<and> concat cs = content"
  using stored_served [OF u _ _ _ up] transfer_stores [OF env u fresh server(1) plain put] server(2) by simp

subsection \<open>Creating files\<close>

lemma file_create_empty:
  assumes "file_is_directory d q" "names n = [m]" "m \<noteq> ''.''" "m \<noteq> ''..''" "\<not> file_exists d (path_append q n)"
  shows "\<exists>d'. file_create (path_append q n) d = (True, d') \<and> file_content d' (path_append q n) = Some []"
proof -
  let ?p = "path_append q n"
  have key: "resolve d ?p = resolve d q @ [m]" using assms(2-4) by (simp add: resolve_append resolve_step_def)
  have p: "?p \<noteq> []" using names_path_append [of q n] assms(2) by auto
  have "find_node d (resolve d ?p) = None" using assms(5) p by (simp add: file_exists_def)
  moreover have "parent_is_directory d (resolve d ?p)"
    using assms(1) by (simp add: parent_is_directory_def key file_is_directory_def)
  ultimately show ?thesis
    using p key by (simp add: file_create_def file_content_def find_path_def find_put Let_def)
qed

lemma known_hashes:
  assumes "uri_of_metadata md = Some (Inr u)" "md_get u (my_db me s) = Returns [m]"
    and "meta_file_type m = type_regular" "meta_file_hash m = Some h" "file_hash_from (env_uparse E) md = Some h"
  shows "file_hashes_equal E me md s = Some (Returns True, s)"
  using assms md.get_iff [of u "my_db me s"]
  by (simp add: file_hashes_equal_def metadata_uri_def uri_result_def bnd_def reads_def gets_def ret_def Let_def
      is_regular_file_def)

end
