(* ===== verification/Monitor.thy ===== *)
theory Monitor
  imports File_System Run "HOL-Library.Multiset"
begin

text \<open>
  The watch over the data directory (\<open>include/chord.fs.monitor.h\<close>, \<open>src/chord.fs.monitor.cc\<close>):
  events of fswatch are mapped, those of directories and those that a filter announces as the
  program's own are dropped, and the rest is sent once per path.  The threads and fswatch
  itself are left out; its flags are \<open>fsw_flag\<close>.  \<open>std::sort\<close> is the parameter \<open>sorter\<close>, of
  which the language only promises a sorted permutation.  \<open>Undefined\<close> is a flag that is none
  of the three, read out of an empty optional.
\<close>

datatype event_flag = CREATED | UPDATED | REMOVED

datatype fsw_flag = Fsw_created | Fsw_updated | Fsw_removed | Fsw_other

record fsw_event =
  fsw_path :: string
  fsw_time :: int
  fsw_flags :: "fsw_flag list"

record event =
  ev_path :: string
  ev_flags :: "event_flag list"
  ev_time :: int

record event_filter =
  filter_path :: path
  filter_flag :: "event_flag option"

record monitor =
  mon_filters :: "event_filter list"
  mon_events :: "event list"
  mon_filters_cow :: "event_filter list"

definition new_monitor :: monitor where
  "new_monitor = \<lparr>mon_filters = [], mon_events = [], mon_filters_cow = []\<rparr>"

definition flag_name :: "event_flag \<Rightarrow> string" where
  "flag_name f = (case f of CREATED \<Rightarrow> ''created'' | UPDATED \<Rightarrow> ''updated'' | REMOVED \<Rightarrow> ''removed'')"

definition flag_mapped_type :: "event_flag \<Rightarrow> fsw_flag" where
  "flag_mapped_type f =
     (case f of CREATED \<Rightarrow> Fsw_created | UPDATED \<Rightarrow> Fsw_updated | REMOVED \<Rightarrow> Fsw_removed)"

definition flag_values :: "event_flag list" where
  "flag_values = [CREATED, UPDATED, REMOVED]"

definition flag_from :: "fsw_flag \<Rightarrow> event_flag option" where
  "flag_from f = List.find (\<lambda>v. flag_mapped_type v = f) flag_values"

definition filter_eq :: "event_filter \<Rightarrow> event_filter \<Rightarrow> bool" where
  "filter_eq f g = path_eq (filter_path f) (filter_path g)"

subsection \<open>Filters\<close>

definition add_filter :: "event_filter \<Rightarrow> monitor \<Rightarrow> monitor" where
  "add_filter f m =
     m\<lparr>mon_filters := mon_filters m @ [f], mon_filters_cow := mon_filters_cow m @ [f]\<rparr>"

text \<open>\<open>filter::operator=\<close> keeps the old flag when the new filter has none.  Erasing from the vector moves
  the later filters down by such assignments.\<close>

definition filter_assign :: "event_filter \<Rightarrow> event_filter \<Rightarrow> event_filter" where
  "filter_assign f other =
     f\<lparr>filter_path := filter_path other,
       filter_flag := (case filter_flag other of None \<Rightarrow> filter_flag f | Some fl \<Rightarrow> Some fl)\<rparr>"

fun shift_down :: "event_filter list \<Rightarrow> event_filter list" where
  "shift_down (f # g # fs) = filter_assign f g # shift_down (g # fs)"
| "shift_down _ = []"

fun erase_filter :: "event_filter \<Rightarrow> event_filter list \<Rightarrow> event_filter list" where
  "erase_filter f [] = []"
| "erase_filter f (g # fs) = (if filter_eq g f then shift_down (g # fs) else g # erase_filter f fs)"

definition remove_filter :: "event_filter \<Rightarrow> monitor \<Rightarrow> monitor" where
  "remove_filter f m = m\<lparr>mon_filters := erase_filter f (mon_filters m)\<rparr>"

text \<open>Copying one vector to another assigns to the filters that are there, unless the storage has to
  grow; the language leaves open when it does, so that is the parameter \<open>grows\<close>.\<close>

definition copy_filters :: "bool \<Rightarrow> event_filter list \<Rightarrow> event_filter list \<Rightarrow> event_filter list" where
  "copy_filters grows old fs = (if grows then fs else map2 filter_assign old fs @ drop (length old) fs)"

text \<open>\<open>monitor::lock\<close>: a filter for the time of \<open>body\<close>.\<close>

definition with_lock :: "event_filter \<Rightarrow> (monitor \<Rightarrow> monitor) \<Rightarrow> monitor \<Rightarrow> monitor" where
  "with_lock f body m = remove_filter f (body (add_filter f m))"

definition filter_matches :: "event_filter \<Rightarrow> event \<Rightarrow> bool" where
  "filter_matches f e =
     (filter_path f = ev_path e \<and>
      (case filter_flag f of None \<Rightarrow> True | Some fl \<Rightarrow> fl \<in> set (ev_flags e)))"

subsection \<open>Events\<close>

fun map_flags :: "fsw_flag list \<Rightarrow> event_flag list option" where
  "map_flags [] = Some []"
| "map_flags (f # fs) =
     (case (flag_from f, map_flags fs) of (Some g, Some gs) \<Rightarrow> Some (g # gs) | _ \<Rightarrow> None)"

fun map_events :: "fsw_event list \<Rightarrow> event list option" where
  "map_events [] = Some []"
| "map_events (ev # evs) =
     (case (map_flags (fsw_flags ev), map_events evs) of
        (Some fl, Some es) \<Rightarrow> Some (\<lparr>ev_path = fsw_path ev, ev_flags = fl, ev_time = fsw_time ev\<rparr> # es)
      | _ \<Rightarrow> None)"

text \<open>\<open>std::unique\<close>: of equal neighbours the first stays.\<close>

fun unique_paths :: "event list \<Rightarrow> event list" where
  "unique_paths [] = []"
| "unique_paths [e] = [e]"
| "unique_paths (e # f # es) =
     (if ev_path e = ev_path f then unique_paths (e # es) else e # unique_paths (f # es))"

definition fire_events :: "(event list \<Rightarrow> event list) \<Rightarrow> monitor \<Rightarrow> event list list \<times> monitor" where
  "fire_events sorter m =
     (if mon_events m = [] then ([], m)
      else ([unique_paths (sorter (rev (mon_events m)))], m\<lparr>mon_events := []\<rparr>))"

definition monitor_process ::
  "(event list \<Rightarrow> event list) \<Rightarrow> bool \<Rightarrow> disk \<Rightarrow> fsw_event list \<Rightarrow> monitor \<Rightarrow> event list list outcome \<times> monitor" where
  "monitor_process sorter grows d evs m =
     (case map_events evs of
        None \<Rightarrow> (Undefined, m)
      | Some mapped \<Rightarrow>
          let mapped = filter (\<lambda>e. \<not> file_is_directory d (ev_path e)) mapped;
              mapped = filter (\<lambda>e. \<not> list_ex (\<lambda>f. filter_matches f e) (mon_filters_cow m)) mapped;
              m = m\<lparr>mon_filters_cow := copy_filters grows (mon_filters_cow m) (mon_filters m), mon_events := mon_events m @ mapped\<rparr>
          in if mapped = [] then (Returns [], m)
             else (case fire_events sorter m of (sent, m) \<Rightarrow> (Returns sent, m)))"

subsection \<open>Filters hold until the next batch\<close>

lemma with_lock_filters:
  assumes "\<And>m. mon_filters (body m) = mon_filters m" "\<And>m. mon_filters_cow (body m) = mon_filters_cow m"
    and "\<not> list_ex (\<lambda>g. filter_eq g f) (mon_filters m)"
  shows "mon_filters (with_lock f body m) = mon_filters m"
    and "mon_filters_cow (with_lock f body m) = mon_filters_cow m @ [f]"
proof -
  have "filter_eq f f" by (simp add: filter_eq_def path_eq_def)
  then have "erase_filter f (xs @ [f]) = xs" if "\<not> list_ex (\<lambda>g. filter_eq g f) xs" for xs
    using that by (induction xs) auto
  then show "mon_filters (with_lock f body m) = mon_filters m"
    using assms by (simp add: with_lock_def remove_filter_def add_filter_def)
  show "mon_filters_cow (with_lock f body m) = mon_filters_cow m @ [f]"
    using assms by (simp add: with_lock_def remove_filter_def add_filter_def)
qed

text \<open>Whatever storage is used, the copy has the paths of the filters, but maybe other flags; and a filter
  without a flag that follows an erased one with a flag takes that over.\<close>

lemma copy_filters_paths: "map filter_path (copy_filters grows old fs) = map filter_path fs"
proof -
  have "map filter_path (map2 filter_assign old fs) = map filter_path (take (length old) fs)"
    by (rule nth_equalityI) (simp_all add: filter_assign_def)
  then show ?thesis
    by (simp add: copy_filters_def) (metis append_take_drop_id map_append)
qed

lemma erased_filter_leaves_flag:
  assumes "filter_eq f f'" "filter_flag f = Some fl" "filter_flag g = None"
  shows "mon_filters (remove_filter f' (new_monitor\<lparr>mon_filters := [f, g]\<rparr>)) =
    [g\<lparr>filter_flag := Some fl\<rparr>]"
  using assms by (simp add: remove_filter_def filter_assign_def new_monitor_def)

text \<open>Every event of a locked path is dropped by the batch that follows, and only by that one.\<close>

lemma map_events_length: "map_events evs = Some es \<Longrightarrow> map ev_path es = map fsw_path evs"
  by (induction evs arbitrary: es) (auto split: option.splits)

lemma process_drops:
  assumes "f \<in> set (mon_filters_cow m)" "filter_flag f = None" "mon_events m = []"
    and "\<forall>ev\<in>set evs. fsw_path ev = filter_path f" "map_events evs \<noteq> None"
  shows "monitor_process sorter grows d evs m =
    (Returns [], m\<lparr>mon_filters_cow := copy_filters grows (mon_filters_cow m) (mon_filters m)\<rparr>)"
proof -
  obtain es where es: "map_events evs = Some es" using assms(5) by blast
  have "\<forall>p\<in>set (map ev_path es). p = filter_path f"
    unfolding map_events_length [OF es] using assms(4) by simp
  then have "\<forall>e\<in>set es. list_ex (\<lambda>f. filter_matches f e) (mon_filters_cow m)"
    using assms(1,2) by (auto simp: list_ex_iff filter_matches_def)
  then have "filter (\<lambda>e. \<not> list_ex (\<lambda>f. filter_matches f e) (mon_filters_cow m))
      (filter (\<lambda>e. \<not> file_is_directory d (ev_path e)) es) = []"
    by (auto simp: filter_empty_conv)
  then show ?thesis using es assms(3) by (simp add: monitor_process_def)
qed

subsection \<open>One event per path\<close>

lemma unique_paths_hd: "unique_paths (e # es) \<noteq> [] \<and> hd (unique_paths (e # es)) = e"
proof (induction "e # es" arbitrary: e es rule: unique_paths.induct)
  case (3 e f es)
  then show ?case by (cases "ev_path e = ev_path f") simp_all
qed simp

lemma unique_paths_set: "set (unique_paths es) \<subseteq> set es"
  by (induction es rule: unique_paths.induct) (auto split: if_splits)

lemma unique_paths_paths: "ev_path ` set (unique_paths es) = ev_path ` set es"
  by (induction es rule: unique_paths.induct) auto

lemma unique_paths_distinct:
  "sorted (map ev_path es) \<Longrightarrow> distinct (map ev_path (unique_paths es))"
proof (induction es rule: unique_paths.induct)
  case (3 e f es)
  show ?case
  proof (cases "ev_path e = ev_path f")
    case False
    have lt: "ev_path e < ev_path g" if "g \<in> set (f # es)" for g
      using 3(3) False that by (auto dest: order_antisym intro: order.strict_trans1 simp: less_le)
    have "ev_path e \<notin> ev_path ` set (unique_paths (f # es))"
    proof
      assume "ev_path e \<in> ev_path ` set (unique_paths (f # es))"
      then obtain g where "g \<in> set (f # es)" "ev_path e = ev_path g"
        unfolding unique_paths_paths by blast
      then show False using lt [of g] by simp
    qed
    then show ?thesis using 3 False by simp
  qed (use 3 in simp)
qed simp_all

lemma unique_paths_first:
  "sorted (map ev_path es) \<Longrightarrow> e \<in> set (unique_paths es) \<Longrightarrow>
   e = hd (filter (\<lambda>x. ev_path x = ev_path e) es)"
proof (induction es rule: unique_paths.induct)
  case (3 x f es)
  show ?case
  proof (cases "ev_path x = ev_path f")
    case True
    then have "e = hd (filter (\<lambda>y. ev_path y = ev_path e) (x # es))" using 3 by simp
    then show ?thesis using True 3(4) by (auto split: if_splits)
  next
    case False
    then consider "e = x" | "e \<in> set (unique_paths (f # es))" using 3(4) by auto
    then show ?thesis
    proof cases
      case 2
      then have "e \<in> set (f # es)" using unique_paths_set [of "f # es"] by blast
      then have "ev_path e \<noteq> ev_path x" using 3(3) False by auto
      then show ?thesis using 2 3 False by simp
    qed simp
  qed
qed simp_all

text \<open>What \<open>std::sort\<close> promises; a stable sort moreover keeps the order of events of one path.\<close>

definition sorts :: "(event list \<Rightarrow> event list) \<Rightarrow> bool" where
  "sorts f = (\<forall>es. sorted (map ev_path (f es)) \<and> mset (f es) = mset es)"

definition keeps_order :: "(event list \<Rightarrow> event list) \<Rightarrow> bool" where
  "keeps_order f = (\<forall>es p. filter (\<lambda>e. ev_path e = p) (f es) = filter (\<lambda>e. ev_path e = p) es)"

lemma sorts_stable: "sorts (sort_key ev_path)" "keeps_order (sort_key ev_path)"
  by (simp_all add: sorts_def keeps_order_def sort_key_stable)

text \<open>A sort that is not stable: it leaves the events of one path in the reverse order.\<close>

definition reversing :: "event list \<Rightarrow> event list" where
  "reversing es = sort_key ev_path (rev es)"

lemma sorts_reversing: "sorts reversing"
  by (simp add: sorts_def reversing_def)

lemma sorts_set: "sorts f \<Longrightarrow> set (f es) = set es"
  by (metis sorts_def set_mset_mset)

text \<open>The event sent for a path is the first one of it after sorting, the latest one if the sort is
  stable.\<close>

lemma fire_events_first:
  assumes "sorts sorter" "fire_events sorter m = ([es], m')" "e \<in> set es"
  shows "e = hd (filter (\<lambda>x. ev_path x = ev_path e) (sorter (rev (mon_events m))))"
proof -
  have es: "es = unique_paths (sorter (rev (mon_events m)))"
    using assms(2) by (auto simp: fire_events_def split: if_splits)
  then show ?thesis using assms(1,3) by (intro unique_paths_first) (simp_all add: sorts_def)
qed

lemma fire_events_latest:
  assumes "sorts sorter" "keeps_order sorter" "fire_events sorter m = ([es], m')" "e \<in> set es"
  shows "e = last (filter (\<lambda>x. ev_path x = ev_path e) (mon_events m))"
proof -
  have "e = hd (filter (\<lambda>x. ev_path x = ev_path e) (sorter (rev (mon_events m))))"
    by (rule fire_events_first [OF assms(1,3,4)])
  also have "\<dots> = hd (rev (filter (\<lambda>x. ev_path x = ev_path e) (mon_events m)))"
    using assms(2) by (simp add: keeps_order_def rev_filter)
  finally show ?thesis by (simp add: hd_rev)
qed

lemma fire_events_spec:
  assumes "sorts sorter" "mon_events m \<noteq> []"
  shows "\<exists>es. fire_events sorter m = ([es], m\<lparr>mon_events := []\<rparr>) \<and> distinct (map ev_path es) \<and>
    set es \<subseteq> set (mon_events m) \<and> ev_path ` set es = ev_path ` set (mon_events m)"
proof -
  have s: "sorted (map ev_path (sorter (rev (mon_events m))))"
    "set (sorter (rev (mon_events m))) = set (mon_events m)"
    using assms(1) sorts_set [OF assms(1)] by (simp_all add: sorts_def)
  then show ?thesis
    using assms(2) unique_paths_set [of "sorter (rev (mon_events m))"]
      unique_paths_paths [of "sorter (rev (mon_events m))"] unique_paths_distinct
    by (auto simp: fire_events_def)
qed

end
