(* ===== verification/Fs_Facade.thy ===== *)
theory Fs_Facade
  imports Fs_Service Monitor
begin

text \<open>
  The file system as its users see it, and what it does when the ring changes
  (\<open>include/chord.fs.facade.h\<close>, \<open>src/chord.fs.facade.cc\<close>).  The parameter \<open>R\<close> stands for the
  difference of two paths when the right one holds special characters of regular
  expressions, the cases \<open>path_minus\<close> leaves out.  The locks of the monitor are left out.
  The directory iterator of \<open>initialize\<close> lists the files once, before any is moved.
  \<open>None\<close> is a call that does not return.
\<close>

type_synonym regex_minus = "path \<Rightarrow> path \<Rightarrow> path outcome"

datatype rebalance_event = JOIN | PREDECESSOR_FAIL | PREDECESSOR_UPDATE | LEAVE

definition minus_path :: "regex_minus \<Rightarrow> path \<Rightarrow> path \<Rightarrow> path outcome" where
  "minus_path R l r = (case path_minus l r of Some p \<Rightarrow> Returns p | None \<Rightarrow> R l r)"

definition path_difference :: "regex_minus \<Rightarrow> path \<Rightarrow> path \<Rightarrow> path fs_run" where
  "path_difference R l r = reads (\<lambda>_. minus_path R l r)"

subsection \<open>Operations\<close>

definition fs_facade_is_directory :: "fs_env \<Rightarrow> endpoint \<Rightarrow> uri \<Rightarrow> bool fs_run" where
  "fs_facade_is_directory E me target =
     bnd (client_dir E me target [] default_options) (\<lambda>(st, ms).
     if st = NOT_FOUND then ret False
     else if st \<noteq> OK then raise Chord_exception
     else ret (is_directory_set ms))"

definition fs_facade_mkdir :: "fs_env \<Rightarrow> endpoint \<Rightarrow> uri \<Rightarrow> replication \<Rightarrow> status_code fs_run" where
  "fs_facade_mkdir E me target repl =
     bnd (client_meta E me target ADD [builder_directory_uri target repl] default_options)
       (\<lambda>(st, _). ret st)"

definition put_file :: "fs_env \<Rightarrow> endpoint \<Rightarrow> path \<Rightarrow> uri \<Rightarrow> replication \<Rightarrow> status_code fs_run" where
  "put_file E me source target repl = client_put_path E me target source (options_of_replication repl)"

fun put_each ::
  "regex_minus \<Rightarrow> fs_env \<Rightarrow> endpoint \<Rightarrow> path \<Rightarrow> uri \<Rightarrow> replication \<Rightarrow> path list \<Rightarrow> status_code fs_run" where
  "put_each R E me source target repl [] = ret OK"
| "put_each R E me source target repl (child # rest) =
     bnd (gets (\<lambda>s. file_is_directory (my_disk me s) child)) (\<lambda>dir.
     if dir then put_each R E me source target repl rest
     else
       bnd (path_difference R child (parent_path source)) (\<lambda>relative.
       bnd (put_file E me child
              (new_uri (uri_scheme target) (path_append (canonical (uri_path target)) relative)) repl)
         (\<lambda>st.
       if \<not> is_successful st then ret st else put_each R E me source target repl rest)))"

definition fs_facade_put ::
  "regex_minus \<Rightarrow> fs_env \<Rightarrow> endpoint \<Rightarrow> path \<Rightarrow> uri \<Rightarrow> replication \<Rightarrow> status_code fs_run" where
  "fs_facade_put R E me source target repl =
     bnd (gets (\<lambda>s. file_is_directory (my_disk me s) source)) (\<lambda>dir.
     if dir then
       bnd (see_disk me (\<lambda>d. recursive_contents d source)) (\<lambda>children.
       put_each R E me source target repl children)
     else
       bnd (fs_facade_is_directory E me target) (\<lambda>to_dir.
       let new_target = (if to_dir then path_append (canonical (uri_path target)) (filename source)
                         else canonical (uri_path target))
       in put_file E me source (new_uri (uri_scheme target) new_target) repl))"

definition get_file :: "fs_env \<Rightarrow> endpoint \<Rightarrow> uri \<Rightarrow> path \<Rightarrow> status_code fs_run" where
  "get_file E me source target =
     catch_io
       (let parent = parent_path target in
        bnd (gets (\<lambda>s. file_exists (my_disk me s) parent)) (\<lambda>there.
        bnd (if there then ret () else make_directories me parent) (\<lambda>_.
        client_get_path E me source target)))
       INTERNAL"

text \<open>The loop over the entries returns with the first file, and with the first directory other
  than \<open>.\<close>, whose contents it gets.\<close>

definition get_target :: "metadata_set \<Rightarrow> metadata option" where
  "get_target ms =
     List.find (\<lambda>m. meta_file_type m = type_regular \<or>
       (meta_file_type m = type_directory \<and> meta_name m \<noteq> ''.'')) ms"

text \<open>One call of \<open>get\<close> up to its last, recursive, call: \<open>Inl\<close> is what it returns, \<open>Inr\<close> the
  arguments of the call.\<close>

definition get_step ::
  "regex_minus \<Rightarrow> fs_env \<Rightarrow> endpoint \<Rightarrow> uri \<Rightarrow> path \<Rightarrow> (status_code + uri \<times> path) fs_run" where
  "get_step R E me source target =
     bnd (client_meta E me source DIR [] default_options) (\<lambda>(st, ms).
     if st \<noteq> OK then ret (Inl st)
     else
       (case get_target ms of
          None \<Rightarrow> ret (Inl OK)
        | Some m \<Rightarrow>
            bnd (path_difference R (canonical (uri_path source)) (meta_name m)) (\<lambda>base.
            let new_source = new_uri (uri_scheme source) (path_append base (meta_name m)) in
            if meta_file_type m = type_regular then
              bnd (gets (\<lambda>s. file_exists (my_disk me s) target)) (\<lambda>there.
              bnd (get_file E me new_source (if there then path_append target (meta_name m) else target))
                (\<lambda>st. ret (Inl st)))
            else ret (Inr (new_source, path_append target (meta_name m))))))"

partial_function (option) fs_facade_get ::
  "regex_minus \<Rightarrow> fs_env \<Rightarrow> endpoint \<Rightarrow> uri \<Rightarrow> path \<Rightarrow> fs_world \<Rightarrow> (status_code outcome \<times> fs_world) option"
where
  "fs_facade_get R E me source target s =
     (case get_step R E me source target s of
        None \<Rightarrow> None
      | Some (r, s') \<Rightarrow>
          (case r of
             Returns q \<Rightarrow>
               (case q of
                  Inl st \<Rightarrow> Some (Returns st, s')
                | Inr (new_source, new_target) \<Rightarrow> fs_facade_get R E me new_source new_target s')
           | Throws e \<Rightarrow> Some (Throws e, s')
           | Undefined \<Rightarrow> Some (Undefined, s')))"

definition fs_facade_dir ::
  "fs_env \<Rightarrow> endpoint \<Rightarrow> uri \<Rightarrow> metadata_set \<Rightarrow> (status_code \<times> metadata_set) fs_run" where
  "fs_facade_dir E me u ms = client_dir E me u ms default_options"

text \<open>Printing an empty set reads past its end.\<close>

definition fs_facade_dir_text :: "fs_env \<Rightarrow> endpoint \<Rightarrow> uri \<Rightarrow> (status_code \<times> string) fs_run" where
  "fs_facade_dir_text E me u =
     bnd (fs_facade_dir E me u []) (\<lambda>(st, ms).
     if st = OK then bnd (require (metadata_set_print ms)) (\<lambda>t. ret (st, t)) else ret (st, []))"

definition fs_facade_exists :: "fs_env \<Rightarrow> endpoint \<Rightarrow> uri \<Rightarrow> status_code fs_run" where
  "fs_facade_exists E me u = bnd (fs_facade_dir E me u []) (\<lambda>(st, _). ret st)"

definition fs_facade_del :: "fs_env \<Rightarrow> endpoint \<Rightarrow> uri \<Rightarrow> bool \<Rightarrow> status_code fs_run" where
  "fs_facade_del E me u recursive = client_del E me u recursive default_options"

definition fs_facade_move :: "fs_env \<Rightarrow> endpoint \<Rightarrow> uri \<Rightarrow> uri \<Rightarrow> bool \<Rightarrow> status_code fs_run" where
  "fs_facade_move E me source target force =
     bnd (client_dir E me source [] default_options) (\<lambda>(st, ms).
     if st \<noteq> OK then ret st
     else if ms = [] then no_behaviour
     else client_mov E me source target (default_options\<lparr>opt_force := force\<rparr>))"

subsection \<open>Files that appear in the data directory\<close>

definition put_file_journal :: "regex_minus \<Rightarrow> fs_env \<Rightarrow> endpoint \<Rightarrow> path \<Rightarrow> status_code fs_run" where
  "put_file_journal R E me source =
     bnd (gets (my_ctx me)) (\<lambda>ctx.
     let journal = journal_directory ctx in
     bnd (gets (\<lambda>s. file_exists (my_disk me s) journal)) (\<lambda>there.
     bnd (if there then ret () else make_directories me journal) (\<lambda>_.
     bnd (path_difference R source (ctx_data_directory ctx)) (\<lambda>relative.
     let journal_path = path_append journal relative in
     bnd (path_difference R journal_path (filename journal_path)) (\<lambda>parent.
     bnd (gets (\<lambda>s. file_exists (my_disk me s) parent)) (\<lambda>there.
     bnd (if there then ret () else make_directories me parent) (\<lambda>_.
     bnd (on_disk me (\<lambda>d. map_sum id (Pair ()) (file_rename source journal_path d))) (\<lambda>_.
     bnd (fs_facade_put R E me journal_path (as_uri relative)
            (replication_of_count (ctx_replication_cnt ctx))) (\<lambda>st.
     if st = OK then bnd (on_disk me (file_remove journal_path)) (\<lambda>_. ret st) else ret st)))))))))"

definition handle_fs_remove :: "fs_env \<Rightarrow> endpoint \<Rightarrow> event \<Rightarrow> status_code fs_run" where
  "handle_fs_remove E me e = fs_facade_del E me (as_uri (ev_path e)) True"

definition handle_fs_update :: "regex_minus \<Rightarrow> fs_env \<Rightarrow> endpoint \<Rightarrow> event \<Rightarrow> status_code fs_run" where
  "handle_fs_update R E me e = put_file_journal R E me (ev_path e)"

fun erase_gone :: "regex_minus \<Rightarrow> endpoint \<Rightarrow> event list \<Rightarrow> event list fs_run" where
  "erase_gone R me [] = ret []"
| "erase_gone R me (e # es) =
     bnd (gets (\<lambda>s. ctx_data_directory (my_ctx me s))) (\<lambda>data.
     bnd (path_difference R (ev_path e) data) (\<lambda>relative.
     bnd (gets (\<lambda>s. md_exists (as_uri relative) (my_db me s))) (\<lambda>there.
     bnd (erase_gone R me es) (\<lambda>es.
     ret (if REMOVED \<in> set (ev_flags e) \<and> \<not> there then es else e # es)))))"

definition on_fs_event :: "regex_minus \<Rightarrow> fs_env \<Rightarrow> endpoint \<Rightarrow> event list \<Rightarrow> unit fs_run" where
  "on_fs_event R E me events =
     bnd (erase_gone R me events) (\<lambda>events.
     for_each events (\<lambda>e.
       bnd (if UPDATED \<in> set (ev_flags e) \<or> CREATED \<in> set (ev_flags e)
            then bnd (handle_fs_update R E me e) (\<lambda>_. ret ()) else ret ()) (\<lambda>_.
       if REMOVED \<in> set (ev_flags e)
       then bnd (handle_fs_remove E me e) (\<lambda>_. ret ()) else ret ())))"

subsection \<open>Moving files when the ring changes\<close>

definition refer_to_self :: "peer_context \<Rightarrow> metadata_set \<Rightarrow> metadata_set" where
  "refer_to_self ctx ms =
     map (\<lambda>m. if meta_node_ref m = None then m\<lparr>meta_node_ref := Some (ctx_node ctx)\<rparr> else m) ms"

definition rebalance_metadata :: "fs_env \<Rightarrow> endpoint \<Rightarrow> uri \<Rightarrow> bool \<Rightarrow> status_code fs_run" where
  "rebalance_metadata E me u shallow_copy =
     bnd (gets (my_ctx me)) (\<lambda>ctx.
     bnd (on_db me (md_del u)) (\<lambda>deleted.
     let deleted = (if shallow_copy then refer_to_self ctx deleted else deleted) in
     bnd (client_meta E me u ADD deleted default_options) (\<lambda>(st, _).
     if st = ALREADY_EXISTS then
       bnd (if is_regular_file deleted then on_disk me (util_remove ctx u) else ret False) (\<lambda>_. ret OK)
     else
       bnd (if st \<noteq> OK then on_db me (md_add u deleted) else ret False) (\<lambda>_. ret st))))"

text \<open>The entries are taken out before the call, and an exception of the call or of the lookup before it
  is not caught here: then they are not put back.\<close>

lemma rebalance_metadata_throws:
  assumes "md_del u (my_db me s) = (Returns ms, db)"
    and "client_meta E me u ADD ms default_options (set_db me db s) = Some (Throws e, s')"
  shows "rebalance_metadata E me u False s = Some (Throws e, s')"
  using assms by (simp add: rebalance_metadata_def bnd_def gets_def on_db_def ret_def)

definition rebalance_one :: "fs_env \<Rightarrow> endpoint \<Rightarrow> rebalance_event \<Rightarrow> uri \<times> metadata_set \<Rightarrow> unit fs_run" where
  "rebalance_one E me event pair =
     (case pair of (u, ms) \<Rightarrow>
       bnd (gets (\<lambda>s. (my_ctx me s, data_path me u s))) (\<lambda>(ctx, local_path).
       bnd (gets (\<lambda>s. file_exists (my_disk me s) local_path \<and> file_is_regular (my_disk me s) local_path))
         (\<lambda>there.
       let shallow_copy = (\<not> there \<and> is_shallow_copy ms ctx);
           copyable = (event \<noteq> LEAVE \<and> is_shallow_copyable ms ctx)
       in
       if is_directory_set ms \<or> shallow_copy \<or> copyable
       then bnd (rebalance_metadata E me u copyable) (\<lambda>_. ret ())
       else
         bnd (gets (\<lambda>s. file_exists (my_disk me s) local_path)) (\<lambda>there.
         if \<not> there then ret ()
         else if ms = [] then no_behaviour
         else
           let opts = default_options\<lparr>opt_replication := (meta_replication (hd ms))\<lparr>repl_index := 0\<rparr>,
                        opt_flag := True\<rparr>
           in catch_chord (bnd (client_put_path E me u local_path opts) (\<lambda>_. ret ())) (ret ())))))"

definition rebalance :: "fs_env \<Rightarrow> endpoint \<Rightarrow> uri_meta_map \<Rightarrow> rebalance_event \<Rightarrow> unit fs_run" where
  "rebalance E me metadata event = for_each metadata (rebalance_one E me event)"

definition umap_find :: "uri \<Rightarrow> uri_meta_map \<Rightarrow> bool" where
  "umap_find u m = list_ex (\<lambda>(v, _). \<not> uri_descending u v \<and> \<not> uri_descending v u) m"

definition initialize_tracked :: "fs_env \<Rightarrow> endpoint \<Rightarrow> uri \<times> metadata_set \<Rightarrow> unit fs_run" where
  "initialize_tracked E me pair =
     (case pair of (u, ms) \<Rightarrow>
       bnd (gets (\<lambda>s. (my_ctx me s, file_exists (my_disk me s) (data_path me u s)))) (\<lambda>(ctx, there).
       if is_shallow_copy ms ctx \<or> there then ret ()
       else
         bnd (client_dir E me u [] default_options) (\<lambda>(st, remote).
         if st = NOT_FOUND \<or> \<not> is_shallow_copy remote ctx
         then bnd (fs_facade_del E me u True) (\<lambda>_. ret ()) else ret ())))"

definition initialize_file :: "regex_minus \<Rightarrow> fs_env \<Rightarrow> endpoint \<Rightarrow> uri_meta_map \<Rightarrow> path \<Rightarrow> unit fs_run" where
  "initialize_file R E me metadata p =
     bnd (gets (\<lambda>s. (file_is_regular (my_disk me s) p, ctx_data_directory (my_ctx me s)))) (\<lambda>(reg, data).
     if \<not> reg then ret ()
     else
       bnd (path_difference R p data) (\<lambda>relative.
       if umap_find (as_uri relative) metadata then ret ()
       else bnd (put_file_journal R E me p) (\<lambda>_. ret ())))"

definition initialize :: "regex_minus \<Rightarrow> fs_env \<Rightarrow> endpoint \<Rightarrow> uri_meta_map \<Rightarrow> unit fs_run" where
  "initialize R E me metadata =
     bnd (for_each metadata (initialize_tracked E me)) (\<lambda>_.
     bnd (gets (\<lambda>s. ctx_data_directory (my_ctx me s))) (\<lambda>data.
     bnd (gets (\<lambda>s. file_exists (my_disk me s) data)) (\<lambda>there.
     if \<not> there then ret ()
     else
       bnd (see_disk me (\<lambda>d. recursive_contents d data)) (\<lambda>files.
       for_each files (initialize_file R E me metadata)))))"

subsection \<open>Signals of the ring\<close>

definition on_join :: "fs_env \<Rightarrow> endpoint \<Rightarrow> node \<Rightarrow> unit fs_run" where
  "on_join E me new_successor =
     bnd (gets (\<lambda>s. md_get_all (my_db me s))) (\<lambda>metadata. rebalance E me metadata JOIN)"

definition on_predecessor_update :: "regex_minus \<Rightarrow> fs_env \<Rightarrow> endpoint \<Rightarrow> node \<Rightarrow> node \<Rightarrow> unit fs_run" where
  "on_predecessor_update R E me from_node to_node =
     bnd (gets (\<lambda>s. md_get_all (my_db me s))) (\<lambda>metadata.
     bnd (rebalance E me metadata PREDECESSOR_UPDATE) (\<lambda>_.
     bnd (gets (\<lambda>s. ctx_node (my_ctx me s))) (\<lambda>self.
     if from_node = self \<and> to_node \<noteq> self then initialize R E me metadata else ret ())))"

definition on_leave :: "fs_env \<Rightarrow> endpoint \<Rightarrow> node \<Rightarrow> node \<Rightarrow> unit fs_run" where
  "on_leave E me predecessor successor =
     bnd (gets (\<lambda>s. ctx_node (my_ctx me s))) (\<lambda>self.
     if predecessor = self then ret ()
     else
       bnd (gets (\<lambda>s. md_get_all (my_db me s))) (\<lambda>metadata. rebalance E me metadata LEAVE))"

definition on_predecessor_fail :: "fs_env \<Rightarrow> endpoint \<Rightarrow> node \<Rightarrow> unit fs_run" where
  "on_predecessor_fail E me predecessor =
     bnd (gets (\<lambda>s. md_get_replicated 1 (my_db me s))) (\<lambda>metadata.
     rebalance E me metadata PREDECESSOR_FAIL)"

definition on_successor_fail :: "node \<Rightarrow> unit fs_run" where
  "on_successor_fail successor = ret ()"

text \<open>A get that is led on for ever does not return.\<close>

lemma facade_get_diverges:
  assumes L: "L source s"
    and step: "\<And>source target s. L source s \<Longrightarrow>
      \<exists>src tgt s'. get_step X E me source target s = Some (Returns (Inr (src, tgt)), s') \<and> L src s'"
  shows "fs_facade_get X E me source target s = None"
proof (rule ccontr)
  assume "fs_facade_get X E me source target s \<noteq> None"
  then obtain q where q: "fs_facade_get X E me source target s = Some q" by blast
  have "(X, E, me) = (X, E, me) \<longrightarrow> \<not> L source s"
  proof (rule fs_facade_get.raw_induct [where P = "\<lambda>Y F m source target s q. (Y, F, m) = (X, E, me) \<longrightarrow> \<not> L source s"])
    show "fs_facade_get X E me source target s = Some q" by (rule q)
    fix get Y F m source target s r
    assume IH: "\<And>Y F m source target s q. get Y F m source target s = Some q \<Longrightarrow> (Y, F, m) = (X, E, me) \<longrightarrow> \<not> L source s"
      and run: "(case get_step Y F m source target s of None \<Rightarrow> None
        | Some (r, s') \<Rightarrow> (case r of
             Returns q \<Rightarrow> (case q of Inl st \<Rightarrow> Some (Returns st, s')
                | Inr (new_source, new_target) \<Rightarrow> get Y F m new_source new_target s')
           | Throws e \<Rightarrow> Some (Throws e, s') | Undefined \<Rightarrow> Some (Undefined, s'))) = Some r"
    show "(Y, F, m) = (X, E, me) \<longrightarrow> \<not> L source s"
    proof (intro impI notI)
      assume same: "(Y, F, m) = (X, E, me)" and here: "L source s"
      obtain src tgt s' where "get_step X E me source target s = Some (Returns (Inr (src, tgt)), s')" "L src s'"
        using step [OF here] by blast
      then show False using run IH same by auto
    qed
  qed
  then show False using L by simp
qed

end
