(* ===== verification/Fs_Invariant.thy ===== *)
theory Fs_Invariant
  imports Fs_Network Fs_Facade
begin

text \<open>
  What every call of the file system keeps.  \<open>store_invariant\<close> is the interface of an invariant
  that the ring, a crash, and a change of a database or of a disk that leaves it well-formed
  keep; \<open>store_contract\<close> adds that calls of other processes keep it.  Inside, every call of
  the client, every handler and every operation of the facade is shown to keep it; the stubs
  closed by the handlers satisfy the contract at every depth.
\<close>

locale store_invariant = meta_invariant I R at for I :: "fs_world \<Rightarrow> bool" and R :: stubs and at :: "endpoint \<Rightarrow> bool" +
  assumes disk_keeps: "I s \<Longrightarrow> (tree_ok (my_disk me s) \<Longrightarrow> tree_ok d) \<Longrightarrow> I (set_disk me d s)"
begin

lemma on_disk_keeps:
  assumes "\<And>d x d'. tree_ok d \<Longrightarrow> f d = Inr (x, d') \<Longrightarrow> tree_ok d'"
  shows "keeps I (on_disk me f)"
proof (rule keepsI)
  fix s r s' assume s: "I s" "on_disk me f s = Some (r, s')"
  show "I s'"
  proof (cases "f (my_disk me s)")
    case (Inl e)
    then show ?thesis using s by (simp add: on_disk_def)
  next
    case (Inr y)
    then obtain x d where "f (my_disk me s) = Inr (x, d)" by (cases y) simp
    then show ?thesis using s assms by (auto simp: on_disk_def intro: disk_keeps)
  qed
qed

lemma disk_steps:
  "keeps I (on_disk me (file_create_directories p))" "keeps I (on_disk me (file_remove p))"
  "keeps I (on_disk me (util_remove ctx u))" "keeps I (on_disk me (\<lambda>d. Inr (file_create p d)))"
  "keeps I (on_disk me (\<lambda>d. map_sum id (Pair ()) (file_resize p n d)))"
  "keeps I (on_disk me (\<lambda>d. map_sum id (Pair ()) (file_rename p q d)))"
proof -
  have step: "tree_ok d'" if "map_sum id (Pair ()) v = Inr (x, d')" "\<And>d'. v = Inr d' \<Longrightarrow> tree_ok d'"
    for v :: "fs_error + disk" and x d'
    using that by (cases v) auto
  show "keeps I (on_disk me (file_create_directories p))"
    by (rule on_disk_keeps) (rule create_directories_spec)
  show "keeps I (on_disk me (file_remove p))" for p
    by (rule on_disk_keeps) (rule file_remove_tree)
  show "keeps I (on_disk me (util_remove ctx u))"
    unfolding util_remove_def by (rule on_disk_keeps) (rule file_remove_tree)
  show "keeps I (on_disk me (\<lambda>d. Inr (file_create p d)))"
  proof (rule on_disk_keeps)
    fix d x d' assume "tree_ok d" "Inr (file_create p d) = (Inr (x, d') :: fs_error + (bool \<times> disk))"
    then show "tree_ok d'" using file_create_tree [of d p] by simp
  qed
  show "keeps I (on_disk me (\<lambda>d. map_sum id (Pair ()) (file_resize p n d)))"
    by (rule on_disk_keeps) (erule step, erule (1) file_resize_tree)
  show "keeps I (on_disk me (\<lambda>d. map_sum id (Pair ()) (file_rename p q d)))"
    by (rule on_disk_keeps) (erule step, erule (1) file_rename_tree)
qed

lemma stream_steps:
  "keeps I (open_for_reading me p)" "keeps I (open_for_writing me p)" "keeps I (write_all me p chunks)"
  "keeps I (see_disk me f)"
proof -
  have wrote: "I (set_disk me d s)" if "I s" "file_write p t (my_disk me s) = Some d" for s t d
    using that by (auto intro: disk_keeps file_write_tree)
  show "keeps I (open_for_reading me p)" "keeps I (open_for_writing me p)" "keeps I (write_all me p chunks)"
    by (rule keepsI;
        auto simp: open_for_reading_def open_for_writing_def write_all_def wrote
          split: option.splits file_node.splits)+
  show "keeps I (see_disk me f)" by (simp add: see_disk_def keeps_basic)
qed

lemma make_directories_keeps: "keeps I (make_directories me p)"
  unfolding make_directories_def by (intro keeps_rules disk_steps)

end

locale store_contract = store_invariant I R at + meta_contract I R at E me
  for I :: "fs_world \<Rightarrow> bool" and R :: stubs and at :: "endpoint \<Rightarrow> bool" and E :: fs_env and me :: endpoint +
  assumes put_keeps: "I s \<Longrightarrow> rpc_put (env_fs E) a b md preq s = Some (pr, s') \<Longrightarrow> I s'"
    and get_keeps: "I s \<Longrightarrow> rpc_get (env_fs E) a b md greq s = Some (gr, s') \<Longrightarrow> I s'"
    and del_keeps: "I s \<Longrightarrow> rpc_del (env_fs E) a b md dreq s = Some (dr, s') \<Longrightarrow> I s'"
    and mov_keeps: "I s \<Longrightarrow> rpc_mov (env_fs E) a b md vreq s = Some (vr, s') \<Longrightarrow> I s'"
begin

lemma rpc_keeps:
  "keeps I (rpc (rpc_put (env_fs E)) me n md preq)" "keeps I (rpc (rpc_get (env_fs E)) me n md greq)"
  "keeps I (rpc (rpc_del (env_fs E)) me n md dreq)" "keeps I (rpc (rpc_mov (env_fs E)) me n md vreq)"
  by (rule keepsI; auto simp: rpc_def dest: put_keeps get_keeps del_keeps mov_keeps)+

lemmas store_steps = meta_steps disk_steps stream_steps make_directories_keeps rpc_keeps
  keeps_catch_io keeps_catch_chord

subsection \<open>The client\<close>

lemma client_put_keeps:
  "keeps I (client_put_node E me n u content opts)" "keeps I (client_put E me u content opts)"
  "keeps I (client_put_node_path E me n u p opts)" "keeps I (client_put_path E me u p opts)"
  unfolding client_put_def client_put_path_def client_put_node_path_def client_put_node_def
  by (intro store_steps)+

lemma client_mov_keeps: "keeps I (client_mov E me src dst opts)"
  unfolding client_mov_def client_mov_node_def by (intro store_steps)

lemma client_del_keeps:
  "keeps I (client_del_request E me n req opts)" "keeps I (client_del_node E me n u b opts)"
  "keeps I (client_del E me u b opts)"
  unfolding client_del_def client_del_node_def client_del_request_def by (intro store_steps)+

lemma client_get_keeps:
  "keeps I (client_get_node E me u n)" "keeps I (client_get E me u)"
  "keeps I (client_get_node_path E me u n p)" "keeps I (client_get_path E me u p)"
  unfolding client_get_path_def client_get_node_path_def client_get_def client_get_node_def
  by (intro store_steps)+

lemmas call_steps = store_steps client_dir_keeps client_put_keeps client_mov_keeps client_del_keeps client_get_keeps
  put_announce_keeps

subsection \<open>The handlers\<close>

lemma file_hashes_keeps: "keeps I (file_hashes_equal E me md)"
  unfolding file_hashes_equal_def metadata_uri_def by (intro call_steps)

lemma service_put_keeps: "keeps I (fs_service_put E me md chunks)"
  unfolding fs_service_put_def put_write_def put_replicate_def put_move_away_def metadata_uri_def
  by (intro call_steps file_hashes_keeps)

lemma handle_del_file_keeps: "keeps I (handle_del_file E me md req)"
  unfolding handle_del_file_def by (intro call_steps)

lemma del_each_keeps: "keeps I (del_each E me u b opts ms)"
proof (induction ms)
  case (Cons m ms)
  show ?case unfolding del_each.simps by (intro call_steps Cons)
qed (simp add: keeps_basic)

lemma handle_del_dir_keeps: "keeps I (handle_del_dir E me md req)"
  unfolding handle_del_dir_def handle_del_recursive_def by (intro call_steps del_each_keeps)

lemma service_del_keeps: "keeps I (fs_service_del E me md req)"
  unfolding fs_service_del_def by (intro call_steps handle_del_file_keeps handle_del_dir_keeps)

lemma service_mov_keeps: "keeps I (fs_service_mov E me md req)"
  unfolding fs_service_mov_def by (intro call_steps)

lemma get_each_keeps: "keeps I (get_each E me u data ms)"
proof (induction ms)
  case (Cons m ms)
  show ?case
    unfolding get_each.simps get_by_reference_def get_by_replication_def by (intro call_steps Cons)
qed (simp add: keeps_basic)

lemma service_get_keeps: "keeps I (fs_service_get E me md req)"
  unfolding fs_service_get_def get_from_reference_or_replication_def
  by (intro call_steps get_each_keeps)

subsection \<open>The facade\<close>

lemma path_difference_keeps: "keeps I (path_difference X l r)"
  unfolding path_difference_def by (rule keeps_basic)

lemmas facade_steps = call_steps path_difference_keeps

lemma put_each_keeps: "keeps I (put_each X E me source target repl cs)"
proof (induction cs)
  case (Cons c cs)
  show ?case unfolding put_each.simps put_file_def by (intro facade_steps Cons)
qed (simp add: keeps_basic)

lemma facade_put_keeps: "keeps I (fs_facade_put X E me source target repl)"
  unfolding fs_facade_put_def put_file_def fs_facade_is_directory_def Let_def
  by (intro facade_steps put_each_keeps)

lemma get_step_keeps: "keeps I (get_step X E me source target)"
  unfolding get_step_def get_file_def Let_def by (intro facade_steps)

lemma facade_get_keeps: "keeps I (fs_facade_get X E me source target)"
proof (rule keepsI)
  fix s r s' assume s: "I s" "fs_facade_get X E me source target s = Some (r, s')"
  have "(E, me) = (E, me) \<longrightarrow> I s \<longrightarrow> I (snd (r, s'))"
  proof (rule fs_facade_get.raw_induct [where P = "\<lambda>X F m source target s q. (F, m) = (E, me) \<longrightarrow> I s \<longrightarrow> I (snd q)"])
    fix get X F m source target s q
    assume IH: "\<And>X F m source target s q. get X F m source target s = Some q \<Longrightarrow> (F, m) = (E, me) \<longrightarrow> I s \<longrightarrow> I (snd q)"
      and run: "(case get_step X F m source target s of None \<Rightarrow> None
        | Some (r, s') \<Rightarrow> (case r of
             Returns q \<Rightarrow> (case q of Inl st \<Rightarrow> Some (Returns st, s')
                | Inr (new_source, new_target) \<Rightarrow> get X F m new_source new_target s')
           | Throws e \<Rightarrow> Some (Throws e, s') | Undefined \<Rightarrow> Some (Undefined, s'))) = Some q"
    show "(F, m) = (E, me) \<longrightarrow> I s \<longrightarrow> I (snd q)"
    proof (intro impI)
      assume "(F, m) = (E, me)" and s: "I s"
      then have F: "F = E" "m = me" by simp_all
      obtain r t where step: "get_step X E me source target s = Some (r, t)"
        using run F by (cases "get_step X E me source target s") auto
      then have t: "I t" using get_step_keeps s by (blast dest: keepsD)
      show "I (snd q)"
        using run step F t IH by (auto split: outcome.splits sum.splits prod.splits)
    qed
  qed (rule s(2))
  then show "I s'" using s(1) by simp
qed

lemma facade_call_keeps:
  "keeps I (fs_facade_dir E me u ms)" "keeps I (fs_facade_dir_text E me u)" "keeps I (fs_facade_exists E me u)"
  "keeps I (fs_facade_del E me u b)" "keeps I (fs_facade_move E me u v b)" "keeps I (fs_facade_mkdir E me u repl)"
  unfolding fs_facade_dir_text_def fs_facade_exists_def fs_facade_dir_def fs_facade_del_def fs_facade_move_def
    fs_facade_mkdir_def
  by (intro facade_steps)+

lemma put_file_journal_keeps: "keeps I (put_file_journal X E me source)"
  unfolding put_file_journal_def Let_def by (intro facade_steps facade_put_keeps)

lemma erase_gone_keeps: "keeps I (erase_gone X me es)"
proof (induction es)
  case (Cons e es)
  show ?case unfolding erase_gone.simps by (intro facade_steps Cons)
qed (simp add: keeps_basic)

lemma on_fs_event_keeps: "keeps I (on_fs_event X E me es)"
  unfolding on_fs_event_def handle_fs_update_def handle_fs_remove_def
  by (intro facade_steps erase_gone_keeps put_file_journal_keeps facade_call_keeps)

lemma rebalance_keeps: "keeps I (rebalance E me ms event)"
  unfolding rebalance_def rebalance_one_def rebalance_metadata_def Let_def by (intro facade_steps)

lemma initialize_keeps: "keeps I (initialize X E me ms)"
  unfolding initialize_def initialize_tracked_def initialize_file_def
  by (intro facade_steps put_file_journal_keeps facade_call_keeps)

lemma signal_keeps:
  "keeps I (on_join E me n)" "keeps I (on_predecessor_update X E me n m)" "keeps I (on_leave E me n m)"
  "keeps I (on_predecessor_fail E me n)"
  unfolding on_join_def on_predecessor_update_def on_leave_def on_predecessor_fail_def
  by (intro facade_steps rebalance_keeps initialize_keeps)+

end

subsection \<open>Closing the system\<close>

context store_invariant
begin

lemma network_store_contract:
  assumes "env_ring E = R"
  shows "at me \<Longrightarrow> store_contract I R at (fs_close E n) me"
proof (induction n arbitrary: me)
  case 0
  show ?case
    by (intro store_contract.intro store_contract_axioms.intro store_invariant_axioms
        network_meta_contract assms 0) simp_all
next
  case (Suc n)
  show ?case
    by (intro store_contract.intro store_contract_axioms.intro store_invariant_axioms
        network_meta_contract assms Suc.prems)
      (auto simp: fs_network_stubs elim!: fs_deliver_keeps
        intro: store_contract.service_put_keeps [OF Suc.IH] store_contract.service_get_keeps [OF Suc.IH]
          store_contract.service_del_keeps [OF Suc.IH] store_contract.service_mov_keeps [OF Suc.IH])
qed

end

text \<open>A step of the file system: the ring moves, a user calls the facade of a process or changes
  files on its disk, the ring or the monitor signals a change, or somebody calls a process.\<close>

definition fs_system :: "(endpoint \<Rightarrow> string) \<Rightarrow> fs_env \<Rightarrow> nat \<Rightarrow> nat \<Rightarrow> fs_env" where
  "fs_system t E k d = fs_close (E\<lparr>env_ring := network t k\<rparr>) d"

inductive fs_step :: "(endpoint \<Rightarrow> string) \<Rightarrow> fs_env \<Rightarrow> regex_minus \<Rightarrow> fs_world \<Rightarrow> fs_world \<Rightarrow> bool" for t E X where
  ring_moves: "ring_step t (ring s) w \<Longrightarrow> fs_step t E X s (s\<lparr>ring := w\<rparr>)"
| user_edits: "tree_ok d \<Longrightarrow> fs_step t E X s (set_disk me d s)"
| user_puts: "fs_facade_put X (fs_system t E k d) me source target repl s = Some (st, s') \<Longrightarrow> fs_step t E X s s'"
| user_gets: "fs_facade_get X (fs_system t E k d) me u p s = Some (st, s') \<Longrightarrow> fs_step t E X s s'"
| user_lists: "fs_facade_dir (fs_system t E k d) me u ms s = Some (r, s') \<Longrightarrow> fs_step t E X s s'"
| user_deletes: "fs_facade_del (fs_system t E k d) me u b s = Some (st, s') \<Longrightarrow> fs_step t E X s s'"
| user_moves: "fs_facade_move (fs_system t E k d) me u v b s = Some (st, s') \<Longrightarrow> fs_step t E X s s'"
| user_creates: "fs_facade_mkdir (fs_system t E k d) me u repl s = Some (st, s') \<Longrightarrow> fs_step t E X s s'"
| files_change: "on_fs_event X (fs_system t E k d) me es s = Some (q, s') \<Longrightarrow> fs_step t E X s s'"
| somebody_joins: "on_join (fs_system t E k d) me n s = Some (q, s') \<Longrightarrow> fs_step t E X s s'"
| predecessor_changes:
    "on_predecessor_update X (fs_system t E k d) me n m s = Some (q, s') \<Longrightarrow> fs_step t E X s s'"
| somebody_leaves: "on_leave (fs_system t E k d) me n m s = Some (q, s') \<Longrightarrow> fs_step t E X s s'"
| predecessor_fails: "on_predecessor_fail (fs_system t E k d) me n s = Some (q, s') \<Longrightarrow> fs_step t E X s s'"
| called_put: "rpc_put (env_fs (fs_system t E k d)) a b md chunks s = Some (pr, s') \<Longrightarrow> fs_step t E X s s'"
| called_get: "rpc_get (env_fs (fs_system t E k d)) a b md greq s = Some (gr, s') \<Longrightarrow> fs_step t E X s s'"
| called_del: "rpc_del (env_fs (fs_system t E k d)) a b md dreq s = Some (dr, s') \<Longrightarrow> fs_step t E X s s'"
| called_mov: "rpc_mov (env_fs (fs_system t E k d)) a b md vreq s = Some (vr, s') \<Longrightarrow> fs_step t E X s s'"
| called_meta: "rpc_meta (env_fs (fs_system t E k d)) a b md mreq s = Some (mr, s') \<Longrightarrow> fs_step t E X s s'"

text \<open>The tables of the ring, the databases and the disks are well-formed.\<close>

definition stores_ok :: "fs_world \<Rightarrow> bool" where
  "stores_ok s = (rings_ok (ring s) \<and> (\<forall>x. db_ok (my_db x s) \<and> tree_ok (my_disk x s)))"

interpretation stored: store_invariant stores_ok "network t n" "\<lambda>_. True" for t n
proof
  fix me u s db d
  show "keeps stores_ok (on_ring (facade_successor (network t n) me u))"
  proof (rule keepsI)
    fix s r s' assume s: "stores_ok s" "on_ring (facade_successor (network t n) me u) s = Some (r, s')"
    then obtain w where w: "facade_successor (network t n) me u (ring s) = Some (r, w)" "s' = s\<lparr>ring := w\<rparr>"
      by (auto simp: on_ring_def)
    then have "rings_ok w"
      using s(1) by (auto simp: stores_ok_def facade_successor_def
          dest!: net.service_successor_id_keeps [rotated] split: bind_splits)
    then show "stores_ok s'" using s(1) w(2) by (simp add: stores_ok_def)
  qed
  show "stores_ok s \<Longrightarrow> (db_ok (my_db me s) \<Longrightarrow> db_ok db) \<Longrightarrow> stores_ok (set_db me db s)"
    by (simp add: stores_ok_def)
  show "stores_ok s \<Longrightarrow> stores_ok (fs_crash me s)"
    by (simp add: stores_ok_def fs_crash_def rings_ok_local)
  show "stores_ok s \<Longrightarrow> (tree_ok (my_disk me s) \<Longrightarrow> tree_ok d) \<Longrightarrow> stores_ok (set_disk me d s)"
    by (simp add: stores_ok_def)
qed simp

lemma system_contract: "store_contract stores_ok (network t k) (\<lambda>_. True) (fs_system t E k d) me"
  unfolding fs_system_def by (rule stored.network_store_contract) simp_all

interpretation system: store_contract stores_ok "network t k" "\<lambda>_. True" "fs_system t E k d" me for t E k d me
  by (rule system_contract)

lemmas system_keeps = keepsD [OF system.facade_put_keeps, rotated] keepsD [OF system.facade_get_keeps, rotated]
  system.facade_call_keeps [THEN keepsD, rotated] keepsD [OF system.on_fs_event_keeps, rotated]
  system.signal_keeps [THEN keepsD, rotated] system.put_keeps [rotated] system.get_keeps [rotated]
  system.del_keeps [rotated] system.mov_keeps [rotated] system.meta_keeps [rotated]

lemma fs_step_keeps: "fs_step t E X s s' \<Longrightarrow> stores_ok s \<Longrightarrow> stores_ok s'"
proof (induction rule: fs_step.induct)
  case (ring_moves s w)
  then show ?case by (simp add: stores_ok_def ring_step_keeps)
next
  case (user_edits d s me)
  then show ?case by (simp add: stores_ok_def)
qed (erule (1) system_keeps)+

lemma reachable_stores_ok: "(fs_step t E X)\<^sup>*\<^sup>* s s' \<Longrightarrow> stores_ok s \<Longrightarrow> stores_ok s'"
  by (induction rule: rtranclp_induct) (auto dest: fs_step_keeps)

end
