(* ===== verification/Fs_Ring.thy ===== *)
theory Fs_Ring
  imports Fs_Transfer Fs_Invariant Linked
begin

text \<open>
  The file system on a linked ring.  Whatever its processes call, the ring stays linked as long
  as its members stay up; so who puts a file and who gets it agree on the member responsible for
  it.
\<close>

subsection \<open>The ring under the file system\<close>

text \<open>Only members are up, and unless one of them died they form a linked ring.\<close>

definition ring_kept :: "node set \<Rightarrow> fs_world \<Rightarrow> bool" where
  "ring_kept N s =
     ((\<forall>e. alive (ring s) e \<longrightarrow> e \<in> node_endpoint ` N) \<and>
      ((\<forall>n\<in>N. alive (ring s) (node_endpoint n)) \<longrightarrow> linked (ring s) N))"

lemma ring_kept_lookup:
  assumes "e \<in> node_endpoint ` N"
  shows "keeps (ring_kept N) (on_ring (facade_successor (network t k) e u))"
proof (rule keepsI)
  fix s r s' assume s: "ring_kept N s" "on_ring (facade_successor (network t k) e u) s = Some (r, s')"
  obtain x where x: "x \<in> N" "e = node_endpoint x" using assms by blast
  obtain w where w: "facade_successor (network t k) (node_endpoint x) u (ring s) = Some (r, w)" "s' = s\<lparr>ring := w\<rparr>"
    using s(2) x(2) by (auto simp: on_ring_def)
  have live: "alive w a \<Longrightarrow> alive (ring s) a" for a
    using facade_successor_setup [OF w(1), of "ring s"] by (simp add: same_setup_def)
  have "linked w N" if "\<forall>n\<in>N. alive w (node_endpoint n)"
  proof -
    have "linked (ring s) N" using s(1) that live by (auto simp: ring_kept_def)
    then show ?thesis using linked_any_lookup [OF _ x(1) w(1)] linked_learns by blast
  qed
  then show "ring_kept N s'" using s(1) live w(2) by (auto simp: ring_kept_def)
qed

lemma linked_crash:
  assumes "linked w N" "e \<notin> node_endpoint ` N"
  shows "linked (crash e w) N"
proof -
  have "linked_member (crash e w) N n" if "n \<in> N" for n
  proof -
    have "node_endpoint n \<noteq> e" using assms(2) that by blast
    moreover have "linked_member w N n" using assms(1) that by (simp add: linked_def)
    ultimately show ?thesis
      by (simp add: linked_member_def self_node_def crash_def self_ctx_def self_router_def)
  qed
  then show ?thesis using assms(1) by (simp add: linked_def)
qed

interpretation kept: store_invariant "ring_kept N" "network t k" "\<lambda>e. e \<in> node_endpoint ` N" for N t k
proof
  fix me u s db d
  show "me \<in> node_endpoint ` N \<Longrightarrow> keeps (ring_kept N) (on_ring (facade_successor (network t k) me u))"
    by (rule ring_kept_lookup)
  show "ring_kept N s \<Longrightarrow> alive (ring s) me \<Longrightarrow> me \<in> node_endpoint ` N"
    by (simp add: ring_kept_def)
  show "ring_kept N s \<Longrightarrow> (db_ok (my_db me s) \<Longrightarrow> db_ok db) \<Longrightarrow> ring_kept N (set_db me db s)"
    by (simp add: ring_kept_def)
  show "ring_kept N s \<Longrightarrow> (tree_ok (my_disk me s) \<Longrightarrow> tree_ok d) \<Longrightarrow> ring_kept N (set_disk me d s)"
    by (simp add: ring_kept_def)
  assume s: "ring_kept N s"
  have "linked (crash me (ring s)) N" if "\<forall>n\<in>N. alive (crash me (ring s)) (node_endpoint n)"
  proof (rule linked_crash)
    have up: "node_endpoint n \<noteq> me \<and> alive (ring s) (node_endpoint n)" if "n \<in> N" for n
      using \<open>\<forall>n\<in>N. alive (crash me (ring s)) (node_endpoint n)\<close> that by (auto simp: crash_def split: if_splits)
    then show "me \<notin> node_endpoint ` N" by blast
    show "linked (ring s) N" using s up by (simp add: ring_kept_def)
  qed
  then show "ring_kept N (fs_crash me s)" using s by (auto simp: ring_kept_def fs_crash_def crash_def)
qed

subsection \<open>Quiet rings\<close>

text \<open>While all members stay up no process hears anything of the ring, so no call of the file system
  makes a process move files on its own.\<close>

definition unheard :: "node set \<Rightarrow> fs_world \<Rightarrow> fs_world \<Rightarrow> bool" where
  "unheard N s0 s =
     (ring_kept N s \<and>
      ((\<forall>n\<in>N. alive (ring s) (node_endpoint n)) \<longrightarrow> (\<forall>x. heard x (ring s) = heard x (ring s0))))"

lemma quiet_lookup:
  assumes "e \<in> node_endpoint ` N"
  shows "keeps (unheard N s0) (on_ring (facade_successor (network t k) e u))"
proof (rule keepsI)
  fix s r s' assume s: "unheard N s0 s" "on_ring (facade_successor (network t k) e u) s = Some (r, s')"
  obtain x where x: "x \<in> N" "e = node_endpoint x" using assms by blast
  obtain w where w: "facade_successor (network t k) (node_endpoint x) u (ring s) = Some (r, w)" "s' = s\<lparr>ring := w\<rparr>"
    using s(2) x(2) by (auto simp: on_ring_def)
  have live: "alive w a \<Longrightarrow> alive (ring s) a" for a
    using facade_successor_setup [OF w(1), of "ring s"] by (simp add: same_setup_def)
  have "heard y w = heard y (ring s0)" if "\<forall>n\<in>N. alive w (node_endpoint n)" for y
  proof -
    have "linked (ring s) N" "heard y (ring s) = heard y (ring s0)"
      using s(1) that live by (auto simp: unheard_def ring_kept_def)
    then show ?thesis using learns_heard [OF linked_any_lookup [OF _ x(1) w(1)]] by simp
  qed
  then show "unheard N s0 s'"
    using keepsD [OF ring_kept_lookup [OF assms] _ s(2)] s(1) w(2) by (simp add: unheard_def)
qed

lemma heard_crash [simp]: "heard x (crash e w) = heard x w"
  by (simp add: heard_def crash_def)

interpretation calm: store_invariant "unheard N s0" "network t k" "\<lambda>e. e \<in> node_endpoint ` N" for N s0 t k
proof
  fix me u s db d
  show "me \<in> node_endpoint ` N \<Longrightarrow> keeps (unheard N s0) (on_ring (facade_successor (network t k) me u))"
    by (rule quiet_lookup)
  show "unheard N s0 s \<Longrightarrow> alive (ring s) me \<Longrightarrow> me \<in> node_endpoint ` N"
    by (simp add: unheard_def ring_kept_def)
  show "unheard N s0 s \<Longrightarrow> (db_ok (my_db me s) \<Longrightarrow> db_ok db) \<Longrightarrow> unheard N s0 (set_db me db s)"
    by (simp add: unheard_def ring_kept_def)
  show "unheard N s0 s \<Longrightarrow> (tree_ok (my_disk me s) \<Longrightarrow> tree_ok d) \<Longrightarrow> unheard N s0 (set_disk me d s)"
    by (simp add: unheard_def ring_kept_def)
  assume s: "unheard N s0 s"
  have "alive (ring s) e" if "alive (ring (fs_crash me s)) e" for e
    using that by (auto simp: fs_crash_def crash_def split: if_splits)
  then show "unheard N s0 (fs_crash me s)"
    using s kept.crash_keeps [of N s me] by (auto simp: unheard_def fs_crash_def)
qed

lemma quiet_start: "linked (ring s) N \<Longrightarrow> (\<And>e. alive (ring s) e \<Longrightarrow> e \<in> node_endpoint ` N) \<Longrightarrow> unheard N s s"
  by (simp add: unheard_def ring_kept_def)

text \<open>No call of the file system, however far it is passed on, is heard.\<close>

lemma quiet_stubs:
  assumes "env_ring E = network t k" "a \<in> node_endpoint ` N" "unheard N s0 s"
  shows "rpc_put (fs_network E d) a b md preq s = Some (pr, s') \<Longrightarrow> unheard N s0 s'"
    and "rpc_get (fs_network E d) a b md greq s = Some (gr, s') \<Longrightarrow> unheard N s0 s'"
    and "rpc_del (fs_network E d) a b md dreq s = Some (dr, s') \<Longrightarrow> unheard N s0 s'"
    and "rpc_mov (fs_network E d) a b md vreq s = Some (vr, s') \<Longrightarrow> unheard N s0 s'"
    and "rpc_meta (fs_network E d) a b md mreq s = Some (mr, s') \<Longrightarrow> unheard N s0 s'"
proof -
  have "store_contract (unheard N s0) (network t k) (\<lambda>e. e \<in> node_endpoint ` N) (fs_close E d) a"
    using calm.network_store_contract [OF assms(1,2)] .
  note c = store_contract.put_keeps [OF this assms(3)] store_contract.get_keeps [OF this assms(3)]
    store_contract.del_keeps [OF this assms(3)] store_contract.mov_keeps [OF this assms(3)]
    meta_contract.meta_keeps [OF store_contract.axioms(2) [OF this] assms(3)]
  show "rpc_put (fs_network E d) a b md preq s = Some (pr, s') \<Longrightarrow> unheard N s0 s'"
    "rpc_get (fs_network E d) a b md greq s = Some (gr, s') \<Longrightarrow> unheard N s0 s'"
    "rpc_del (fs_network E d) a b md dreq s = Some (dr, s') \<Longrightarrow> unheard N s0 s'"
    "rpc_mov (fs_network E d) a b md vreq s = Some (vr, s') \<Longrightarrow> unheard N s0 s'"
    "rpc_meta (fs_network E d) a b md mreq s = Some (mr, s') \<Longrightarrow> unheard N s0 s'"
    using c by simp_all
qed

subsection \<open>A file on the ring\<close>

lemma ring_successor_linked:
  assumes "env_ring E = network t k" "linked (ring s) N" "x \<in> N" "u \<notin> node_uuid ` N" "card N < k"
  shows "\<exists>n w'. responsible N u n \<and> learns N (ring s) w' \<and>
    ring_successor E (node_endpoint x) u s = Some (Returns n, s\<lparr>ring := w'\<rparr>)"
proof -
  obtain n w' where "responsible N u n" "learns N (ring s) w'"
    "facade_successor (network t k) (node_endpoint x) u (ring s) = Some (Returns n, w')"
    using linked_facade_successor [OF assms(2-5)] by blast
  then show ?thesis using assms(1) by (intro exI [of _ n] exI [of _ w']) (simp add: ring_successor_def on_ring_def)
qed

lemma put_get_on_ring:
  assumes env: "env_ring E = network t k" "\<And>v. env_uparse E (env_utext E v) = v"
    and u: "uri_from (uri_string u) = Inr u" "names_file (uri_path u)"
    and st: "linked (ring s) N" "\<And>e. alive (ring s) e \<Longrightarrow> e \<in> node_endpoint ` N" "card N < k"
    and xy: "x \<in> N" "y \<in> N" and hash: "uri_hash E u \<notin> node_uuid ` N"
    and server: "\<And>n. responsible N (uri_hash E u) n \<Longrightarrow> \<not> md_exists u (my_db (node_endpoint n) s) \<and>
      tree_ok (my_disk (node_endpoint n) s) \<and> ctx_data_directory (my_ctx (node_endpoint n) s) \<noteq> []"
    and plain: "plain_put opts"
    and put: "client_put (fs_close E d) (node_endpoint x) u content opts s = Some (Returns OK, s')"
    and up: "\<And>n. n \<in> N \<Longrightarrow> alive (ring s') (node_endpoint n)"
  shows "\<exists>cs s''. client_get (fs_close E (Suc e)) (node_endpoint y) u s' = Some (Returns (OK, cs), s'') \<and>
    concat cs = content"
proof -
  have E: "env_ring (fs_close E f) = network t k" "uri_hash (fs_close E f) u = uri_hash E u" for f
    using env(1) by (simp_all add: uri_hash_def)
  obtain n w where n: "responsible N (uri_hash E u) n" "learns N (ring s) w"
    "ring_successor (fs_close E d) (node_endpoint x) (uri_hash E u) s = Some (Returns n, s\<lparr>ring := w\<rparr>)"
    using ring_successor_linked [OF E(1) st(1) xy(1) hash st(3)] by blast
  let ?s = "s\<lparr>ring := w\<rparr>" let ?n = "node_endpoint n"
  have ctx: "my_ctx z ?s = my_ctx z s" "alive w = alive (ring s)" for z
    using learns_setup [OF n(2)] by (simp_all add: my_ctx_def)
  have node: "client_put_node (fs_close E d) (node_endpoint x) n u content opts ?s = Some (Returns OK, s')"
    using put n(3) by (simp add: client_put_def E(2))
  have fresh: "\<not> md_exists u (my_db ?n ?s)" "tree_ok (my_disk ?n ?s)" using server [OF n(1)] by simp_all
  note stored = transfer_stores [OF env u fresh plain node]
  have "ring_kept N ?s"
    using linked_learns [OF n(2) st(1)] st(2) ctx(2) by (simp add: ring_kept_def)
  moreover obtain md where "rpc_put (fs_network E d) (node_endpoint x) ?n md (chunks_of CHUNK content) ?s = Some ((OK, ()), s')"
    using stored(4) by blast
  ultimately have "ring_kept N s'"
    using store_contract.put_keeps [OF kept.network_store_contract [OF env(1)]] xy(1) by fastforce
  then have st': "linked (ring s') N" using up by (simp add: ring_kept_def)
  obtain m v where m: "responsible N (uri_hash E u) m" "learns N (ring s') v"
    "ring_successor (fs_close E (Suc e)) (node_endpoint y) (uri_hash E u) s' = Some (Returns m, s'\<lparr>ring := v\<rparr>)"
    using ring_successor_linked [OF E(1) st' xy(2) hash st(3)] by blast
  have "inj_on node_uuid N" using st(1) spaced_inj by (simp add: linked_def)
  then have "m = n" using m(1) n(1) unfolding responsible_def by (metis dist_inj inj_onD order_antisym)
  let ?t = "s'\<lparr>ring := v\<rparr>"
  have ctx': "my_ctx z ?t = my_ctx z s'" "alive v = alive (ring s')" "data_path z u ?t = data_path z u s'" for z
    using learns_setup [OF m(2)] by (simp_all add: my_ctx_def data_path_def)
  have "\<exists>cs. client_get_node (fs_close E (Suc e)) (node_endpoint y) u n ?t = Some (Returns (OK, cs), ?t) \<and> concat cs = content"
    using stored(1-3) server [OF n(1)] n(1) up ctx ctx' by (intro stored_served u) (simp_all add: responsible_def)
  then show ?thesis using m(3) \<open>m = n\<close> by (auto simp: client_get_def E(2))
qed

end
