(* ===== verification/Example.thy ===== *)
theory Example
  imports Growth
begin

text \<open>
  A ring of two members, with the tables they have after hearing of each other.  It is
  stable, so that the statements about stable rings can be applied to it.
\<close>

definition ctx_a :: peer_context where
  "ctx_a = (default_context 10)\<lparr>ctx_advertise_addr := ''ipv4:10.0.0.1:5001'', ctx_bootstrap := True\<rparr>"

definition ctx_b :: peer_context where
  "ctx_b = (default_context 1000)\<lparr>ctx_advertise_addr := ''ipv4:10.0.0.1:5002'', ctx_join_addr := ''ipv4:10.0.0.1:5001''\<rparr>"

definition node_a :: node where
  "node_a = \<lparr>node_uuid = 10, node_endpoint = ''ipv4:10.0.0.1:5001''\<rparr>"

definition node_b :: node where
  "node_b = \<lparr>node_uuid = 1000, node_endpoint = ''ipv4:10.0.0.1:5002''\<rparr>"

definition booted_peer :: "peer_context \<Rightarrow> peer" where
  "booted_peer ctx = \<lparr>peer_ctx = ctx, peer_router = new_router ctx, peer_next = 0, peer_signals = []\<rparr>"

definition example_boot :: world where
  "example_boot =
     \<lparr>peers = (\<lambda>x. booted_peer (if x = ''ipv4:10.0.0.1:5001'' then ctx_a else ctx_b)),
      alive = (\<lambda>x. x = ''ipv4:10.0.0.1:5001'' \<or> x = ''ipv4:10.0.0.1:5002'')\<rparr>"

definition example_ring :: world where
  "example_ring =
     \<lparr>peers = (\<lambda>x. if x = ''ipv4:10.0.0.1:5001''
         then (booted_peer ctx_a)\<lparr>peer_router := learn ctx_a node_b (new_router ctx_a)\<rparr>
         else (booted_peer ctx_b)\<lparr>peer_router := learn ctx_b node_a (new_router ctx_b)\<rparr>),
      alive = (\<lambda>x. x = ''ipv4:10.0.0.1:5001'' \<or> x = ''ipv4:10.0.0.1:5002'')\<rparr>"

definition example_transport :: "endpoint \<Rightarrow> string" where
  "example_transport x = ''ipv4:10.0.0.1:50000''"

lemma example_ctx [simp]:
  "ctx_uuid ctx_a = 10" "ctx_node ctx_a = node_a" "ctx_join_addr ctx_a = []" "ctx_bootstrap ctx_a"
  "ctx_uuid ctx_b = 1000" "ctx_node ctx_b = node_b" "ctx_join_addr ctx_b = ''ipv4:10.0.0.1:5001''"
  "ctx_advertise_addr ctx_a = ''ipv4:10.0.0.1:5001''" "ctx_advertise_addr ctx_b = ''ipv4:10.0.0.1:5002''" "\<not> ctx_bootstrap ctx_b"
  by (simp_all add: ctx_a_def ctx_b_def node_a_def node_b_def default_context_def ctx_node_def)

lemma example_nodes [simp]:
  "node_uuid node_a = 10" "node_endpoint node_a = ''ipv4:10.0.0.1:5001''" "node_uuid node_b = 1000"
  "node_endpoint node_b = ''ipv4:10.0.0.1:5002''" "node_a \<noteq> node_b" "node_b \<noteq> node_a"
  by (simp_all add: node_a_def node_b_def)

lemma example_boot_self [simp]:
  "self_ctx ''ipv4:10.0.0.1:5001'' example_boot = ctx_a" "self_ctx ''ipv4:10.0.0.1:5002'' example_boot = ctx_b"
  "self_router ''ipv4:10.0.0.1:5001'' example_boot = new_router ctx_a"
  "self_router ''ipv4:10.0.0.1:5002'' example_boot = new_router ctx_b"
  "alive example_boot ''ipv4:10.0.0.1:5001''" "alive example_boot ''ipv4:10.0.0.1:5002''"
  by (simp_all add: example_boot_def self_ctx_def self_router_def booted_peer_def)

lemma example_ring_self [simp]:
  "self_ctx ''ipv4:10.0.0.1:5001'' example_ring = ctx_a" "self_ctx ''ipv4:10.0.0.1:5002'' example_ring = ctx_b"
  "self_router ''ipv4:10.0.0.1:5001'' example_ring = learn ctx_a node_b (new_router ctx_a)"
  "self_router ''ipv4:10.0.0.1:5002'' example_ring = learn ctx_b node_a (new_router ctx_b)"
  "alive example_ring ''ipv4:10.0.0.1:5001''" "alive example_ring ''ipv4:10.0.0.1:5002''"
  by (simp_all add: example_ring_def self_ctx_def self_router_def booted_peer_def)

lemma example_booted: "booted example_boot"
  by (auto simp: booted_def example_boot_def self_ctx_def self_router_def booted_peer_def)

lemma example_spaced: "spaced {node_a, node_b}"
  by (simp add: spaced_def dist_def)

lemma example_stable: "stable example_ring {node_a, node_b}"
proof -
  have "best_table ctx_a {node_b} (learn ctx_a node_b (new_router ctx_a))"
    using best_table_learn [OF best_table_new, of node_b ctx_a] by simp
  moreover have "best_table ctx_b {node_a} (learn ctx_b node_a (new_router ctx_b))"
    using best_table_learn [OF best_table_new, of node_a ctx_b] by simp
  moreover have "{node_a, node_b} - {node_a} = {node_b}" "{node_a, node_b} - {node_b} = {node_a}"
    by auto
  ultimately show ?thesis
    by (simp add: stable_def example_spaced member_ok_def self_node_def)
qed

lemma example_successors [simp]:
  "self_successor ''ipv4:10.0.0.1:5001'' example_ring = Some node_b"
  "self_successor ''ipv4:10.0.0.1:5002'' example_ring = Some node_a"
  using stable_successor [OF example_stable, of node_a] stable_successor [OF example_stable, of node_b]
  by (auto split: option.splits)

lemma example_sources [simp]:
  "source_of (Some (make_header ctx_b)) = node_b" "has_valid_header (Some (make_header ctx_b))"
  by (simp_all add: source_of_def header_entry_def make_header_def make_node_def node_b_def has_valid_header_def
      entry_of_def)

text \<open>Each table knows the other member only.\<close>

lemma example_known:
  "router_nodes (learn ctx_a node_b (new_router ctx_a)) = {node_b}"
  "candidates ctx_a (learn ctx_a node_b (new_router ctx_a)) 5000 = {node_b}"
proof -
  let ?r = "learn ctx_a node_b (new_router ctx_a)"
  have wf: "router_wf ctx_a ?r" by (intro learn_wf new_router_wf)
  have known: "router_nodes ?r \<subseteq> {node_b}"
    using best_table_nodes [OF best_table_learn [OF best_table_new, of node_b ctx_a]] by simp
  have "ent_node (successors ?r ! 0) = Some node_b"
    using example_successors(1) by (simp add: self_successor_def router_successor_def)
  then have s: "node_b \<in> set (entry_nodes (successors ?r))"
    using router_wf_fields(4) [OF wf] by (auto simp: set_entry_nodes intro!: bexI [of _ "successors ?r ! 0"])
  then show "router_nodes ?r = {node_b}" using known by (auto simp: router_nodes_def)
  show "candidates ctx_a ?r 5000 = {node_b}"
    using known s by (auto simp: candidates_def router_nodes_def between_def uuid_between_def)
qed

lemma example_rings_ok: "rings_ok example_ring"
proof -
  have "x = ''ipv4:10.0.0.1:5001'' \<or> x = ''ipv4:10.0.0.1:5002''" if "alive example_ring x" for x
    using that by (simp add: example_ring_def)
  then show ?thesis
    using member_wf [OF stable_member [OF example_stable, of node_a]]
      member_wf [OF stable_member [OF example_stable, of node_b]]
    by (force simp: rings_ok_def)
qed

text \<open>A third peer, and the three of them before they start.\<close>

definition ctx_c :: peer_context where
  "ctx_c = (default_context 5000)\<lparr>ctx_advertise_addr := ''ipv4:10.0.0.1:5003'', ctx_join_addr := ''ipv4:10.0.0.1:5002''\<rparr>"

definition node_c :: node where
  "node_c = \<lparr>node_uuid = 5000, node_endpoint = ''ipv4:10.0.0.1:5003''\<rparr>"

definition example_launch :: world where
  "example_launch =
     \<lparr>peers = (\<lambda>x. booted_peer (if x = ''ipv4:10.0.0.1:5001'' then ctx_a else if x = ''ipv4:10.0.0.1:5002'' then ctx_b else ctx_c)),
      alive = (\<lambda>x. x \<in> {''ipv4:10.0.0.1:5001'', ''ipv4:10.0.0.1:5002'', ''ipv4:10.0.0.1:5003''})\<rparr>"

definition example_newcomer :: world where
  "example_newcomer =
     update_peer ''ipv4:10.0.0.1:5003'' (\<lambda>_. booted_peer ctx_c) (example_ring\<lparr>alive := (\<lambda>x. x \<in> {''ipv4:10.0.0.1:5001'', ''ipv4:10.0.0.1:5002'', ''ipv4:10.0.0.1:5003''})\<rparr>)"

lemma example_third [simp]:
  "ctx_uuid ctx_c = 5000" "ctx_node ctx_c = node_c" "ctx_join_addr ctx_c = ''ipv4:10.0.0.1:5002''"
  "ctx_advertise_addr ctx_c = ''ipv4:10.0.0.1:5003''" "\<not> ctx_bootstrap ctx_c" "node_uuid node_c = 5000"
  "node_endpoint node_c = ''ipv4:10.0.0.1:5003''" "node_c \<noteq> node_a" "node_c \<noteq> node_b" "node_a \<noteq> node_c" "node_b \<noteq> node_c"
  by (simp_all add: ctx_c_def node_a_def node_b_def node_c_def default_context_def ctx_node_def)

lemma example_launch_self [simp]:
  "self_ctx ''ipv4:10.0.0.1:5001'' example_launch = ctx_a" "self_ctx ''ipv4:10.0.0.1:5002'' example_launch = ctx_b"
  "self_ctx ''ipv4:10.0.0.1:5003'' example_launch = ctx_c" "self_router ''ipv4:10.0.0.1:5001'' example_launch = new_router ctx_a"
  "self_router ''ipv4:10.0.0.1:5002'' example_launch = new_router ctx_b" "self_router ''ipv4:10.0.0.1:5003'' example_launch = new_router ctx_c"
  "alive example_launch ''ipv4:10.0.0.1:5001''" "alive example_launch ''ipv4:10.0.0.1:5002''" "alive example_launch ''ipv4:10.0.0.1:5003''"
  by (simp_all add: example_launch_def self_ctx_def self_router_def booted_peer_def)

lemma example_newcomer_self [simp]:
  "self_ctx ''ipv4:10.0.0.1:5001'' example_newcomer = ctx_a" "self_ctx ''ipv4:10.0.0.1:5002'' example_newcomer = ctx_b"
  "self_ctx ''ipv4:10.0.0.1:5003'' example_newcomer = ctx_c" "self_router ''ipv4:10.0.0.1:5001'' example_newcomer = self_router ''ipv4:10.0.0.1:5001'' example_ring"
  "self_router ''ipv4:10.0.0.1:5002'' example_newcomer = self_router ''ipv4:10.0.0.1:5002'' example_ring"
  "self_router ''ipv4:10.0.0.1:5003'' example_newcomer = new_router ctx_c"
  "alive example_newcomer ''ipv4:10.0.0.1:5001''" "alive example_newcomer ''ipv4:10.0.0.1:5002''" "alive example_newcomer ''ipv4:10.0.0.1:5003''"
  by (simp_all add: example_newcomer_def example_ring_def update_peer_def self_ctx_def self_router_def booted_peer_def)

lemma example_newcomer_linked: "linked example_newcomer {node_a, node_b}"
proof -
  have "linked_member example_newcomer {node_a, node_b} n = linked_member example_ring {node_a, node_b} n"
    if "n \<in> {node_a, node_b}" for n
    using that by (elim insertE emptyE) (simp_all add: linked_member_def self_node_def)
  then show ?thesis using stable_linked [OF example_stable] by (simp add: linked_def)
qed

lemma example_hosts [simp]:
  "same_host ''ipv4:10.0.0.1:50000'' node_a" "same_host ''ipv4:10.0.0.1:50000'' node_b" "same_host ''ipv4:10.0.0.1:50000'' node_c"
  by (simp_all add: same_host_def before_last_def)

lemma example_host: "one_host example_transport {node_c, node_a, node_b}"
  by (simp add: one_host_def example_transport_def)

lemma example_joiner: "joiner_ok {node_a, node_b} node_c example_newcomer"
  by (simp add: joiner_ok_def self_node_def spaced_def dist_def)

lemma example_three:
  "\<exists>w. linked w {node_c, node_a, node_b} \<and> self_successor ''ipv4:10.0.0.1:5002'' w = Some node_c \<and>
    self_predecessor ''ipv4:10.0.0.1:5002'' w = Some node_a"
proof -
  obtain w where w: "linked w {node_c, node_a, node_b}"
    using linked_join [OF example_newcomer_linked example_joiner example_host, of 4] by auto
  have others: "{node_c, node_a, node_b} - {node_b} = {node_c, node_a}"
    using example_third by auto
  have "self_successor ''ipv4:10.0.0.1:5002'' w = Some node_c"
    using linked_successor [OF w, of node_b] example_third unfolding others
    by (auto simp: dist_def split: option.splits)
  moreover have "self_predecessor ''ipv4:10.0.0.1:5002'' w = Some node_a"
    using linked_predecessor [OF w, of node_b] example_third unfolding last_member_def others
    by (auto simp: dist_def split: option.splits)
  ultimately show ?thesis using w by blast
qed

lemma example_launch_ok: "launch_ok example_launch node_a [node_b, node_c]"
  by (simp add: launch_ok_def joiner_ok_def self_node_def spaced_def dist_def)

text \<open>Distances that are no powers of two: no finger starts at the other member.\<close>

lemma example_clear: "clear_starts {node_a, node_b}"
proof -
  have power: "(2 :: uuid) ^ i \<noteq> v" if "bit v m" "bit v n" "m \<noteq> n" for i v m n
    using that by (auto simp: bit_exp_iff)
  have "(2 :: uuid) ^ i \<noteq> 0" if "i < BITS" for i using that by (simp add: BITS_def)
  moreover have "(2 :: uuid) ^ i \<noteq> 990" for i by (rule power [of 990 1 2]) simp_all
  moreover have "(2 :: uuid) ^ i \<noteq> - 990" for i by (rule power [of "- 990" 1 5]) simp_all
  moreover have "start a i \<noteq> v" if "(2 :: uuid) ^ i \<noteq> v - a" "v \<noteq> 0" for a v i
    using that by (auto simp: start_eq algebra_simps)
  ultimately show ?thesis by (simp add: clear_starts_def)
qed

end
