(* ===== verification/Example_Fs.thy ===== *)
theory Example_Fs
  imports Fs_Transfer Example
begin

text \<open>
  A file system on the ring of \<open>Example\<close>: two processes with an empty data directory and an
  empty database.  Identifiers are printed in decimal and every text hashes to 500, which the
  statements allow.
\<close>

definition example_utext :: "uuid \<Rightarrow> string" where
  "example_utext u = show_nat (unat u)"

definition example_uparse :: "string \<Rightarrow> uuid" where
  "example_uparse t = of_nat (read_digits 10 t)"

definition example_env :: fs_env where
  "example_env =
     \<lparr>env_ring = network example_transport 258, env_fs = no_fs_stubs, env_sha256 = (\<lambda>_. 500),
      env_utext = example_utext, env_uparse = example_uparse\<rparr>"

definition example_disk :: disk where
  "example_disk = \<lparr>disk_files = [([''data''], Directory)], disk_attrs = [], disk_cwd = []\<rparr>"

definition example_fs :: fs_world where
  "example_fs = \<lparr>ring = example_ring, stores = (\<lambda>_. \<lparr>store_db = [], store_disk = example_disk\<rparr>)\<rparr>"

definition example_file :: uri where
  "example_file = new_uri ''chord'' ''/f''"

definition second_copy :: client_options where
  "second_copy = options_of_replication \<lparr>repl_index = 1, repl_count = 2\<rparr>"

lemma example_env_simps [simp]:
  "env_ring example_env = network example_transport 258" "env_sha256 example_env t = 500"
  "env_utext example_env = example_utext" "env_uparse example_env = example_uparse"
  by (simp_all add: example_env_def)

lemma example_text [simp]: "example_uparse (example_utext u) = u"
  by (simp add: example_uparse_def example_utext_def)

lemma example_file_plain: "uri_plain example_file" "names_file (uri_path example_file)"
  by code_simp+

lemma example_file_parses: "uri_from (uri_string example_file) = Inr example_file"
  using uri_from_string [OF example_file_plain(1)] by simp

lemma example_tree: "tree_ok example_disk"
  by (simp add: tree_ok_def example_disk_def find_node_def)

lemma short_chunk: "s \<noteq> [] \<Longrightarrow> length s \<le> n \<Longrightarrow> chunks_of n s = [s]"
  by (cases n) (auto simp: chunks_of.simps [of _ s])

definition disk_with :: "string \<Rightarrow> disk" where
  "disk_with t = put_node [''data'', ''f''] (Regular t) example_disk"

definition data_file :: path where
  "data_file = ''./data/f''"

lemma example_paths:
  "uri_path example_file = ''/f''"
  "parent_path ''/f'' = ''/''" "filename ''/f'' = ''f''" "path_append ''./data'' ''/'' = ''./data/''"
  "path_append ''./data/'' ''f'' = ''./data/f''" "path_append ''./data'' ''/f'' = ''./data/f''"
  "filename ''./data/f'' = ''f''"
  by code_simp+

lemma example_queries:
  "file_is_directory example_disk ''./data''" "file_exists example_disk ''./data/''"
  "\<not> file_exists example_disk ''./data/f''" "file_create ''./data/f'' example_disk = (True, disk_with [])"
  "file_write ''./data/f'' [] (disk_with []) = Some (disk_with [])"
  "file_write ''./data/f'' ''ab'' (disk_with []) = Some (disk_with ''ab'')"
  "file_content (disk_with ''ab'') ''./data/f'' = Some ''ab''"
  by code_simp+

lemma example_ctx_fs:
  "my_ctx ''ipv4:10.0.0.1:5002'' example_fs = ctx_b" "my_disk ''ipv4:10.0.0.1:5002'' example_fs = example_disk" "my_db ''ipv4:10.0.0.1:5002'' example_fs = []"
  "ctx_data_directory ctx_b = ''./data''"
  by (simp_all add: my_ctx_def my_disk_def my_db_def example_fs_def ctx_b_def default_context_def)

lemma example_put_write:
  "put_write E ''ipv4:10.0.0.1:5002'' (put_metadata E example_file t opts) example_file ''./data'' [''ab''] example_fs =
     Some (Returns (), set_disk ''ipv4:10.0.0.1:5002'' (disk_with ''ab'') example_fs)"
  if "\<And>v. env_uparse E (env_utext E v) = v"
proof -
  let ?md = "put_metadata E example_file t opts"
  have md: "uri_of_metadata ?md = Some (Inr example_file)"
    using put_metadata_reads(3) [OF that] example_file_parses by simp
  have same: "file_hashes_equal E ''ipv4:10.0.0.1:5002'' ?md (set_disk ''ipv4:10.0.0.1:5002'' d example_fs) =
      Some (Returns False, set_disk ''ipv4:10.0.0.1:5002'' d example_fs)" for d
    by (rule fresh_hashes [OF md]) (simp add: md_exists_def example_ctx_fs)
  show ?thesis
    by (simp add: put_write_def Let_def example_paths example_queries example_ctx_fs bnd_def gets_def ret_def
        on_disk_def same open_for_writing_def write_all_def)
qed

definition stored_entry :: metadata where
  "stored_entry =
     new_metadata ''f'' [] [] perms_all type_regular 2 (Some 500) None \<lparr>repl_index = 1, repl_count = 2\<rparr>"

definition stored_fs :: fs_world where
  "stored_fs = set_db ''ipv4:10.0.0.1:5002'' [(''/f'', [(''f'', stored_entry)])] (set_disk ''ipv4:10.0.0.1:5002'' (disk_with ''ab'') example_fs)"

lemma example_put_server:
  assumes "env_sha256 E = (\<lambda>_. 500)" "\<And>v. env_uparse E (env_utext E v) = v"
  shows "fs_service_put E ''ipv4:10.0.0.1:5002'' (put_metadata E example_file ''ab'' second_copy) [''ab''] example_fs =
    Some (Returns (OK, ()), stored_fs)"
proof -
  let ?md = "put_metadata E example_file ''ab'' second_copy"
  have opts: "call_options E ?md = second_copy"
    using put_metadata_reads(1) [OF assms(2), where opts = second_copy]
    by (simp add: call_options_def second_copy_def options_of_replication_def default_options_def)
  have uri: "uri_of_metadata ?md = Some (Inr example_file)"
    using put_metadata_reads(3) [OF assms(2)] example_file_parses by simp
  have stored: "for_path (env_sha256 E) ctx_b (disk_with ''ab'') ''/f'' (opt_replication second_copy) = Returns [stored_entry]"
    by (subst for_path_regular [of _ "''./data/f''" "''ab''"])
      (simp_all add: example_queries example_ctx_fs example_paths assms(1) stored_entry_def second_copy_def
        options_of_replication_def)
  have add: "md_add example_file [stored_entry] [] = (Returns True, [(''/f'', [(''f'', stored_entry)])])"
    by code_simp
  have plain: "opt_source second_copy = None" "opt_flag second_copy = False"
    "repl_index (opt_replication second_copy) = 1" "\<not> replicated (next_copy (opt_replication second_copy))"
    by (simp_all add: second_copy_def options_of_replication_def default_options_def next_copy_def replicated_def)
  show ?thesis
    using example_put_write [OF assms(2), where t = "''ab''" and opts = second_copy]
    by (simp add: fs_service_put_def is_valid_def opts plain example_ctx_fs example_queries metadata_uri_def uri
        uri_result_def catch_io_def on_exception_def bnd_def gets_def ret_def reads_def Let_def example_paths(1)
        stored on_db_def add put_announce_def put_replicate_def put_move_away_def stored_fs_def)
qed

lemma example_lookup:
  "facade_successor (network example_transport 258) ''ipv4:10.0.0.1:5001'' 500 example_ring = Some (Returns node_b, example_ring)"
proof -
  obtain n where n: "responsible {node_a, node_b} 500 n"
    "service_successor_id (network example_transport 258) (node_endpoint node_a) 500 example_ring = Some (Returns n, example_ring)"
    using stable_service_successor_id [OF example_stable, of node_a 500 258] by auto
  then have "n = node_b" by (auto simp: responsible_def dist_def)
  then show ?thesis using n(2) by (simp add: facade_successor_def)
qed

lemma example_put_call:
  "client_put_node (fs_close example_env 1) ''ipv4:10.0.0.1:5001'' node_b example_file ''ab'' second_copy example_fs =
    Some (Returns OK, stored_fs)"
proof -
  have "chunks_of CHUNK ''ab'' = [''ab'']" by (rule short_chunk) (simp_all add: CHUNK_def)
  moreover have "fs_service_put (fs_close example_env 0) ''ipv4:10.0.0.1:5002''
      (put_metadata (fs_close example_env 1) example_file ''ab'' second_copy) [''ab''] example_fs =
    Some (Returns (OK, ()), stored_fs)"
    using example_put_server [of "fs_close example_env 0"]
    by (simp add: put_metadata_def example_env_def)
  moreover have "alive (ring example_fs) ''ipv4:10.0.0.1:5002''" "my_ctx ''ipv4:10.0.0.1:5001'' example_fs = ctx_a"
    by (simp_all add: example_fs_def my_ctx_def)
  ultimately show ?thesis
    by (simp add: client_put_node_def rpc_def bnd_def gets_def ret_def fs_network_stubs [of _ 0, simplified] fs_deliver_def
        fs_respond_def)
qed

text \<open>The same processes where the second one keeps the root directory.\<close>

definition rooted_fs :: fs_world where
  "rooted_fs = set_db ''ipv4:10.0.0.1:5002'' (md_initialize []) example_fs"

lemma example_root:
  "build (builder_of ''chord'' (canonical (uri_path (as_uri ''/'')))) = Inr (as_uri ''/'')"
  "uri_scheme (as_uri ''/'') = ''chord''" "uri_from (uri_string (as_uri ''/'')) = Inr (as_uri ''/'')"
  "init_context example_utext default_options = [(''rebalance'', ''0'')]"
  "options_from example_uparse [(''rebalance'', ''0'')] = default_options"
  "md_exists (as_uri ''/'') (md_initialize [])"
  by code_simp+

definition root_entries :: metadata_set where
  "root_entries = [create_directory_named ''.'', create_directory_named ''..'']"

lemma example_root_get: "md_get (as_uri ''/'') (md_initialize []) = Returns root_entries"
  by code_simp

definition root_listing :: metadata_set where
  "root_listing = map (\<lambda>m. m\<lparr>meta_replication := \<lparr>repl_index = 0, repl_count = 0\<rparr>\<rparr>) root_entries"

lemma root_listing: "fold meta_insert (metadata_from_response (add_to_response root_entries empty_meta_response)) [] = root_listing"
  by code_simp

lemma example_root_dir:
  "client_meta (fs_close example_env 1) ''ipv4:10.0.0.1:5001'' (as_uri ''/'') DIR [] default_options rooted_fs =
     Some (Returns (OK, root_listing), rooted_fs)"
proof -
  have up: "alive (ring rooted_fs) ''ipv4:10.0.0.1:5002''" "ring rooted_fs = example_ring"
    "rooted_fs\<lparr>ring := example_ring\<rparr> = rooted_fs" "my_db ''ipv4:10.0.0.1:5002'' rooted_fs = md_initialize []"
    by (simp_all add: rooted_fs_def example_fs_def set_db_def my_db_def)
  have "opt_source default_options = None" by (simp add: default_options_def)
  then show ?thesis
    by (simp add: client_meta_def client_meta_node_def client_dir_def canonical_uri_def example_root bnd_def reads_def
       uri_result_def ring_successor_def on_ring_def uri_hash_def example_lookup up rpc_def
       fs_network_stubs [of _ 0, simplified] fs_deliver_def fs_respond_def fs_service_meta_def is_valid_def call_options_def
       gets_def ret_def catch_chord_def on_exception_def handle_meta_dir_def parse_uri_def example_root_get root_listing)
qed

text \<open>A call that the second process itself started.\<close>

lemma example_own_call: "opt_source (call_options E [(''src'', ''1000'')]) = Some (ctx_uuid (my_ctx ''ipv4:10.0.0.1:5002'' example_fs))"
  if "env_uparse E = example_uparse"
proof -
  have "example_uparse ''1000'' = 1000" by code_simp
  then show ?thesis by (simp add: that call_options_def options_from_def src_from_def example_ctx_fs)
qed

text \<open>A relative path with a question mark leaves no path where it arrives: the handler throws.\<close>

lemma example_unreadable_uri:
  "build (builder_of ''chord'' (canonical (uri_path (as_uri ''d?/f'')))) = Inr (as_uri ''d?/f'')"
  "uri_scheme (as_uri ''d?/f'') = ''chord''" "uri_from (uri_string (as_uri ''d?/f'')) = Inl Uri_incomplete"
  by code_simp+

lemma example_unreadable:
  assumes "ring s = example_ring"
  shows "client_meta (fs_close example_env 1) ''ipv4:10.0.0.1:5001'' (as_uri ''d?/f'') ADD ms default_options s =
     Some (Returns (UNKNOWN, ms), s)"
proof -
  have "s\<lparr>ring := example_ring\<rparr> = s" using assms by simp
  moreover have "opt_source default_options = None" by (simp add: default_options_def)
  ultimately show ?thesis
    by (simp add: client_meta_def client_meta_node_def canonical_uri_def example_unreadable_uri bnd_def reads_def
       uri_result_def ring_successor_def on_ring_def uri_hash_def example_lookup assms rpc_def example_root(4,5)
       fs_network_stubs [of _ 0, simplified] fs_deliver_def fs_respond_def fs_service_meta_def is_valid_def call_options_def
       gets_def ret_def catch_chord_def on_exception_def handle_meta_add_def parse_uri_def)
qed

text \<open>An entry of the root with a second copy: the second process keeps it and passes it on to the
  first one.\<close>

definition example_subdirectory :: "nat \<Rightarrow> metadata" where
  "example_subdirectory i =
     new_metadata ''d'' [] [] perms_all type_directory 0 None None \<lparr>repl_index = of_nat i, repl_count = 2\<rparr>"

definition example_announcement :: "nat \<Rightarrow> meta_request" where
  "example_announcement i =
     \<lparr>mreq_id = 500, mreq_uri = uri_string (as_uri ''/''), mreq_action = ADD,
      mreq_metadata = [request_data (example_subdirectory i)]\<rparr>"

definition announced_fs :: fs_world where
  "announced_fs =
     set_db ''ipv4:10.0.0.1:5001'' [(''/'', [(''d'', example_subdirectory (Suc 0))])]
       (set_db ''ipv4:10.0.0.1:5002'' [(''/'', [(''d'', example_subdirectory 0)])] example_fs)"

lemma example_own_successor:
  "facade_successor (network example_transport 258) ''ipv4:10.0.0.1:5002'' 1000 example_ring = Some (Returns node_a, example_ring)"
proof -
  let ?req = "\<lparr>sreq_header = Some (make_header ctx_b), sreq_id = 1000\<rparr>"
  have "successor_or_self ctx_b (self_router ''ipv4:10.0.0.1:5002'' example_ring) = node_a"
    using example_successors(2) by (simp add: successor_or_self_def self_successor_def)
  then show ?thesis
    using stable_service_successor [OF example_stable, of node_b ?req example_transport 257]
    by (simp add: facade_successor_def service_successor_id_def empty_successor_response_def entry_of_def)
qed

lemma example_announcement_reads:
  "metadata_from_request (example_announcement 0) = Returns [example_subdirectory 0]"
  "metadata_from_request (example_announcement (Suc 0)) = Returns [example_subdirectory (Suc 0)]"
  "\<not> md_exists (as_uri ''/'') []" "\<not> is_mkdir (as_uri ''/'') [example_subdirectory 0]"
  "\<not> is_mkdir (as_uri ''/'') [example_subdirectory (Suc 0)]"
  "md_add (as_uri ''/'') [example_subdirectory 0] [] = (Returns True, [(''/'', [(''d'', example_subdirectory 0)])])"
  "md_add (as_uri ''/'') [example_subdirectory (Suc 0)] [] = (Returns True, [(''/'', [(''d'', example_subdirectory (Suc 0))])])"
  "max_replication [example_subdirectory 0] = Some (meta_replication (example_subdirectory 0))"
  "max_replication [example_subdirectory (Suc 0)] = Some (meta_replication (example_subdirectory (Suc 0)))"
  "increase_replication_and_clean [example_subdirectory 0] = [example_subdirectory (Suc 0)]"
  "increase_replication_and_clean [example_subdirectory (Suc 0)] = []"
  "init_context example_utext (options_from example_uparse []\<lparr>opt_source := Some 1000\<rparr>) = [(''src'', ''1000''), (''rebalance'', ''0'')]"
  "opt_source (options_from example_uparse []) = None"
  "opt_source (options_from example_uparse [(''src'', ''1000''), (''rebalance'', ''0'')]) = Some 1000"
  "path_eq (parent_path (uri_path (as_uri ''/''))) (uri_path (as_uri ''/''))"
  by code_simp+

lemma example_passed_on:
  assumes "my_db ''ipv4:10.0.0.1:5001'' s = []" "ring s = example_ring"
  shows "rpc_meta (fs_network example_env (Suc 0)) ''ipv4:10.0.0.1:5002'' ''ipv4:10.0.0.1:5001'' [(''src'', ''1000''), (''rebalance'', ''0'')]
      (example_announcement (Suc 0)) s =
    Some ((OK, empty_meta_response), set_db ''ipv4:10.0.0.1:5001'' [(''/'', [(''d'', example_subdirectory (Suc 0))])] s)"
proof -
  have req: "mreq_uri (example_announcement (Suc 0)) = uri_string (as_uri ''/'')" "mreq_action (example_announcement (Suc 0)) = ADD"
    by (simp_all add: example_announcement_def)
  show ?thesis
    by (simp add: fs_network_stubs fs_deliver_def assms fs_service_meta_def is_valid_def call_options_def
        example_announcement_reads my_ctx_def bnd_def gets_def ret_def catch_chord_def on_exception_def handle_meta_add_def
        parse_uri_def reads_def req example_root(3) uri_result_def on_db_def require_def meta_add_parent_def
        meta_add_replicate_def Let_def fs_respond_def)
qed

lemma example_announced:
  "rpc_meta (fs_network example_env (Suc (Suc 0))) ''ipv4:10.0.0.1:5001'' ''ipv4:10.0.0.1:5002'' []
     (example_announcement 0) example_fs = Some ((OK, empty_meta_response), announced_fs)"
proof -
  let ?s = "set_db ''ipv4:10.0.0.1:5002'' [(''/'', [(''d'', example_subdirectory 0)])] example_fs"
  have req: "mreq_uri (example_announcement 0) = uri_string (as_uri ''/'')" "mreq_action (example_announcement 0) = ADD"
    "\<lparr>mreq_id = 500, mreq_uri = uri_string (as_uri ''/''), mreq_action = ADD,
      mreq_metadata = [request_data (example_subdirectory (Suc 0))]\<rparr> = example_announcement (Suc 0)"
    by (simp_all add: example_announcement_def)
  have up: "ring ?s = example_ring" "my_db ''ipv4:10.0.0.1:5001'' ?s = []" "ring example_fs = example_ring"
    "my_ctx ''ipv4:10.0.0.1:5002'' ?s = ctx_b" "?s\<lparr>ring := example_ring\<rparr> = ?s"
    by (simp_all add: set_db_def example_fs_def my_db_def my_ctx_def)
  have next_hop: "successor_now (fs_close example_env (Suc 0)) ''ipv4:10.0.0.1:5002'' ?s = Some (Returns node_a, ?s)"
    using example_own_successor by (simp add: ring_successor_self_def facade_successor_self_def on_ring_def up)
  have call: "client_meta_node (fs_close example_env (Suc 0)) ''ipv4:10.0.0.1:5002'' node_a (as_uri ''/'') ADD [example_subdirectory (Suc 0)]
      (init_source (options_from example_uparse []) ctx_b) ?s = Some (Returns (OK, [example_subdirectory (Suc 0)]), announced_fs)"
    using example_passed_on [OF up(2,1)]
    by (simp add: client_meta_node_def canonical_uri_def example_root uri_result_def bnd_def reads_def ret_def rpc_def
        init_source_def example_announcement_reads uri_hash_def req announced_fs_def)
  show ?thesis
    using next_hop call
    by (simp add: fs_network_stubs fs_deliver_def fs_service_meta_def is_valid_def call_options_def
        example_announcement_reads up(3) example_ctx_fs bnd_def gets_def ret_def catch_chord_def on_exception_def handle_meta_add_def
        parse_uri_def reads_def req(1,2) example_root(3) uri_result_def on_db_def require_def meta_add_parent_def
        meta_add_replicate_def Let_def fs_respond_def init_src_def up(4))
qed

lemma example_members:
  "linked example_ring {node_a, node_b}" "alive example_ring e \<Longrightarrow> e \<in> node_endpoint ` {node_a, node_b}"
  "m \<in> {node_a, node_b} \<Longrightarrow> alive example_ring (node_endpoint m)"
  using stable_linked [OF example_stable] by (auto simp: example_ring_def)

end
