(* ===== verification/Fuse.thy ===== *)
theory Fuse
  imports Fs_Facade
begin

text \<open>
  The file system mounted through libfuse (\<open>fuse/chord.fuse.adapter.cc\<close>,
  \<open>fuse/chord.fuse.utils.cc\<close>): the callbacks the kernel makes become calls of the facade and
  of the operating system.  A file that is open is a copy in the journal; a descriptor stands
  for the name the copy was opened under and keeps the flags it was opened with.  \<open>fuse_taken\<close> is
  what the kernel makes of a write of so many bytes: how many it takes, or less than none when it
  fails.  The results are those libfuse passes on, negative
  numbers of \<open>errno.h\<close>.  \<open>Undefined\<close> is the access through the null pointer that \<open>mknod\<close>
  passes on.  \<open>init\<close> and \<open>destroy\<close> start and stop the peer's thread and are left out.
\<close>

definition ENOENT :: int where "ENOENT = 2"
definition EAGAIN :: int where "EAGAIN = 11"
definition EACCES :: int where "EACCES = 13"
definition EEXIST :: int where "EEXIST = 17"

text \<open>\<open>O_RDONLY\<close> is reading only, \<open>O_WRONLY\<close> writing only, \<open>O_RDWR\<close> both.\<close>

record open_flags =
  fl_read :: bool
  fl_write :: bool
  fl_append :: bool
  fl_create :: bool
  fl_exclusive :: bool
  fl_truncate :: bool

record file_info =
  fi_flags :: open_flags
  fi_fh :: nat

record fuse_world =
  fuse_fs :: fs_world
  fuse_handles :: "(nat \<times> key \<times> open_flags) list"
  fuse_next :: nat
  fuse_taken :: "nat \<Rightarrow> int"

type_synonym 'a fuse_run = "(fuse_world, 'a) run"

definition on_fs :: "'a fs_run \<Rightarrow> 'a fuse_run" where
  "on_fs m s = map_option (\<lambda>(r, t). (r, s\<lparr>fuse_fs := t\<rparr>)) (m (fuse_fs s))"

subsection \<open>The operating system\<close>

definition os_open_node :: "open_flags \<Rightarrow> path \<Rightarrow> disk \<Rightarrow> disk option" where
  "os_open_node flags p d =
     (let k = resolve d p in
      case find_path d p of
        None \<Rightarrow>
          if p \<noteq> [] \<and> fl_create flags \<and> parent_is_directory d k then Some (put_node k (Regular []) d) else None
      | Some Directory \<Rightarrow> if fl_write flags \<or> fl_create flags then None else Some d
      | Some (Regular s) \<Rightarrow>
          if fl_create flags \<and> fl_exclusive flags then None
          else if fl_truncate flags then Some (put_node k (Regular []) d) else Some d)"

text \<open>\<open>::open\<close>: the new descriptor, or \<open>None\<close> for a failure.\<close>

definition os_open :: "endpoint \<Rightarrow> open_flags \<Rightarrow> path \<Rightarrow> nat option fuse_run" where
  "os_open me flags p s =
     (case os_open_node flags p (my_disk me (fuse_fs s)) of
        None \<Rightarrow> Some (Returns None, s)
      | Some d \<Rightarrow>
          Some (Returns (Some (fuse_next s)),
            s\<lparr>fuse_fs := set_disk me d (fuse_fs s),
              fuse_handles := (fuse_next s, resolve d p, flags) # fuse_handles s,
              fuse_next := fuse_next s + 1\<rparr>))"

definition opened :: "endpoint \<Rightarrow> nat \<Rightarrow> fuse_world \<Rightarrow> (key \<times> open_flags \<times> string) option" where
  "opened me fd s =
     (case map_of (fuse_handles s) fd of
        None \<Rightarrow> None
      | Some (k, flags) \<Rightarrow>
          (case find_node (my_disk me (fuse_fs s)) k of Some (Regular t) \<Rightarrow> Some (k, flags, t) | _ \<Rightarrow> None))"

definition overwrite :: "string \<Rightarrow> nat \<Rightarrow> string \<Rightarrow> string" where
  "overwrite buf offset t =
     take offset t @ replicate (offset - length t) (CHR 0x00) @ buf @ drop (offset + length buf) t"

definition set_opened :: "endpoint \<Rightarrow> key \<Rightarrow> string \<Rightarrow> fuse_world \<Rightarrow> fuse_world" where
  "set_opened me k t s =
     s\<lparr>fuse_fs := set_disk me (put_node k (Regular t) (my_disk me (fuse_fs s))) (fuse_fs s)\<rparr>"

text \<open>The system calls fail with -1.  A descriptor opened for appending writes at the end, wherever it
  is told to write.\<close>

definition os_pwrite :: "endpoint \<Rightarrow> nat \<Rightarrow> string \<Rightarrow> nat \<Rightarrow> int fuse_run" where
  "os_pwrite me fd buf offset s =
     (case opened me fd s of
        None \<Rightarrow> Some (Returns (- 1), s)
      | Some (k, flags, t) \<Rightarrow>
          let n = min (fuse_taken s (length buf)) (int (length buf)) in
          if \<not> fl_write flags \<or> n < 0 then Some (Returns (- 1), s)
          else if n = 0 then Some (Returns 0, s)
          else
            Some (Returns n,
              set_opened me k (overwrite (take (nat n) buf) (if fl_append flags then length t else offset) t) s))"

definition os_pread :: "endpoint \<Rightarrow> nat \<Rightarrow> nat \<Rightarrow> nat \<Rightarrow> (int \<times> string) fuse_run" where
  "os_pread me fd sz offset s =
     (case opened me fd s of
        None \<Rightarrow> Some (Returns (- 1, []), s)
      | Some (k, flags, t) \<Rightarrow>
          if \<not> fl_read flags then Some (Returns (- 1, []), s)
          else (let buf = take sz (drop offset t) in Some (Returns (int (length buf), buf), s)))"

definition os_ftruncate :: "endpoint \<Rightarrow> nat \<Rightarrow> nat \<Rightarrow> int fuse_run" where
  "os_ftruncate me fd n s =
     (case opened me fd s of
        None \<Rightarrow> Some (Returns (- 1), s)
      | Some (k, flags, t) \<Rightarrow>
          if \<not> fl_write flags then Some (Returns (- 1), s)
          else Some (Returns 0, set_opened me k (take n t @ replicate (n - length t) (CHR 0x00)) s))"

definition os_fsync :: "nat \<Rightarrow> int fuse_run" where
  "os_fsync fd = gets (\<lambda>s. if map_of (fuse_handles s) fd = None then - 1 else 0)"

subsection \<open>Attributes and listings\<close>

record stat =
  st_mode :: nat
  st_nlink :: nat
  st_size :: "64 word"

definition empty_stat :: stat where
  "empty_stat = \<lparr>st_mode = 0, st_nlink = 0, st_size = 0\<rparr>"

definition S_IFDIR :: nat where "S_IFDIR = 16384"
definition S_IFREG :: nat where "S_IFREG = 32768"

definition set_stat_entry :: "metadata \<Rightarrow> stat \<Rightarrow> bool \<times> stat" where
  "set_stat_entry m st =
     (if meta_file_type m = type_regular
      then (True, st\<lparr>st_mode := S_IFREG + 292, st_nlink := 1, st_size := meta_file_size m\<rparr>)
      else if meta_file_type m = type_directory then (True, st\<lparr>st_mode := S_IFDIR + 493, st_nlink := 1\<rparr>)
      else (False, st))"

definition set_stat :: "metadata_set \<Rightarrow> stat \<Rightarrow> bool \<times> stat" where
  "set_stat ms st =
     (True,
      if is_directory_set ms then st\<lparr>st_mode := S_IFDIR + 493, st_nlink := length ms\<rparr>
      else if is_regular_file ms
      then st\<lparr>st_mode := S_IFREG + 292, st_nlink := 1, st_size := meta_file_size (hd ms)\<rparr>
      else st)"

definition set_readdir :: "metadata_set \<Rightarrow> string list" where
  "set_readdir ms = List.map meta_name ms"

definition fuse_getattr :: "fs_env \<Rightarrow> endpoint \<Rightarrow> path \<Rightarrow> (int \<times> stat) fuse_run" where
  "fuse_getattr E me p =
     bnd (on_fs (fs_facade_dir E me (as_uri p) [])) (\<lambda>(st, ms).
     case set_stat ms empty_stat of (succ, stbuf) \<Rightarrow>
       ret (if st \<noteq> OK \<or> \<not> succ then - ENOENT else 0, stbuf))"

definition fuse_readdir :: "fs_env \<Rightarrow> endpoint \<Rightarrow> path \<Rightarrow> (int \<times> string list) fuse_run" where
  "fuse_readdir E me p =
     bnd (on_fs (fs_facade_dir E me (as_uri p) [])) (\<lambda>(st, ms).
     ret (if st \<noteq> OK then (- ENOENT, []) else (0, set_readdir ms)))"

definition fuse_access :: "fs_env \<Rightarrow> endpoint \<Rightarrow> path \<Rightarrow> int fuse_run" where
  "fuse_access E me p =
     bnd (on_fs (fs_facade_exists E me (as_uri p))) (\<lambda>st.
     ret (if st = ALREADY_EXISTS \<or> st = OK then 0 else if st = NOT_FOUND then - ENOENT else - EACCES))"

definition fuse_setxattr :: "path \<Rightarrow> string \<Rightarrow> string \<Rightarrow> int fuse_run" where
  "fuse_setxattr p name v = ret 0"

definition fuse_utimens :: "path \<Rightarrow> int fuse_run" where
  "fuse_utimens p = ret 0"

subsection \<open>The journal\<close>

definition journal_path :: "endpoint \<Rightarrow> path \<Rightarrow> path fuse_run" where
  "journal_path me p =
     bnd (gets (\<lambda>s. my_ctx me (fuse_fs s))) (\<lambda>ctx. on_fs (on_disk me (as_journal_path ctx p)))"

definition clean_journal :: "endpoint \<Rightarrow> uri \<Rightarrow> bool fuse_run" where
  "clean_journal me u =
     bnd (journal_path me (uri_path u)) (\<lambda>p. on_fs (on_disk me (file_remove_all p)))"

text \<open>The size of a file that is only logged is asked for, and asking fails for a missing file.\<close>

definition logged_size :: "endpoint \<Rightarrow> path \<Rightarrow> unit fuse_run" where
  "logged_size me p = bnd (on_fs (see_disk me (\<lambda>d. file_size d p))) (\<lambda>_. ret ())"

definition open_local :: "endpoint \<Rightarrow> path \<Rightarrow> file_info option \<Rightarrow> (int \<times> file_info option) fuse_run" where
  "open_local me p fi =
     (case fi of
        None \<Rightarrow> no_behaviour
      | Some f \<Rightarrow>
          bnd (os_open me (fi_flags f) p) (\<lambda>fd.
          case fd of None \<Rightarrow> ret (- 1, fi) | Some n \<Rightarrow> ret (0, Some (f\<lparr>fi_fh := n\<rparr>))))"

definition fuse_create ::
  "regex_minus \<Rightarrow> fs_env \<Rightarrow> endpoint \<Rightarrow> path \<Rightarrow> file_info option \<Rightarrow> (int \<times> file_info option) fuse_run" where
  "fuse_create R E me p fi =
     (let u = as_uri p in
      bnd (journal_path me (uri_path u)) (\<lambda>journal.
      bnd (open_local me journal fi) (\<lambda>(n, fi).
      if n \<noteq> 0 then ret (- EAGAIN, fi)
      else
        bnd (on_fs (fs_facade_put R E me journal u NONE)) (\<lambda>st.
        ret (if st \<noteq> OK then - EAGAIN else 0, fi)))))"

definition fuse_mknod :: "regex_minus \<Rightarrow> fs_env \<Rightarrow> endpoint \<Rightarrow> path \<Rightarrow> int fuse_run" where
  "fuse_mknod R E me p = bnd (fuse_create R E me p None) (\<lambda>(n, _). ret n)"

definition fuse_open ::
  "regex_minus \<Rightarrow> fs_env \<Rightarrow> endpoint \<Rightarrow> path \<Rightarrow> file_info \<Rightarrow> (int \<times> file_info option) fuse_run" where
  "fuse_open R E me p fi =
     (let u = as_uri p in
      bnd (journal_path me (uri_path u)) (\<lambda>journal.
      bnd (gets (\<lambda>s. file_exists (my_disk me (fuse_fs s)) journal)) (\<lambda>there.
      bnd (if there then ret OK else on_fs (fs_facade_get R E me u journal)) (\<lambda>st.
      if st \<noteq> OK then ret (- ENOENT, Some fi) else open_local me journal (Some fi)))))"

definition fuse_truncate :: "endpoint \<Rightarrow> path \<Rightarrow> nat \<Rightarrow> file_info \<Rightarrow> int fuse_run" where
  "fuse_truncate me p offset fi =
     bnd (os_ftruncate me (fi_fh fi) offset) (\<lambda>succ.
     bnd (journal_path me p) (\<lambda>journal.
     bnd (logged_size me journal) (\<lambda>_. ret succ)))"

definition fuse_write :: "endpoint \<Rightarrow> path \<Rightarrow> string \<Rightarrow> nat \<Rightarrow> file_info \<Rightarrow> int fuse_run" where
  "fuse_write me p buf offset fi =
     bnd (os_pwrite me (fi_fh fi) buf offset) (\<lambda>succ.
     bnd (journal_path me p) (\<lambda>journal.
     bnd (logged_size me journal) (\<lambda>_. ret succ)))"

definition fuse_read :: "endpoint \<Rightarrow> path \<Rightarrow> nat \<Rightarrow> nat \<Rightarrow> file_info \<Rightarrow> (int \<times> string) fuse_run" where
  "fuse_read me p sz offset fi = os_pread me (fi_fh fi) sz offset"

definition fuse_flush ::
  "regex_minus \<Rightarrow> fs_env \<Rightarrow> endpoint \<Rightarrow> path \<Rightarrow> file_info \<Rightarrow> int fuse_run" where
  "fuse_flush R E me p fi =
     (let u = as_uri p in
      bnd (journal_path me (uri_path u)) (\<lambda>journal.
      bnd (os_fsync (fi_fh fi)) (\<lambda>succ.
      bnd (logged_size me journal) (\<lambda>_.
      bnd (on_fs (fs_facade_put R E me journal u NONE)) (\<lambda>st.
      ret (if st \<noteq> OK then - EAGAIN else succ))))))"

definition fuse_release ::
  "regex_minus \<Rightarrow> fs_env \<Rightarrow> endpoint \<Rightarrow> path \<Rightarrow> file_info \<Rightarrow> int fuse_run" where
  "fuse_release R E me p fi =
     bnd (fuse_flush R E me p fi) (\<lambda>status.
     if status = 0 then ret (- ENOENT)
     else bnd (clean_journal me (as_uri p)) (\<lambda>_. ret 0))"

subsection \<open>Names\<close>

definition RENAME_NOREPLACE :: "32 word" where
  "RENAME_NOREPLACE = 1"

definition fuse_rename :: "fs_env \<Rightarrow> endpoint \<Rightarrow> path \<Rightarrow> path \<Rightarrow> 32 word \<Rightarrow> int fuse_run" where
  "fuse_rename E me from_path to_path flags =
     (let force = (and flags RENAME_NOREPLACE = 0); src = as_uri from_path; dst = as_uri to_path in
      bnd (on_fs (fs_facade_move E me src dst force)) (\<lambda>st.
      bnd (if st = OK then bnd (clean_journal me src) (\<lambda>_. bnd (clean_journal me dst) (\<lambda>_. ret ()))
           else ret ()) (\<lambda>_.
      ret (if st = ALREADY_EXISTS then - EEXIST else if st = NOT_FOUND then - ENOENT
           else if st = OK then 0 else - EAGAIN))))"

text \<open>\<open>mkdir\<close> returns the number of the gRPC status as it is.\<close>

definition status_number :: "status_code \<Rightarrow> int" where
  "status_number st =
     (case st of
        OK \<Rightarrow> 0 | CANCELLED \<Rightarrow> 1 | UNKNOWN \<Rightarrow> 2 | INVALID_ARGUMENT \<Rightarrow> 3 | DEADLINE_EXCEEDED \<Rightarrow> 4 | NOT_FOUND \<Rightarrow> 5
      | ALREADY_EXISTS \<Rightarrow> 6 | FAILED_PRECONDITION \<Rightarrow> 9 | INTERNAL \<Rightarrow> 13 | UNAVAILABLE \<Rightarrow> 14)"

definition fuse_mkdir :: "fs_env \<Rightarrow> endpoint \<Rightarrow> path \<Rightarrow> int fuse_run" where
  "fuse_mkdir E me p = bnd (on_fs (fs_facade_mkdir E me (as_uri p) NONE)) (\<lambda>st. ret (status_number st))"

definition fuse_unlink :: "fs_env \<Rightarrow> endpoint \<Rightarrow> path \<Rightarrow> int fuse_run" where
  "fuse_unlink E me p =
     bnd (on_fs (fs_facade_del E me (as_uri p) False)) (\<lambda>st.
     if st \<noteq> OK then ret (- ENOENT)
     else bnd (clean_journal me (as_uri p)) (\<lambda>_. ret 0))"

definition fuse_rmdir :: "fs_env \<Rightarrow> endpoint \<Rightarrow> path \<Rightarrow> int fuse_run" where
  "fuse_rmdir = fuse_unlink"

subsection \<open>Written bytes\<close>

lemma overwrite_read: "take (length buf) (drop offset (overwrite buf offset t)) = buf"
  by (simp add: overwrite_def)

text \<open>Bytes before and after those that were written stay.\<close>

lemma overwrite_others:
  assumes "i < offset \<or> offset + length buf \<le> i" "i < length t"
  shows "i < length (overwrite buf offset t)" "overwrite buf offset t ! i = t ! i"
  using assms by (auto simp: overwrite_def nth_append)

lemma create_directories_regular:
  assumes "tree_ok d" "file_create_directories p d = Inr (b, d')" "find_node d k = Some (Regular t)"
  shows "find_node d' k = Some (Regular t)"
proof -
  have "\<not> (\<exists>i\<le>length (resolve d p). k = take i (resolve d p))"
  proof
    assume "\<exists>i\<le>length (resolve d p). k = take i (resolve d p)"
    then obtain i where i: "i \<le> length (resolve d p)" "k = take i (resolve d p)" by blast
    have "k \<noteq> []" using assms(3) by auto
    then have "k \<in> set (prefixes_of (resolve d p))" using i by (cases i) (auto simp: prefixes_of_def)
    then show False using assms(2,3) by (auto simp: file_create_directories_def Let_def split: if_splits)
  qed
  then show ?thesis using create_directories_spec(2) [OF assms(1,2), of k] assms(3) by auto
qed

text \<open>The path of a copy in the journal; asking for it may create its directory.\<close>

definition journal_name :: "peer_context \<Rightarrow> path \<Rightarrow> path" where
  "journal_name ctx p = path_append (path_append (journal_directory ctx) (parent_path p)) (filename p)"

lemma journal_path_step:
  assumes "journal_path me p s = Some (Returns j, s')" "tree_ok (my_disk me (fuse_fs s))"
  shows "j = journal_name (my_ctx me (fuse_fs s)) p" "fuse_handles s' = fuse_handles s"
    "my_ctx x (fuse_fs s') = my_ctx x (fuse_fs s)"
    "tree_ok (my_disk me (fuse_fs s'))" "resolve (my_disk me (fuse_fs s')) q = resolve (my_disk me (fuse_fs s)) q"
    "find_node (my_disk me (fuse_fs s)) k = Some (Regular t) \<Longrightarrow>
      find_node (my_disk me (fuse_fs s')) k = Some (Regular t)"
proof -
  let ?d = "my_disk me (fuse_fs s)" let ?ctx = "my_ctx me (fuse_fs s)"
  let ?parent = "path_append (journal_directory ?ctx) (parent_path p)"
  obtain d where d: "as_journal_path ?ctx p ?d = Inr (j, d)" "s' = s\<lparr>fuse_fs := set_disk me d (fuse_fs s)\<rparr>"
    using assms(1) by (auto simp: journal_path_def on_fs_def on_disk_def split: sum.splits prod.splits)
  have kept: "j = path_append ?parent (filename p) \<and> (d = ?d \<or> (\<exists>b. file_create_directories ?parent ?d = Inr (b, d)))"
    using d(1) by (auto simp: as_journal_path_def Let_def split: if_splits sum.splits prod.splits)
  then show "j = journal_name ?ctx p" by (simp add: journal_name_def)
  show "fuse_handles s' = fuse_handles s" "my_ctx x (fuse_fs s') = my_ctx x (fuse_fs s)" by (simp_all add: d(2))
  have "tree_ok d \<and> resolve d q = resolve ?d q \<and>
      (find_node ?d k = Some (Regular t) \<longrightarrow> find_node d k = Some (Regular t))"
  proof (cases "d = ?d")
    case False
    then obtain b where b: "file_create_directories ?parent ?d = Inr (b, d)" using kept by blast
    show ?thesis
      using create_directories_spec(1,3) [OF assms(2) b] create_directories_regular [OF assms(2) b] by blast
  qed (use assms(2) in simp)
  then show "tree_ok (my_disk me (fuse_fs s'))" "resolve (my_disk me (fuse_fs s')) q = resolve ?d q"
    "find_node ?d k = Some (Regular t) \<Longrightarrow> find_node (my_disk me (fuse_fs s')) k = Some (Regular t)"
    by (simp_all add: d(2))
qed

lemma on_fs_see [simp]: "on_fs (see_disk me f) s = Some (fs_result (f (my_disk me (fuse_fs s))), s)"
  by (simp add: on_fs_def see_disk_def reads_def)

lemma logged_size_state:
  assumes "logged_size me p s = Some (r, s')"
  shows "s' = s"
proof (cases "fs_result (file_size (my_disk me (fuse_fs s)) p)")
qed (use assms in \<open>simp_all add: logged_size_def bnd_def ret_def\<close>)

lemma write_opens:
  assumes "fuse_write me p buf offset fi s = Some (Returns n, s')" "0 < n" "tree_ok (my_disk me (fuse_fs s))"
  shows "\<exists>k flags t. opened me (fi_fh fi) s = Some (k, flags, t) \<and> fl_write flags \<and> n \<le> int (length buf) \<and>
    opened me (fi_fh fi) s' =
      Some (k, flags, overwrite (take (nat n) buf) (if fl_append flags then length t else offset) t)"
proof -
  obtain s1 s2 j where s1: "os_pwrite me (fi_fh fi) buf offset s = Some (Returns n, s1)"
    and s2: "journal_path me p s1 = Some (Returns j, s2)" and s': "s' = s2"
    using assms(1) by (auto simp: fuse_write_def bnd_Some ret_def dest: logged_size_state)
  then obtain k flags t where k: "opened me (fi_fh fi) s = Some (k, flags, t)" "fl_write flags" "n \<le> int (length buf)"
    "s1 = set_opened me k (overwrite (take (nat n) buf) (if fl_append flags then length t else offset) t) s"
    using assms(2) by (auto simp: os_pwrite_def Let_def split: option.splits if_splits)
  define c where "c = overwrite (take (nat n) buf) (if fl_append flags then length t else offset) t"
  have node: "map_of (fuse_handles s) (fi_fh fi) = Some (k, flags)" "find_node (my_disk me (fuse_fs s)) k = Some (Regular t)"
    using k(1) by (auto simp: opened_def split: option.splits file_node.splits)
  have "k \<noteq> []" using node(2) by auto
  then have new: "find_node (my_disk me (fuse_fs s1)) k = Some (Regular c)"
    by (simp add: k(4) set_opened_def find_put c_def)
  have "tree_ok (my_disk me (fuse_fs s1))"
    using assms(3) node(2) \<open>k \<noteq> []\<close> find_parent_is [OF assms(3), of k] tree_ok_put [OF assms(3), of k]
    by (simp add: k(4) set_opened_def)
  then have "find_node (my_disk me (fuse_fs s2)) k = Some (Regular c)" "fuse_handles s2 = fuse_handles s1"
    using journal_path_step(2,6) [OF s2] new by blast+
  moreover have "fuse_handles s1 = fuse_handles s" by (simp add: k(4) set_opened_def)
  ultimately have "opened me (fi_fh fi) s' = Some (k, flags, c)" using node(1) by (simp add: s' opened_def)
  then show ?thesis using k(1-3) by (auto simp: c_def)
qed

subsection \<open>Closing a file\<close>

lemma remove_all_gone:
  assumes "file_remove_all p d = Inr (b, d')" "resolve d p \<noteq> []"
  shows "\<not> file_exists d' p"
proof (cases "p = []")
  case False
  then have "d' = d\<lparr>disk_files := filter (\<lambda>e. \<not> below (resolve d p) (fst e)) (disk_files d)\<rparr>"
    using assms(1) by (auto simp: file_remove_all_def Let_def)
  then show ?thesis
    using assms(2) map_of_filter [where P = "\<lambda>j. \<not> below (resolve d p) j" and m = "disk_files d" and j = "resolve d p"]
    by (auto simp: file_exists_def find_node_def below_def)
qed (simp add: file_exists_def)

lemma clean_journal_cleans:
  assumes "clean_journal me u s = Some (Returns b, s')" "tree_ok (my_disk me (fuse_fs s))" "names_file (uri_path u)"
  shows "\<not> file_exists (my_disk me (fuse_fs s')) (journal_name (my_ctx me (fuse_fs s)) (uri_path u))"
proof -
  let ?j = "journal_name (my_ctx me (fuse_fs s)) (uri_path u)"
  obtain j s1 where s1: "journal_path me (uri_path u) s = Some (Returns j, s1)"
    and rm: "on_fs (on_disk me (file_remove_all j)) s1 = Some (Returns b, s')"
    using assms(1) unfolding clean_journal_def bnd_Some by blast
  have j: "j = ?j" by (rule journal_path_step(1) [OF s1 assms(2)])
  obtain e d where d: "file_remove_all ?j (my_disk me (fuse_fs s1)) = Inr (e, d)" 
    by (cases "?j = []") (auto simp: file_remove_all_def Let_def)
  then have "my_disk me (fuse_fs s') = d" using rm by (simp add: j on_fs_def on_disk_def) auto
  moreover have "resolve (my_disk me (fuse_fs s1)) ?j \<noteq> []"
    using canonical_resolves_below(1) [of "uri_path u"] assms(3)
    by (simp add: journal_name_def resolve_split names_file_def)
  ultimately show ?thesis using remove_all_gone [OF d] by simp
qed

end
