(* ===== verification/Example_Fuse.thy ===== *)
theory Example_Fuse
  imports Example_Fs Fuse
begin

text \<open>
  A process of \<open>Example_Fs\<close> with a file open in its journal, and peers that know no metadata
  and refuse every file.
\<close>

definition journal_disk :: disk where
  "journal_disk = example_disk\<lparr>disk_files := [([''data''], Directory), ([''metadata''], Directory),
     ([''metadata'', ''journal''], Directory), ([''metadata'', ''journal'', ''f''], Regular ''ab'')]\<rparr>"

definition reading_and_writing :: open_flags where
  "reading_and_writing =
     \<lparr>fl_read = True, fl_write = True, fl_append = False, fl_create = False, fl_exclusive = False, fl_truncate = False\<rparr>"

text \<open>The kernel takes at most two bytes at once.\<close>

definition open_fuse :: fuse_world where
  "open_fuse =
     \<lparr>fuse_fs = set_disk ''ipv4:10.0.0.1:5001'' journal_disk example_fs,
      fuse_handles = [(3, [''metadata'', ''journal'', ''f''], reading_and_writing)], fuse_next = 4,
      fuse_taken = (\<lambda>n. min 2 (int n))\<rparr>"

definition open_file :: file_info where
  "open_file = \<lparr>fi_flags = reading_and_writing, fi_fh = 3\<rparr>"

definition refusing_env :: fs_env where
  "refusing_env = example_env\<lparr>env_fs := no_fs_stubs
     \<lparr>rpc_meta := \<lambda>from_addr to_addr md req s. Some ((NOT_FOUND, empty_meta_response), s),
      rpc_put := \<lambda>from_addr to_addr md chunks s. Some ((UNAVAILABLE, ()), s)\<rparr>\<rparr>"

lemma journal_tree: "tree_ok journal_disk"
proof -
  have lt: "[''data''] < [''metadata'']" "[''metadata''] < [''metadata'', ''journal'']"
    "[''metadata'', ''journal''] < [''metadata'', ''journal'', ''f'']" "[''data''] < [''metadata'', ''journal'']"
    "[''data''] < [''metadata'', ''journal'', ''f'']" "[''metadata''] < [''metadata'', ''journal'', ''f'']"
    by code_simp+
  show ?thesis using lt by (auto simp: tree_ok_def journal_disk_def find_node_def)
qed

lemma journal_queries:
  "as_journal_path ctx_a ''/f'' journal_disk = Inr (''./metadata/journal/f'', journal_disk)"
  "uri_path (as_uri ''/f'') = ''/f''" "uri_scheme (as_uri ''/f'') = ''chord''" "canonical ''/f'' = ''/f''"
  "new_uri ''chord'' ''/f'' = as_uri ''/f''"
  "\<not> file_is_directory journal_disk ''./metadata/journal/f''" "file_size journal_disk ''./metadata/journal/f'' = Inr 2"
  "find_path journal_disk ''./metadata/journal/f'' = Some (Regular ''ab'')"
  "find_node journal_disk [''metadata'', ''journal'', ''f''] = Some (Regular ''ab'')"
  "build (builder_of ''chord'' ''/f'') = Inr (as_uri ''/f'')" "names_file ''/f''"
proof -
  have "as_journal_path (default_context 10\<lparr>ctx_advertise_addr := ''ipv4:10.0.0.1:5001'', ctx_bootstrap := True\<rparr>) ''/f'' journal_disk = Inr (''./metadata/journal/f'', journal_disk)"
    by code_simp
  then show "as_journal_path ctx_a ''/f'' journal_disk = Inr (''./metadata/journal/f'', journal_disk)"
    by (simp add: ctx_a_def)
qed code_simp+

lemma open_fuse_self:
  "my_disk ''ipv4:10.0.0.1:5001'' (fuse_fs open_fuse) = journal_disk" "my_ctx ''ipv4:10.0.0.1:5001'' (fuse_fs open_fuse) = ctx_a"
  "ring (fuse_fs open_fuse) = example_ring" "fuse_handles open_fuse = [(3, [''metadata'', ''journal'', ''f''], reading_and_writing)]"
  "fuse_taken open_fuse n = min 2 (int n)"
  "set_disk ''ipv4:10.0.0.1:5001'' journal_disk (fuse_fs open_fuse) = fuse_fs open_fuse" "fi_fh open_file = 3"
  "(fuse_fs open_fuse)\<lparr>ring := example_ring\<rparr> = fuse_fs open_fuse"
  by (simp_all add: open_fuse_def my_ctx_def example_fs_def open_file_def set_disk_def my_disk_def)

lemma example_journal_path: "journal_path ''ipv4:10.0.0.1:5001'' ''/f'' open_fuse = Some (Returns ''./metadata/journal/f'', open_fuse)"
  by (simp add: journal_path_def open_fuse_self journal_queries on_fs_def on_disk_def)

lemma example_put_refused:
  "fs_facade_put X refusing_env ''ipv4:10.0.0.1:5001'' ''./metadata/journal/f'' (as_uri ''/f'') NONE (fuse_fs open_fuse) =
    Some (Returns UNAVAILABLE, fuse_fs open_fuse)"
  by (simp add: fs_facade_put_def bnd_def gets_def ret_def open_fuse_self journal_queries fs_facade_is_directory_def
    client_dir_def canonical_uri_def reads_def uri_result_def ring_successor_def on_ring_def uri_hash_def refusing_env_def
    example_lookup rpc_def put_file_def client_put_path_def client_put_node_path_def catch_io_def on_exception_def
    open_for_reading_def client_put_node_def Let_def)

lemma example_flush:
  "fuse_flush X refusing_env ''ipv4:10.0.0.1:5001'' ''/f'' open_file open_fuse = Some (Returns (- EAGAIN), open_fuse)"
  by (simp add: fuse_flush_def Let_def journal_queries example_journal_path os_fsync_def open_fuse_self logged_size_def
      fs_result_def bnd_def gets_def ret_def on_fs_def [of "fs_facade_put _ _ _ _ _ _"] example_put_refused)

end
