(* ===== verification/Departure.thy ===== *)
theory Departure
  imports Growth Handlers
begin

text \<open>
  A member leaving a linked ring.  It tells its successor and its predecessor and sends its
  fingers along: the predecessor learns of the new successor at once, the successor of the new
  predecessor when that one runs its stabilise task.
\<close>

subsection \<open>Tables after a removal\<close>

text \<open>What a table holds counts as heard of, also when it is not the best of all.\<close>

lemma best_finger_self:
  "(\<And>n. f = Some n \<Longrightarrow> pos self s < pos self (node_uuid n)) \<Longrightarrow> best_finger self s (set_option f) f"
  by (cases f) (simp_all add: best_finger_def)

lemma best_predecessor_self: "best_predecessor self (set_option p) p"
  by (cases p) (simp_all add: best_predecessor_def)

lemma learn_starts: "starts_ok (ctx_uuid ctx) (successors r) \<Longrightarrow> starts_ok (ctx_uuid ctx) (successors (learn ctx n r))"
  by (cases "n = ctx_node ctx") (simp_all add: learn_eq map_update_starts)

lemma learn_first_finger:
  assumes "starts_ok (ctx_uuid ctx) (successors r)"
    and "best_finger (ctx_uuid ctx) (start (ctx_uuid ctx) 0) K (router_successor r)"
  shows "best_finger (ctx_uuid ctx) (start (ctx_uuid ctx) 0) (K \<union> ({n} - {ctx_node ctx})) (router_successor (learn ctx n r))"
proof (cases "n = ctx_node ctx")
  case False
  have len: "0 < length (successors r)" "ent_uuid (successors r ! 0) = start (ctx_uuid ctx) 0"
    using starts_length [OF assms(1)] starts_nth [OF assms(1)] by simp_all
  then have "ent_uuid (successors r ! 0) \<noteq> ctx_uuid ctx"
    by (intro starts_ok_not_self [OF assms(1)] nth_mem)
  from best_finger_update [OF this, of K n] show ?thesis
    using False len assms(2) by (simp add: learn_eq router_successor_def)
qed (use assms in simp)

lemma learn_predecessor:
  "best_predecessor (ctx_uuid ctx) L (router_predecessor r) \<Longrightarrow>
   best_predecessor (ctx_uuid ctx) (L \<union> ({n} - {ctx_node ctx})) (router_predecessor (learn ctx n r))"
  using best_predecessor_update [of ctx L "router_predecessor r" n]
  by (cases "n = ctx_node ctx") (simp_all add: learn_eq)

lemma fold_learn_best:
  assumes "starts_ok (ctx_uuid ctx) (successors r)"
    and "best_finger (ctx_uuid ctx) (start (ctx_uuid ctx) 0) K (router_successor r)"
    and "best_predecessor (ctx_uuid ctx) L (router_predecessor r)"
  shows "best_finger (ctx_uuid ctx) (start (ctx_uuid ctx) 0) (K \<union> (set ns - {ctx_node ctx}))
      (router_successor (fold (learn ctx) ns r))"
    and "best_predecessor (ctx_uuid ctx) (L \<union> (set ns - {ctx_node ctx})) (router_predecessor (fold (learn ctx) ns r))"
  using assms
proof (induction ns arbitrary: K L r)
  case (Cons n ns)
  have sets: "K \<union> (set (n # ns) - {ctx_node ctx}) = K \<union> ({n} - {ctx_node ctx}) \<union> (set ns - {ctx_node ctx})" for K
    by auto
  { case 1
    then show ?case unfolding sets
      using Cons.IH(1) [OF learn_starts learn_first_finger learn_predecessor] by simp
  next
    case 2
    then show ?case unfolding sets
      using Cons.IH(2) [OF learn_starts learn_first_finger learn_predecessor] by simp }
qed simp_all

text \<open>A finger of another node stays.\<close>

lemma remove_loop_keeps:
  "list_all2 (\<lambda>e f. not_uuid u (ent_node e) \<longrightarrow> f = e) es (fst (remove_loop ctx u es p repl))"
  by (induction ctx u es p repl rule: remove_loop.induct) (auto simp: Let_def not_uuid_def split: option.split)

lemma remove_keeps_first:
  assumes "successors r \<noteq> []" "not_uuid u (router_successor r)"
  shows "router_successor (fst (snd (remove ctx u signal r))) = router_successor r"
proof -
  have "list_all2 (\<lambda>e f. not_uuid u (ent_node e) \<longrightarrow> f = e) (rev (successors r)) (fst (removed ctx u r))"
    unfolding removed_def by (rule remove_loop_keeps)
  then have "list_all2 (\<lambda>e f. not_uuid u (ent_node e) \<longrightarrow> f = e) (successors r) (rev (fst (removed ctx u r)))"
    using list_all2_rev [of _ "rev (successors r)" "fst (removed ctx u r)"]
    by (metis (no_types, lifting) list_all2_rev rev_rev_ident)
  then show ?thesis
    using assms by (cases "successors r") (auto simp: remove_router router_successor_def list_all2_Cons1)
qed

text \<open>The nodes sent along are the fingers.\<close>

lemma get_nodes_known: "set (get_nodes r) \<subseteq> router_nodes r"
  using oset_of_set [of node_uuid "entry_nodes (successors r)"] by (auto simp: get_nodes_def router_nodes_def)

lemma successor_sent:
  assumes "router_successor r = Some s" "successors r \<noteq> []" "router_nodes r \<subseteq> N" "inj_on node_uuid N"
  shows "s \<in> set (get_nodes r)"
proof -
  have s: "s \<in> set (entry_nodes (successors r))"
    using assms(1,2) by (force simp: set_entry_nodes router_successor_def)
  then have "node_uuid s \<in> node_uuid ` set (get_nodes r)" by (simp add: get_nodes_def oset_of_keys)
  then obtain m :: node where "m \<in> set (get_nodes r)" "node_uuid m = node_uuid s" by force
  moreover have "s \<in> N" "m \<in> N" using s assms(3) get_nodes_known [of r] calculation(1) by (auto simp: router_nodes_def)
  ultimately show ?thesis using inj_onD [OF assms(4), of m s] by simp
qed

subsection \<open>Telling of the departure\<close>

lemma fold_learn_others: "fold (learn ctx) ns r = fold (learn ctx) [n \<leftarrow> ns. n \<noteq> ctx_node ctx] r"
  by (induction ns arbitrary: r) simp_all

lemma fold_update_frame:
  fixes f :: "'a \<Rightarrow> node"
  shows "self_ctx e (fold (\<lambda>x. router_update me (f x)) xs w) = self_ctx e w"
  "alive (fold (\<lambda>x. router_update me (f x)) xs w) = alive w"
  "e \<noteq> me \<Longrightarrow> self_router e (fold (\<lambda>x. router_update me (f x)) xs w) = self_router e w"
  by (induction xs arbitrary: w) (simp_all add: router_update_router)

lemma service_leave_frame:
  "self_ctx e (snd (service_leave me a req w)) = self_ctx e w"
  "alive (snd (service_leave me a req w)) = alive w"
  "e \<noteq> me \<Longrightarrow> self_router e (snd (service_leave me a req w)) = self_router e w"
  by (simp_all add: service_leave_def Let_def fold_update_frame router_remove_router)

definition leave_note :: "node \<Rightarrow> world \<Rightarrow> leave_request" where
  "leave_note x w =
     \<lparr>lreq_header = Some (make_header (self_ctx (node_endpoint x) w)),
      lreq_entries = get_nodes (self_router (node_endpoint x) w)\<rparr>"

lemma leave_note_sent:
  assumes "alive w (node_endpoint y)"
  shows "inform_about_leave (network t (Suc d)) (node_endpoint x) y w =
    Some (OK, snd (service_leave (node_endpoint y) (t (node_endpoint x)) (leave_note x w) w))"
proof -
  have "map make_entry ns = ns" for ns by (simp add: map_idI)
  then show ?thesis
    using assms
    by (simp add: inform_about_leave_def network_stubs deliver_def respond_def leave_note_def service_leave_def
        has_valid_header_def make_header_def Let_def)
qed

text \<open>What one neighbour knows afterwards\<close>

lemma neighbour_told:
  fixes w :: world and x y :: node and a :: string
  defines "w' \<equiv> snd (service_leave (node_endpoint y) a (leave_note x w) w)"
  assumes x: "self_node (node_endpoint x) w = x" "x \<in> N" "router_nodes (self_router (node_endpoint x) w) \<subseteq> N - {x}"
    and y: "self_node (node_endpoint y) w = y" "y \<in> N" "x \<noteq> y"
      "router_wf (self_ctx (node_endpoint y) w) (self_router (node_endpoint y) w)"
      "router_nodes (self_router (node_endpoint y) w) \<subseteq> N - {y}"
    and N: "spaced N" "\<forall>n\<in>N. same_host a n"
  shows "router_wf (self_ctx (node_endpoint y) w) (self_router (node_endpoint y) w')"
    and "router_nodes (self_router (node_endpoint y) w') \<subseteq> N - {x, y}"
    and "\<exists>K. K \<subseteq> N - {x, y} \<and> set (get_nodes (self_router (node_endpoint x) w)) - {y} \<subseteq> K \<and>
      (\<forall>z. self_successor (node_endpoint y) w = Some z \<and> z \<noteq> x \<longrightarrow> z \<in> K) \<and>
      best_finger (node_uuid y) (start (node_uuid y) 0) K (self_successor (node_endpoint y) w')"
proof -
  let ?Y = "node_endpoint y" and ?ctx = "self_ctx (node_endpoint y) w"
  let ?ns = "get_nodes (self_router (node_endpoint x) w)"
  let ?r = "fst (snd (remove ?ctx (node_uuid x) False (self_router ?Y w)))"
  have inj: "inj_on node_uuid N" using N(1) by (rule spaced_inj)
  have ctx: "ctx_node ?ctx = y" "ctx_uuid ?ctx = node_uuid y"
    using y(1) self_node_uuid [of ?Y w] by (simp_all add: self_node_def)
  have xy: "node_uuid x \<noteq> ctx_uuid ?ctx" using inj_onD [OF inj _ x(2) y(2)] y(3) ctx by auto
  have src: "source_of (Some (make_header (self_ctx (node_endpoint x) w))) = x"
    using x(1) by (simp add: source_of_def header_entry_def make_header_def entry_of_def self_node_def ctx_node_def)
  have sent: "set ?ns \<subseteq> N - {x}" using get_nodes_known x(3) by blast
  have same: "fold (\<lambda>e. learn ?ctx (make_node_peer a e)) ?ns r = fold (learn ?ctx) ?ns r" for r
    by (rule List.fold_cong) (use sent N(2) in auto)
  have table: "self_router ?Y w' = fold (learn ?ctx) ?ns ?r"
    unfolding w'_def using service_leave_router [of "leave_note x w" ?Y a w] src same
    by (simp add: leave_note_def has_valid_header_def make_header_def)
  have wf: "router_wf ?ctx ?r" using y(4) by (rule remove_wf)
  have wfs: "router_wf ?ctx (fold (learn ?ctx) ns r)" if "router_wf ?ctx r" for ns r
    using that by (induction ns arbitrary: r) (simp_all add: learn_wf)
  show "router_wf ?ctx (self_router ?Y w')" unfolding table using wfs wf by blast
  have known: "router_nodes ?r \<subseteq> N - {x, y}"
    using remove_clears [OF xy] remove_no_new [OF router_wf_fields(4) [OF y(4)]] y(5) by fastforce
  have "router_nodes (fold (learn ?ctx) ?ns ?r) \<subseteq> (set ?ns - {y}) \<union> router_nodes ?r"
    using router_nodes_fold [of ?ctx "\<lambda>e. e" "[n \<leftarrow> ?ns. n \<noteq> y]" ?r] ctx fold_learn_others [of ?ctx ?ns ?r] by auto
  then show "router_nodes (self_router ?Y w') \<subseteq> N - {x, y}" unfolding table using known sent by blast
  let ?f = "router_successor ?r"
  have f: "n \<in> N - {x, y}" if "?f = Some n" for n
    using router_successor_known [OF router_wf_fields(4) [OF wf] that] known by blast
  have far: "pos (node_uuid y) (start (node_uuid y) 0) < pos (node_uuid y) (node_uuid n)" if "?f = Some n" for n
    using beyond_first_start [OF N(1) y(2)] f [OF that] by blast
  have "best_finger (node_uuid y) (start (node_uuid y) 0) (set_option ?f) ?f"
    using far by (rule best_finger_self)
  then have best: "best_finger (node_uuid y) (start (node_uuid y) 0) (set_option ?f \<union> (set ?ns - {y}))
      (router_successor (self_router ?Y w'))"
    using fold_learn_best(1) [OF router_wf_fields(1) [OF wf] _ best_predecessor_self, of _ ?ns] ctx table by simp
  have kept: "?f = Some z" if z: "self_successor ?Y w = Some z" "z \<noteq> x" for z
  proof -
    have "z \<in> N" using router_successor_known [OF router_wf_fields(4) [OF y(4)]] z(1) y(5) by (auto simp: self_successor_def)
    then have "not_uuid (node_uuid x) (router_successor (self_router ?Y w))"
      using inj_onD [OF inj _ _ x(2)] z by (auto simp: not_uuid_def self_successor_def)
    then show ?thesis
      using remove_keeps_first [OF router_wf_fields(4) [OF y(4)]] z(1) by (simp add: self_successor_def)
  qed
  show "\<exists>K. K \<subseteq> N - {x, y} \<and> set ?ns - {y} \<subseteq> K \<and>
      (\<forall>z. self_successor ?Y w = Some z \<and> z \<noteq> x \<longrightarrow> z \<in> K) \<and>
      best_finger (node_uuid y) (start (node_uuid y) 0) K (self_successor ?Y w')"
    using best f kept sent unfolding self_successor_def
    by (intro exI [of _ "set_option ?f \<union> (set ?ns - {y})"] conjI) (auto simp: self_successor_def)
qed

subsection \<open>The gap closes\<close>

lemma gap_neighbours:
  assumes "next_member N p x" "next_member N x s" "p \<noteq> s" "inj_on node_uuid N" "x \<in> N" "p \<in> N"
  shows "next_member (N - {x}) p s" "last_member (N - {x}) s p"
proof -
  have s: "s \<in> N" "s \<noteq> x" "p \<noteq> x" using assms by (auto simp: next_member_def)
  have apart: "node_uuid m \<noteq> node_uuid n" if "m \<in> N" "n \<in> N" "m \<noteq> n" for m n
    using inj_onD [OF assms(4)] that by blast
  have closest: "dist (node_uuid p) (node_uuid s) \<le> dist (node_uuid p) (node_uuid n)"
    if n: "n \<in> N - {x} - {p}" for n
  proof -
    have far: "dist (node_uuid p) (node_uuid x) \<le> dist (node_uuid p) (node_uuid m)" if "m \<in> N - {p}" for m
      using assms(1) that by (simp add: next_member_def)
    have "dist (node_uuid x) (node_uuid s) \<le> dist (node_uuid x) (node_uuid n)"
      using assms(2) n by (simp add: next_member_def)
    then show ?thesis
      using dist_split [OF far, of s] dist_split [OF far, of n] far [of s] far [of n] s(1) assms(3) n by auto
  qed
  show "next_member (N - {x}) p s" using closest s assms(3) by (auto simp: next_member_def)
  have "dist (node_uuid s) (node_uuid n) \<le> dist (node_uuid s) (node_uuid p)" if n: "n \<in> N - {x} - {s}" for n
  proof (cases "n = p")
    case False
    have "dist (node_uuid s) (node_uuid n) = dist (node_uuid p) (node_uuid n) - dist (node_uuid p) (node_uuid s)"
      using dist_split closest n False by blast
    moreover have "dist (node_uuid p) (node_uuid s) + dist (node_uuid s) (node_uuid p) = 2 ^ 256"
      using dist_back apart assms(3,6) s(1) by blast
    ultimately show ?thesis using dist_less [of "node_uuid p" "node_uuid n"] by linarith
  qed simp
  then show "last_member (N - {x}) s p" using assms(3,6) s by (auto simp: last_member_def)
qed

lemma best_finger_next:
  assumes "best_finger (node_uuid y) (start (node_uuid y) 0) K f" "K \<subseteq> N - {y}" "next_member N y s" "s \<in> K"
    "spaced N" "y \<in> N"
  shows "f = Some s"
proof -
  have far: "pos (node_uuid y) (start (node_uuid y) 0) < pos (node_uuid y) (node_uuid n)" if "n \<in> N - {y}" for n
    using beyond_first_start [OF assms(5,6) that] .
  then obtain m where m: "f = Some m" "m \<in> K" "dist (node_uuid y) (node_uuid m) \<le> dist (node_uuid y) (node_uuid s)"
    using assms(1,2,4) by (cases f) (auto simp: best_finger_def pos_le_dist)
  then have "next_member N y m" using assms(2,3) by (force simp: next_member_def)
  then show ?thesis using m(1) next_member_unique [OF assms(3) _ spaced_inj [OF assms(5)]] by blast
qed

lemma best_predecessor_last:
  assumes "best_predecessor (node_uuid y) L q" "L \<subseteq> N - {y}" "last_member N y p" "p \<in> L" "spaced N"
  shows "q = Some p"
proof -
  obtain m where m: "q = Some m" "m \<in> L" "dist (node_uuid y) (node_uuid p) \<le> dist (node_uuid y) (node_uuid m)"
    using assms(1,4) by (cases q) (auto simp: best_predecessor_def pos_le_dist)
  then have "last_member N y m" using assms(2,3) by (force simp: last_member_def)
  then show ?thesis using m(1) last_member_unique [OF assms(3) _ spaced_inj [OF assms(5)]] by blast
qed

text \<open>The two neighbours of a member that left: each without it, and the one before it with the one
  after it as its successor.\<close>

definition gap_closed :: "world \<Rightarrow> node set \<Rightarrow> node \<Rightarrow> node \<Rightarrow> node \<Rightarrow> bool" where
  "gap_closed w N x p s =
     (self_successor (node_endpoint p) w = Some s \<and> self_successor (node_endpoint s) w \<noteq> None \<and>
      (\<forall>y\<in>{p, s}. alive w (node_endpoint y) \<and> self_node (node_endpoint y) w = y \<and>
        router_wf (self_ctx (node_endpoint y) w) (self_router (node_endpoint y) w) \<and>
        router_nodes (self_router (node_endpoint y) w) \<subseteq> N - {x, y}))"

lemma linked_leave:
  assumes st: "linked w N" and x: "x \<in> N" and near: "self_successor (node_endpoint x) w = Some s"
      "self_predecessor (node_endpoint x) w = Some p" "p \<noteq> s"
    and hosts: "\<forall>n\<in>N. same_host (t (node_endpoint x)) n"
  shows "\<exists>w'. facade_leave (network t (Suc d)) (node_endpoint x) w = Some w' \<and> gap_closed w' N x p s"
proof -
  let ?X = "node_endpoint x" and ?S = "node_endpoint s" and ?P = "node_endpoint p" and ?N = "network t (Suc d)"
  have N: "spaced N" using st by (simp add: linked_def)
  then have inj: "inj_on node_uuid N" by (rule spaced_inj)
  have s: "s \<in> N" "s \<noteq> x" "next_member N x s"
    using linked_successor [OF st x] near(1) by (auto simp: next_member_def)
  have p: "p \<in> N" "p \<noteq> x" "self_successor ?P w = Some x" "next_member N p x"
    using linked_forth [OF st x near(2)] linked_predecessor [OF st x] near(2)
      last_member_next [OF _ x inj] by (auto simp: last_member_def)
  note facts = linked_member_facts [OF st]
  have ends: "?S \<noteq> ?X" "?P \<noteq> ?X" "?S \<noteq> ?P"
    using facts(2) [OF x] facts(2) [OF s(1)] facts(2) [OF p(1)] s(2) p(2) near(3) by metis+
  have known: "router_nodes (self_router (node_endpoint y) w) \<subseteq> N - {y}" if "y \<in> N" for y
    using linked_nodes [OF st that] .
  define w1 where "w1 = snd (service_leave ?S (t ?X) (leave_note x w) w)"
  define w2 where "w2 = snd (service_leave ?P (t ?X) (leave_note x w1) w1)"
  have w1: "\<And>e. self_ctx e w1 = self_ctx e w" "alive w1 = alive w" "\<And>e. e \<noteq> ?S \<Longrightarrow> self_router e w1 = self_router e w"
    by (simp_all add: w1_def service_leave_frame)
  have w2: "\<And>e. self_ctx e w2 = self_ctx e w" "alive w2 = alive w" "\<And>e. e \<noteq> ?P \<Longrightarrow> self_router e w2 = self_router e w1"
    by (simp_all add: w2_def service_leave_frame w1)
  have self1: "self_node e w1 = self_node e w" for e by (simp add: self_node_def w1)
  note told_s = neighbour_told [OF facts(2) [OF x] x known [OF x] facts(2) [OF s(1)] s(1) s(2) [symmetric] facts(5) [OF s(1)]
      known [OF s(1)] N hosts, folded w1_def]
  have x1: "self_node ?X w1 = x" "router_nodes (self_router ?X w1) \<subseteq> N - {x}"
    using self1 facts(2) [OF x] w1(3) [OF ends(1) [symmetric]] known [OF x] by simp_all
  have p1: "self_node ?P w1 = p" "router_wf (self_ctx ?P w1) (self_router ?P w1)" "router_nodes (self_router ?P w1) \<subseteq> N - {p}"
    using self1 facts(2,5) [OF p(1)] w1(1) w1(3) [OF ends(3) [symmetric]] known [OF p(1)] by simp_all
  note told_p = neighbour_told [OF x1(1) x x1(2) p1(1) p(1) p(2) [symmetric] p1(2,3) N hosts, folded w2_def]
  have sent: "s \<in> set (get_nodes (self_router ?X w1))"
    using successor_sent [OF _ router_wf_fields(4) [OF facts(5) [OF x]] _ inj, of s] near(1) known [OF x]
      w1(3) [OF ends(1) [symmetric]] by (auto simp: self_successor_def)
  obtain K where K: "K \<subseteq> N - {x, p}" "set (get_nodes (self_router ?X w1)) - {p} \<subseteq> K"
    "best_finger (node_uuid p) (start (node_uuid p) 0) K (self_successor ?P w2)"
    using told_p(3) by blast
  have "self_successor ?P w2 = Some s"
    using K(1,2) sent near(3) p(1,2) spaced_subset [OF N, of "N - {x}"]
    by (intro best_finger_next [OF K(3) _ gap_neighbours(1) [OF p(4) s(3) near(3) inj x p(1)]]) auto
  moreover have "self_successor ?S w2 \<noteq> None"
  proof -
    obtain z where z: "self_successor ?S w = Some z" "next_member N s z"
      using linked_successor [OF st s(1)] p(1) near(3) by (auto simp: next_member_def split: option.splits)
    have "z \<noteq> x" using linked_back [OF st s(1) z(1)] near(2,3) by auto
    then obtain L where "best_finger (node_uuid s) (start (node_uuid s) 0) L (self_successor ?S w1)" "z \<in> L" "L \<subseteq> N - {x, s}"
      using told_s(3) z(1) by blast
    then have "self_successor ?S w1 \<noteq> None" using beyond_first_start [OF N s(1), of z]
      by (cases "self_successor ?S w1") (auto simp: best_finger_def)
    then show ?thesis using w2(3) [OF ends(3)] by (simp add: self_successor_def)
  qed
  moreover have "self_node ?S w2 = s" "self_node ?P w2 = p"
    using self1 w2(1) w1(1) facts(2) [OF s(1)] facts(2) [OF p(1)] by (simp_all add: self_node_def)
  moreover have "router_wf (self_ctx ?S w2) (self_router ?S w2)" "router_nodes (self_router ?S w2) \<subseteq> N - {x, s}"
    using told_s(1,2) w2(1) w2(3) [OF ends(3)] by simp_all
  moreover have "router_wf (self_ctx ?P w2) (self_router ?P w2)" "router_nodes (self_router ?P w2) \<subseteq> N - {x, p}"
    using told_p(1,2) w1(1) w2(1) by simp_all
  moreover have "alive w2 ?S" "alive w2 ?P" using facts(1) [OF s(1)] facts(1) [OF p(1)] w1(2) w2(2) by simp_all
  ultimately have closed: "gap_closed w2 N x p s" by (simp add: gap_closed_def)
  have "client_leave ?N ?X w = Some w2"
  proof -
    have "inform_successor_about_leave ?N ?X w = Some (OK, w1)"
      using near(1) s(2) facts(2) [OF x] leave_note_sent [OF facts(1) [OF s(1)]]
      by (simp add: inform_successor_about_leave_def w1_def)
    moreover have "self_predecessor ?X w1 = Some p"
      using near(2) w1(3) [OF ends(1) [symmetric]] by (simp add: self_predecessor_def)
    then have "inform_predecessor_about_leave ?N ?X w1 = Some (OK, w2)"
      using leave_note_sent [of w1 p] facts(1) [OF p(1)] w1(2)
      by (simp add: inform_predecessor_about_leave_def w2_def)
    ultimately show ?thesis by (simp add: client_leave_def)
  qed
  then obtain u evs where left: "facade_leave ?N ?X w =
      Some (emit ?X evs (update_peer ?X (\<lambda>p. p\<lparr>peer_ctx := (peer_ctx p)\<lparr>ctx_uuid := u\<rparr>\<rparr>) w2))"
    by (simp add: facade_leave_def Let_def)
  have "self_ctx e (update_peer ?X (\<lambda>p. p\<lparr>peer_ctx := (peer_ctx p)\<lparr>ctx_uuid := u\<rparr>\<rparr>) w2) = self_ctx e w2" if "e \<noteq> ?X" for e
    using that by (simp add: self_ctx_def update_peer_def)
  moreover have "self_router e (update_peer ?X (\<lambda>p. p\<lparr>peer_ctx := (peer_ctx p)\<lparr>ctx_uuid := u\<rparr>\<rparr>) w2) = self_router e w2" for e
    by (simp add: self_router_def update_peer_def)
  moreover have "alive (update_peer ?X (\<lambda>p. p\<lparr>peer_ctx := (peer_ctx p)\<lparr>ctx_uuid := u\<rparr>\<rparr>) w2) = alive w2"
    by (simp add: update_peer_def)
  ultimately have "gap_closed (emit ?X evs (update_peer ?X (\<lambda>p. p\<lparr>peer_ctx := (peer_ctx p)\<lparr>ctx_uuid := u\<rparr>\<rparr>) w2)) N x p s"
    using closed ends(1,2) by (simp add: gap_closed_def self_node_def self_successor_def)
  then show ?thesis using left by blast
qed

text \<open>The next stabilise task of the predecessor tells the successor.\<close>

lemma stabilize_closes:
  assumes gap: "gap_closed w N x p s" and N: "spaced N" and near: "next_member (N - {x}) p s" "last_member (N - {x}) s p"
    and members: "p \<in> N" "s \<in> N" "p \<noteq> s" "p \<noteq> x"
  shows "\<exists>w'. facade_stabilize (network t (Suc d)) (node_endpoint p) w = Some (Returns (), w') \<and>
    self_successor (node_endpoint p) w' = Some s \<and> self_predecessor (node_endpoint s) w' = Some p"
proof -
  let ?P = "node_endpoint p" and ?S = "node_endpoint s" and ?N = "network t (Suc d)"
  have inj: "inj_on node_uuid N" using N by (rule spaced_inj)
  have nodes: "self_node ?P w = p" "self_node ?S w = s" "alive w ?S" "self_successor ?P w = Some s"
    "self_successor ?S w \<noteq> None" "router_nodes (self_router ?S w) \<subseteq> N - {x, s}"
    "router_wf (self_ctx ?S w) (self_router ?S w)"
    using gap by (simp_all add: gap_closed_def)
  have ctx: "ctx_uuid (self_ctx ?P w) = node_uuid p" "ctx_uuid (self_ctx ?S w) = node_uuid s"
    "ctx_node (self_ctx ?S w) = s" "ctx_node (self_ctx ?P w) = p"
    using nodes(1,2) self_node_uuid [of ?P w] self_node_uuid [of ?S w] by (simp_all add: self_node_def)
  have apart: "node_uuid s \<noteq> node_uuid p" using inj_onD [OF inj _ members(2,1)] members(3) by auto
  have no_closer: "\<not> between (node_uuid p) (node_uuid q) (node_uuid s)" if "self_predecessor ?S w = Some q" for q
  proof -
    have "q \<in> N - {x, s}" using that nodes(6) by (auto simp: router_nodes_def self_predecessor_def)
    then have "q = p \<or> dist (node_uuid p) (node_uuid s) \<le> dist (node_uuid p) (node_uuid q)"
      using near(1) by (auto simp: next_member_def)
    then show ?thesis using apart by (auto simp: between_dist_from)
  qed
  have src: "source_of (Some (make_header (self_ctx ?P w))) = p"
    using ctx(4) by (simp add: source_of_def header_entry_def make_header_def entry_of_def ctx_node_def)
  let ?req = "\<lparr>nreq_header = Some (make_header (self_ctx ?P w)), nreq_old_node = None, nreq_new_node = None\<rparr>"
  have "\<exists>evs. service_notify ?S (t ?P) ?req w = (Returns (OK, ()), emit ?S evs (router_update ?S p w))"
    using nodes(2,5) members(3) src
    by (auto simp: service_notify_def Let_def has_valid_header_def make_header_def split: option.split
        intro: exI [of _ "[]"])
  then obtain evs where told: "service_notify ?S (t ?P) ?req w = (Returns (OK, ()), emit ?S evs (router_update ?S p w))"
    by blast
  let ?w = "emit ?S evs (router_update ?S p w)"
  have "client_notify ?N ?P w = Some (OK, ?w)"
    using nodes(1,3,4) members(3) told
    by (simp add: client_notify_def network_stubs deliver_def respond_def)
  then have "client_stabilize ?N ?P w = Some ?w"
    using nodes(3,4) apart ctx(1) no_closer
    by (simp add: client_stabilize_def network_stubs deliver_def respond_def service_stabilize_def split: option.split)
  moreover have succ: "self_successor ?P ?w = Some s"
    using nodes(4) members(3) nodes(1,2) by (auto simp: self_successor_def router_update_router)
  ultimately have "facade_stabilize ?N ?P w = Some (Returns (), ?w)"
    by (simp add: facade_stabilize_def has_successor_def self_successor_def router_successor_def entry_valid_def)
  moreover have "self_predecessor ?S ?w = Some p"
  proof -
    have best: "best_predecessor (node_uuid s) (set_option (self_predecessor ?S w) \<union> ({p} - {s})) (self_predecessor ?S ?w)"
      using learn_predecessor [OF best_predecessor_self, of "self_ctx ?S w" "self_router ?S w" p] ctx
      by (simp add: self_predecessor_def router_update_router)
    show ?thesis
      using nodes(6) members spaced_subset [OF N, of "N - {x}"]
      by (intro best_predecessor_last [OF best _ near(2)]) (auto simp: router_nodes_def self_predecessor_def)
  qed
  ultimately show ?thesis using succ by blast
qed

lemma leave_then_stabilize:
  assumes "linked w N" "x \<in> N" "self_successor (node_endpoint x) w = Some s"
    "self_predecessor (node_endpoint x) w = Some p" "p \<noteq> s" "\<forall>n\<in>N. same_host (t (node_endpoint x)) n"
  shows "\<exists>w' w''. facade_leave (network t (Suc d)) (node_endpoint x) w = Some w' \<and>
    x \<notin> router_nodes (self_router (node_endpoint p) w') \<union> router_nodes (self_router (node_endpoint s) w') \<and>
    self_successor (node_endpoint p) w' = Some s \<and>
    facade_stabilize (network t (Suc d)) (node_endpoint p) w' = Some (Returns (), w'') \<and>
    self_successor (node_endpoint p) w'' = Some s \<and> self_predecessor (node_endpoint s) w'' = Some p"
proof -
  have N: "spaced N" "inj_on node_uuid N" using assms(1) spaced_inj by (auto simp: linked_def)
  have s: "s \<in> N" "next_member N x s"
    using linked_successor [OF assms(1,2)] assms(3) by (auto simp: next_member_def)
  have p: "p \<in> N" "p \<noteq> x" "next_member N p x"
    using linked_predecessor [OF assms(1,2)] assms(4) last_member_next [OF _ assms(2) N(2)]
    by (auto simp: last_member_def)
  obtain w' where w': "facade_leave (network t (Suc d)) (node_endpoint x) w = Some w'" "gap_closed w' N x p s"
    using linked_leave [where t = t, OF assms] by blast
  moreover obtain w'' where "facade_stabilize (network t (Suc d)) (node_endpoint p) w' = Some (Returns (), w'')"
    "self_successor (node_endpoint p) w'' = Some s" "self_predecessor (node_endpoint s) w'' = Some p"
    using stabilize_closes [OF w'(2) N(1) gap_neighbours [OF p(3) s(2) assms(5) N(2) assms(2) p(1)] p(1) s(1) assms(5) p(2)]
    by blast
  ultimately show ?thesis by (auto simp: gap_closed_def)
qed

end
