(* ===== verification/Config.thy ===== *)
theory Config
  imports Context
begin

text \<open>
  The configuration file (\<open>src/chord.context.manager.cc\<close>).  Reading YAML is a library's: a
  document is a tree of scalars, sequences and maps with the keys in the order of the text, and
  the conversions of scalars are the parameter \<open>Y\<close>.  \<open>decode_\<close> functions are the specialisations
  of \<open>YAML::convert\<close>.  What a decoder reports in the log is left out.
\<close>

datatype yaml = Scalar string | Sequence "yaml list" | Entries "(string \<times> yaml) list"

record yaml_conversions =
  yaml_bool :: "string \<Rightarrow> bool option"
  yaml_nat :: "string \<Rightarrow> nat option"
  yaml_int :: "string \<Rightarrow> int option"
  yaml_uuid :: "string \<Rightarrow> uuid option"

text \<open>\<open>node[key]\<close>: a scalar has no entries and throws, a sequence has none under a text.\<close>

fun yaml_get :: "yaml \<Rightarrow> string \<Rightarrow> yaml option outcome" where
  "yaml_get (Scalar t) key = Throws Std_exception"
| "yaml_get (Sequence ns) key = Returns None"
| "yaml_get (Entries es) key = Returns (map_of es key)"

text \<open>\<open>node.as<T>()\<close>\<close>

fun as_scalar :: "(string \<Rightarrow> 'a option) \<Rightarrow> yaml \<Rightarrow> 'a outcome" where
  "as_scalar conv (Scalar t) = (case conv t of Some v \<Rightarrow> Returns v | None \<Rightarrow> Throws Std_exception)"
| "as_scalar conv _ = Throws Std_exception"

abbreviation as_text :: "yaml \<Rightarrow> string outcome" where
  "as_text \<equiv> as_scalar Some"

fun out_each :: "('a \<Rightarrow> 's \<Rightarrow> 's outcome) \<Rightarrow> 'a list \<Rightarrow> 's \<Rightarrow> 's outcome" where
  "out_each f [] s = Returns s"
| "out_each f (x # xs) s = out_bind (f x s) (out_each f xs)"

fun as_set :: "(yaml \<Rightarrow> 'a::linorder outcome) \<Rightarrow> yaml \<Rightarrow> 'a list outcome" where
  "as_set conv (Sequence ns) = out_each (\<lambda>n s. out_bind (conv n) (\<lambda>v. Returns (oset_insert id v s))) ns []"
| "as_set conv _ = Throws Std_exception"

fun as_map :: "(yaml \<Rightarrow> 'a outcome) \<Rightarrow> yaml \<Rightarrow> (string \<times> 'a) list outcome" where
  "as_map conv (Entries es) = out_each (\<lambda>(k, n) m. out_bind (conv n) (\<lambda>v. Returns (omap_put k v m))) es []"
| "as_map conv _ = Throws Std_exception"

definition yaml_read :: "(yaml \<Rightarrow> 'a outcome) \<Rightarrow> yaml \<Rightarrow> string \<Rightarrow> 'a \<Rightarrow> 'a outcome" where
  "yaml_read conv y key target =
     out_bind (yaml_get y key) (\<lambda>n. case n of None \<Rightarrow> Returns target | Some n \<Rightarrow> conv n)"

definition yaml_read_default :: "(yaml \<Rightarrow> 'a outcome) \<Rightarrow> yaml \<Rightarrow> string \<Rightarrow> 'a \<Rightarrow> 'a outcome" where
  "yaml_read_default conv y key default_value = yaml_read conv y key default_value"

text \<open>\<open>set\<close> hands the value to a setter.\<close>

definition yaml_set :: "(yaml \<Rightarrow> 'a outcome) \<Rightarrow> yaml \<Rightarrow> string \<Rightarrow> ('a \<Rightarrow> 's \<Rightarrow> 's) \<Rightarrow> 's \<Rightarrow> 's outcome" where
  "yaml_set conv y key setter s =
     out_bind (yaml_get y key) (\<lambda>n. case n of
        None \<Rightarrow> Returns s
      | Some n \<Rightarrow> out_bind (conv n) (\<lambda>v. Returns (setter v s)))"

subsection \<open>Logging\<close>

definition decode_formatter :: "yaml \<Rightarrow> formatter outcome" where
  "decode_formatter y = out_bind (yaml_read as_text y ''pattern'' []) (\<lambda>p. Returns \<lparr>fmt_pattern = p\<rparr>)"

text \<open>The kind of a sink is not optional: converting an absent node throws.\<close>

definition decode_sink :: "yaml \<Rightarrow> sink outcome" where
  "decode_sink y =
     out_bind (yaml_read as_text y ''path'' (sink_path default_sink)) (\<lambda>p.
     out_bind (yaml_get y ''type'') (\<lambda>n.
     out_bind (case n of Some n \<Rightarrow> as_text n | None \<Rightarrow> Throws Std_exception) (\<lambda>t.
     out_bind (sink_type_from t) (\<lambda>kind.
     out_bind (yaml_read as_text y ''level'' (sink_level default_sink)) (\<lambda>level.
     Returns (default_sink\<lparr>sink_path := p, sink_kind := kind, sink_level := level\<rparr>))))))"

definition decode_logger :: "yaml \<Rightarrow> log_logger outcome" where
  "decode_logger y =
     out_bind (yaml_read as_text y ''filter'' (logger_filter default_logger)) (\<lambda>f.
     out_bind (yaml_read as_text y ''level'' (logger_level default_logger)) (\<lambda>level.
     Returns (default_logger\<lparr>logger_filter := f, logger_level := level\<rparr>)))"

text \<open>The pairs of an absent node are none.\<close>

definition yaml_pairs :: "yaml \<Rightarrow> string \<Rightarrow> (string \<times> yaml) list outcome" where
  "yaml_pairs y key =
     out_bind (yaml_get y key) (\<lambda>n. case n of Some (Entries es) \<Rightarrow> Returns es | _ \<Rightarrow> Returns [])"

definition link_formatter :: "string \<times> yaml \<Rightarrow> logging \<Rightarrow> logging outcome" where
  "link_formatter pair l =
     out_bind (yaml_get (snd pair) ''formatter'') (\<lambda>n. case n of
        None \<Rightarrow> Returns l
      | Some n \<Rightarrow>
          out_bind (as_text n) (\<lambda>formatter_name.
          case (map_of (log_formatters l) formatter_name, map_of (log_sinks l) (fst pair)) of
            (Some _, Some s) \<Rightarrow>
              Returns (l\<lparr>log_sinks := omap_put (fst pair) (s\<lparr>sink_formatter := To formatter_name\<rparr>) (log_sinks l)\<rparr>)
          | _ \<Rightarrow> Returns l))"

definition link_sink :: "string \<Rightarrow> string \<Rightarrow> logging \<Rightarrow> logging" where
  "link_sink logger_name s l =
     (case (map_of (log_sinks l) s, map_of (log_loggers l) logger_name) of
        (Some _, Some g) \<Rightarrow>
          l\<lparr>log_loggers := omap_put logger_name (g\<lparr>logger_sinks := oset_insert id s (logger_sinks g)\<rparr>) (log_loggers l)\<rparr>
      | _ \<Rightarrow> l)"

definition link_sinks :: "string \<times> yaml \<Rightarrow> logging \<Rightarrow> logging outcome" where
  "link_sinks pair l =
     out_bind (yaml_get (snd pair) ''sinks'') (\<lambda>n. case n of
        None \<Rightarrow> Returns l
      | Some n \<Rightarrow> out_bind (as_set as_text n) (\<lambda>names. Returns (fold (link_sink (fst pair)) names l)))"

definition decode_logging :: "yaml \<Rightarrow> logging outcome" where
  "decode_logging y =
     out_bind (yaml_read (as_map decode_formatter) y ''formatters'' []) (\<lambda>formatters.
     out_bind (yaml_read (as_map decode_sink) y ''sinks'' []) (\<lambda>sinks.
     out_bind (yaml_pairs y ''sinks'') (\<lambda>pairs.
     out_bind (out_each link_formatter pairs (default_logging\<lparr>log_formatters := formatters, log_sinks := sinks\<rparr>)) (\<lambda>l.
     out_bind (yaml_read (as_map decode_logger) y ''loggers'' []) (\<lambda>loggers.
     out_bind (yaml_pairs y ''loggers'') (\<lambda>pairs.
     out_bind (out_each link_sinks pairs (l\<lparr>log_loggers := loggers\<rparr>)) (\<lambda>l.
     out_bind (yaml_read as_text y ''level'' (log_level l)) (\<lambda>level.
     Returns (l\<lparr>log_level := level\<rparr>)))))))))"

subsection \<open>The context\<close>

definition read_context :: "yaml_conversions \<Rightarrow> yaml \<Rightarrow> peer_context \<Rightarrow> peer_context outcome" where
  "read_context Y y ctx =
     out_bind (yaml_read as_text y ''data-directory'' (ctx_data_directory ctx)) (\<lambda>data.
     out_bind (yaml_read as_text y ''meta-directory'' (ctx_meta_directory ctx)) (\<lambda>meta.
     out_bind (yaml_read as_text y ''bind-addr'' (ctx_bind_addr ctx)) (\<lambda>bind_addr.
     out_bind (yaml_read_default as_text y ''advertise-addr'' bind_addr) (\<lambda>advertise.
     out_bind (yaml_read as_text y ''join-addr'' (ctx_join_addr ctx)) (\<lambda>join.
     out_bind (yaml_read (as_scalar (yaml_bool Y)) y ''bootstrap'' (ctx_bootstrap ctx)) (\<lambda>bootstrap.
     out_bind (yaml_read (as_scalar (yaml_bool Y)) y ''upnp'' (ctx_upnp ctx)) (\<lambda>upnp.
     out_bind (yaml_read (as_scalar (yaml_bool Y)) y ''no-controller'' (ctx_no_controller ctx)) (\<lambda>no_controller.
     out_bind (yaml_read (as_scalar (yaml_bool Y)) y ''monitor'' (ctx_monitor ctx)) (\<lambda>watch.
     out_bind (yaml_read (as_scalar (yaml_bool Y)) y ''register_shutdown_handler'' (ctx_register_shutdown_handler ctx))
       (\<lambda>handler.
     out_bind (yaml_read (as_scalar (yaml_nat Y)) y ''stabilize-ms'' (ctx_stabilize_period_ms ctx)) (\<lambda>stabilize.
     out_bind (yaml_read (as_scalar (yaml_nat Y)) y ''check-ms'' (ctx_check_period_ms ctx)) (\<lambda>check.
     out_bind (yaml_read (as_scalar (map_option word_of_int \<circ> yaml_int Y)) y ''replication-count''
       (ctx_replication_cnt ctx)) (\<lambda>cnt.
     out_bind (yaml_set (as_scalar (yaml_uuid Y)) y ''uuid'' (\<lambda>v _. v) (ctx_uuid ctx)) (\<lambda>u.
     out_bind (yaml_read decode_logging y ''logging'' (ctx_logging ctx)) (\<lambda>logging.
     Returns (ctx\<lparr>ctx_data_directory := data, ctx_meta_directory := meta, ctx_bind_addr := bind_addr,
       ctx_advertise_addr := advertise, ctx_join_addr := join, ctx_bootstrap := bootstrap,
       ctx_upnp := upnp, ctx_no_controller := no_controller, ctx_monitor := watch,
       ctx_register_shutdown_handler := handler, ctx_stabilize_period_ms := stabilize,
       ctx_check_period_ms := check, ctx_replication_cnt := cnt, ctx_uuid := u, ctx_logging := logging\<rparr>))))))))))))))))"

definition parse_v1 :: "yaml_conversions \<Rightarrow> yaml \<Rightarrow> peer_context \<Rightarrow> peer_context outcome" where
  "parse_v1 Y y ctx =
     out_bind (read_context Y y ctx) (\<lambda>ctx.
     case validate ctx of Inl _ \<Rightarrow> Throws Chord_exception | Inr _ \<Rightarrow> Returns ctx)"

definition parse_config :: "yaml_conversions \<Rightarrow> yaml \<Rightarrow> peer_context \<Rightarrow> peer_context outcome" where
  "parse_config Y y ctx =
     out_bind (yaml_get y ''version'') (\<lambda>n.
     out_bind (case n of Some n \<Rightarrow> as_scalar (yaml_int Y) n | None \<Rightarrow> Throws Std_exception) (\<lambda>version.
     if version = 1 then parse_v1 Y y ctx else Throws Chord_exception))"

text \<open>\<open>ContextManager::load\<close>, with the random identifier of the new context as an argument; a
  document the library cannot read is \<open>None\<close>.\<close>

definition load_config :: "yaml_conversions \<Rightarrow> yaml option \<Rightarrow> uuid \<Rightarrow> peer_context outcome" where
  "load_config Y document u =
     (case document of None \<Rightarrow> Throws Std_exception | Some y \<Rightarrow> parse_config Y y (default_context u))"

subsection \<open>What is read\<close>

definition or_else :: "'a option \<Rightarrow> 'a \<Rightarrow> 'a" where
  "or_else x y = (case x of Some v \<Rightarrow> v | None \<Rightarrow> y)"

text \<open>The scalar under a key.\<close>

definition yaml_text :: "yaml \<Rightarrow> string \<Rightarrow> string option" where
  "yaml_text y key =
     (case yaml_get y key of Returns (Some (Scalar t)) \<Rightarrow> Some t | _ \<Rightarrow> None)"

lemma yaml_read_text: "yaml_read as_text y k t = Returns v \<Longrightarrow> v = or_else (yaml_text y k) t"
  by (cases "yaml_get y k"; cases "case yaml_get y k of Returns (Some n) \<Rightarrow> n | _ \<Rightarrow> Sequence []")
    (auto simp: yaml_read_def yaml_text_def or_else_def split: option.splits)

lemma read_context_addresses:
  assumes "read_context Y y ctx = Returns ctx'"
  shows "ctx_bind_addr ctx' = or_else (yaml_text y ''bind-addr'') (ctx_bind_addr ctx)"
    "ctx_advertise_addr ctx' = or_else (yaml_text y ''advertise-addr'') (ctx_bind_addr ctx')"
    "ctx_join_addr ctx' = or_else (yaml_text y ''join-addr'') (ctx_join_addr ctx)"
  using assms
  by (cases ctx; auto simp only: read_context_def out_bind_Returns yaml_read_default_def
      outcome.inject peer_context.simps dest!: yaml_read_text)+

subsection \<open>Where the pointers lead\<close>

lemma out_each_keeps:
  assumes "\<And>x s s'. I s \<Longrightarrow> f x s = Returns s' \<Longrightarrow> I s'"
  shows "I s \<Longrightarrow> out_each f xs s = Returns s' \<Longrightarrow> I s'"
  by (induction xs arbitrary: s) (auto simp: out_bind_Returns intro: assms)

lemma as_map_values:
  assumes P: "\<And>n v. conv n = Returns v \<Longrightarrow> P v" and y: "as_map conv y = Returns m"
  shows "\<forall>v\<in>ran (map_of m). P v"
proof -
  let ?f = "\<lambda>(k, n) m. out_bind (conv n) (\<lambda>v. Returns (omap_put k v m))"
  have keep: "\<forall>v\<in>ran (map_of m'). P v" if m: "\<forall>v\<in>ran (map_of m). P v" and step: "?f x m = Returns m'" for x m m'
  proof -
    obtain k n v where x: "x = (k, n)" "conv n = Returns v" "m' = omap_put k v m"
      using step by (cases x) (auto simp: out_bind_Returns)
    then show ?thesis using m P [OF x(2)] by (auto simp: omap_put_lookup ran_def split: if_splits)
  qed
  have start: "\<forall>v\<in>ran (map_of []). P v" by simp
  obtain es where "y = Entries es" using y by (cases y) simp_all
  then have steps: "out_each ?f es [] = Returns m" using y by simp
  show ?thesis by (rule out_each_keeps [where I = "\<lambda>m. \<forall>v\<in>ran (map_of m). P v", OF keep start steps])
qed

lemma yaml_map_values:
  assumes "\<And>n v. conv n = Returns v \<Longrightarrow> P v" "yaml_read (as_map conv) y key [] = Returns m"
  shows "\<forall>v\<in>ran (map_of m). P v"
proof -
  from assms(2) consider "m = []" | n where "as_map conv n = Returns m"
    by (auto simp: yaml_read_def out_bind_Returns split: option.splits)
  then show ?thesis using as_map_values [OF assms(1)] by cases (simp_all add: ran_def)
qed

lemma decoded_plain:
  "decode_sink y = Returns s \<Longrightarrow> sink_formatter s = Uninitialised" "decode_logger y = Returns g \<Longrightarrow> logger_sinks g = []"
  by (auto simp: decode_sink_def decode_logger_def default_sink_def default_logger_def out_bind_Returns)

text \<open>Every formatter a sink was given a pointer to and every sink a logger points to is there.\<close>

definition pointers_ok :: "logging \<Rightarrow> bool" where
  "pointers_ok l =
     ((\<forall>k s f. map_of (log_sinks l) k = Some s \<longrightarrow> sink_formatter s = To f \<longrightarrow> map_of (log_formatters l) f \<noteq> None) \<and>
      (\<forall>k g s. map_of (log_loggers l) k = Some g \<longrightarrow> s \<in> set (logger_sinks g) \<longrightarrow> map_of (log_sinks l) s \<noteq> None))"

lemma link_formatter_ok:
  "pointers_ok l \<Longrightarrow> link_formatter pair l = Returns l' \<Longrightarrow> pointers_ok l'"
  by (auto simp: link_formatter_def out_bind_Returns pointers_ok_def omap_put_lookup
      split: option.splits if_splits)

lemma link_sink_ok: "pointers_ok l \<Longrightarrow> pointers_ok (link_sink logger_name s l)"
  by (auto simp: link_sink_def pointers_ok_def omap_put_lookup dest: set_mp [OF oset_insert_set] split: option.splits if_splits)

lemma link_sinks_ok: "pointers_ok l \<Longrightarrow> link_sinks pair l = Returns l' \<Longrightarrow> pointers_ok l'"
proof -
  have "pointers_ok l \<Longrightarrow> pointers_ok (fold (link_sink k) names l)" for k names
    by (induction names arbitrary: l) (simp_all add: link_sink_ok)
  then show "pointers_ok l \<Longrightarrow> link_sinks pair l = Returns l' \<Longrightarrow> pointers_ok l'"
    by (auto simp: link_sinks_def out_bind_Returns split: option.splits)
qed

lemma decode_logging_pointers:
  assumes "decode_logging y = Returns l"
  shows "pointers_ok l"
proof -
  obtain fs ss ps l1 gs qs l2 level where
    ss: "yaml_read (as_map decode_sink) y ''sinks'' [] = Returns ss"
    and l1: "out_each link_formatter ps (default_logging\<lparr>log_formatters := fs, log_sinks := ss\<rparr>) = Returns l1"
    and gs: "yaml_read (as_map decode_logger) y ''loggers'' [] = Returns gs"
    and l2: "out_each link_sinks qs (l1\<lparr>log_loggers := gs\<rparr>) = Returns l2"
    and l: "l = l2\<lparr>log_level := level\<rparr>"
    using assms by (auto simp: decode_logging_def out_bind_Returns)
  have "\<forall>s\<in>ran (map_of ss). sink_formatter s = Uninitialised"
    by (rule yaml_map_values [OF _ ss]) (rule decoded_plain)
  then have "pointers_ok (default_logging\<lparr>log_formatters := fs, log_sinks := ss\<rparr>)"
    by (auto simp: pointers_ok_def default_logging_def ran_def)
  then have l1_ok: "pointers_ok l1" using l1 by (rule out_each_keeps [rotated]) (rule link_formatter_ok)
  have "\<forall>g\<in>ran (map_of gs). logger_sinks g = []"
    by (rule yaml_map_values [OF _ gs]) (rule decoded_plain)
  then have "pointers_ok (l1\<lparr>log_loggers := gs\<rparr>)" using l1_ok by (auto simp: pointers_ok_def ran_def)
  then have "pointers_ok l2" using l2 by (rule out_each_keeps [rotated]) (rule link_sinks_ok)
  then show ?thesis using l by (simp add: pointers_ok_def)
qed

lemma read_context_logging:
  assumes "read_context Y y ctx = Returns ctx'" "pointers_ok (ctx_logging ctx)"
  shows "pointers_ok (ctx_logging ctx')"
proof -
  have "yaml_read decode_logging y ''logging'' (ctx_logging ctx) = Returns (ctx_logging ctx')"
    using assms(1) by (cases ctx)
      (auto simp only: read_context_def out_bind_Returns yaml_read_default_def outcome.inject peer_context.simps)
  then consider "ctx_logging ctx' = ctx_logging ctx" | n where "decode_logging n = Returns (ctx_logging ctx')"
    by (auto simp: yaml_read_def out_bind_Returns split: option.splits)
  then show ?thesis using assms(2) decode_logging_pointers by cases auto
qed

lemma load_config_reads:
  assumes "load_config Y document u = Returns ctx"
  shows "\<exists>y. document = Some y \<and> read_context Y y (default_context u) = Returns ctx \<and>
    ctx_bind_addr ctx \<noteq> ctx_join_addr ctx"
  using assms
  by (auto simp: load_config_def parse_config_def parse_v1_def out_bind_Returns validate_def
      split: option.splits if_splits)

lemma load_config_pointers:
  assumes "load_config Y document u = Returns ctx"
  shows "pointers_ok (ctx_logging ctx)"
proof -
  obtain y where "read_context Y y (default_context u) = Returns ctx"
    using load_config_reads [OF assms] by blast
  then show ?thesis
    by (rule read_context_logging) (simp add: default_context_def default_logging_def pointers_ok_def)
qed

end
