(* ===== verification/Controller.thy ===== *)
theory Controller
  imports Fs_Facade
begin

text \<open>
  The commands a user sends to a process (\<open>src/chord.controller.service.cc\<close>,
  \<open>src/chord.controller.client.cc\<close>): a line is split at its spaces, and the first token selects
  the operation of the facade.  What Boost's option parser makes of the tokens is the
  parameter \<open>P\<close>: it gets the flags that are declared, and either throws or returns the
  positional tokens with the flags it saw.  A handler returns the status with the text of the
  response; an exception is the gRPC server's to answer.
\<close>

fun split_spaces :: "string \<Rightarrow> string list" where
  "split_spaces [] = [[]]"
| "split_spaces (c # cs) =
     (if c = CHR '' '' then [] # split_spaces cs
      else (case split_spaces cs of [] \<Rightarrow> [[c]] | s # ss \<Rightarrow> (c # s) # ss))"

definition tokens_of :: "string \<Rightarrow> string list" where
  "tokens_of s = filter (\<lambda>t. t \<noteq> []) (split_spaces s)"

datatype declared_flags = Del_flags | Mov_flags | Repl_flags

record command_options =
  input :: "string list"
  recursive :: bool
  force :: bool
  repl :: "32 word option"

type_synonym option_parser = "declared_flags \<Rightarrow> string list \<Rightarrow> command_options outcome"

type_synonym control_run = "(status_code \<times> string) fs_run"

definition invalid_arguments :: control_run where
  "invalid_arguments = ret (INVALID_ARGUMENT, ''invalid arguments.'')"

fun del_targets :: "fs_env \<Rightarrow> endpoint \<Rightarrow> bool \<Rightarrow> string list \<Rightarrow> status_code fs_run" where
  "del_targets E me rec [] = ret OK"
| "del_targets E me rec (t # ts) =
     bnd (parse_uri t) (\<lambda>u.
     bnd (fs_facade_del E me u rec) (\<lambda>st.
     if st \<noteq> OK then ret st else del_targets E me rec ts))"

definition handle_del :: "option_parser \<Rightarrow> fs_env \<Rightarrow> endpoint \<Rightarrow> string list \<Rightarrow> control_run" where
  "handle_del P E me token =
     bnd (reads (\<lambda>_. P Del_flags token)) (\<lambda>vm.
     if length (input vm) < 2 then ret (CANCELLED, ''invalid arguments.'')
     else bnd (del_targets E me (recursive vm) (tl (input vm))) (\<lambda>st. ret (st, [])))"

fun mov_sources :: "fs_env \<Rightarrow> endpoint \<Rightarrow> bool \<Rightarrow> string \<Rightarrow> string list \<Rightarrow> status_code fs_run" where
  "mov_sources E me f target [] = ret OK"
| "mov_sources E me f target (s # ss) =
     bnd (parse_uri s) (\<lambda>src.
     bnd (parse_uri target) (\<lambda>dst.
     bnd (fs_facade_move E me src dst f) (\<lambda>st.
     if st \<noteq> OK then ret st else mov_sources E me f target ss)))"

definition handle_mov :: "option_parser \<Rightarrow> fs_env \<Rightarrow> endpoint \<Rightarrow> string list \<Rightarrow> control_run" where
  "handle_mov P E me token =
     bnd (reads (\<lambda>_. P Mov_flags token)) (\<lambda>vm.
     if length (input vm) < 3 then invalid_arguments
     else bnd (mov_sources E me (force vm) (last (input vm)) (tl (butlast (input vm)))) (\<lambda>st. ret (st, [])))"

definition repl_of :: "peer_context \<Rightarrow> command_options \<Rightarrow> replication" where
  "repl_of ctx vm = replication_of_count (case repl vm of Some n \<Rightarrow> n | None \<Rightarrow> ctx_replication_cnt ctx)"

definition handle_mkdir :: "option_parser \<Rightarrow> fs_env \<Rightarrow> endpoint \<Rightarrow> string list \<Rightarrow> control_run" where
  "handle_mkdir P E me token =
     bnd (reads (\<lambda>_. P Repl_flags token)) (\<lambda>vm.
     if length (input vm) < 2 then invalid_arguments
     else
       bnd (parse_uri (last (input vm))) (\<lambda>target.
       bnd (gets (\<lambda>s. repl_of (my_ctx me s) vm)) (\<lambda>r.
       bnd (fs_facade_mkdir E me target r) (\<lambda>st. ret (st, [])))))"

fun put_sources ::
  "regex_minus \<Rightarrow> fs_env \<Rightarrow> endpoint \<Rightarrow> replication \<Rightarrow> string \<Rightarrow> string list \<Rightarrow> status_code fs_run" where
  "put_sources R E me r target [] = ret OK"
| "put_sources R E me r target (s # ss) =
     bnd (parse_uri target) (\<lambda>dst.
     bnd (fs_facade_put R E me s dst r) (\<lambda>st.
     if st \<noteq> OK then ret st else put_sources R E me r target ss))"

definition handle_put ::
  "regex_minus \<Rightarrow> option_parser \<Rightarrow> fs_env \<Rightarrow> endpoint \<Rightarrow> string list \<Rightarrow> control_run" where
  "handle_put R P E me token =
     bnd (reads (\<lambda>_. P Repl_flags token)) (\<lambda>vm.
     if length (input vm) < 3 then invalid_arguments
     else
       bnd (gets (\<lambda>s. repl_of (my_ctx me s) vm)) (\<lambda>r.
       bnd (put_sources R E me r (last (input vm)) (tl (butlast (input vm)))) (\<lambda>st. ret (st, []))))"

fun get_sources :: "regex_minus \<Rightarrow> fs_env \<Rightarrow> endpoint \<Rightarrow> path \<Rightarrow> string list \<Rightarrow> status_code fs_run" where
  "get_sources R E me target [] = ret OK"
| "get_sources R E me target (s # ss) =
     bnd (parse_uri s) (\<lambda>src.
     bnd (fs_facade_get R E me src target) (\<lambda>st.
     if st \<noteq> OK then ret st else get_sources R E me target ss))"

definition handle_get :: "regex_minus \<Rightarrow> fs_env \<Rightarrow> endpoint \<Rightarrow> string list \<Rightarrow> control_run" where
  "handle_get R E me token =
     (if length token < 3 then invalid_arguments
      else bnd (get_sources R E me (last token) (tl (butlast token))) (\<lambda>st. ret (st, [])))"

definition handle_dir :: "fs_env \<Rightarrow> endpoint \<Rightarrow> string list \<Rightarrow> control_run" where
  "handle_dir E me token =
     (if length token \<noteq> 2 then invalid_arguments
      else bnd (parse_uri (token ! 1)) (\<lambda>u. fs_facade_dir_text E me u))"

definition parse_command ::
  "regex_minus \<Rightarrow> option_parser \<Rightarrow> fs_env \<Rightarrow> endpoint \<Rightarrow> string \<Rightarrow> control_run" where
  "parse_command R P E me command =
     (case tokens_of command of
        [] \<Rightarrow> ret (INVALID_ARGUMENT, ''no commands received.'')
      | cmd # args \<Rightarrow>
          let token = cmd # args in
          if cmd = ''put'' then handle_put R P E me token
          else if cmd = ''mkdir'' then handle_mkdir P E me token
          else if cmd = ''get'' then handle_get R E me token
          else if cmd = ''dir'' \<or> cmd = ''ls'' \<or> cmd = ''ll'' then handle_dir E me token
          else if cmd = ''del'' \<or> cmd = ''rm'' then handle_del P E me token
          else if cmd = ''mov'' \<or> cmd = ''mv'' then handle_mov P E me token
          else ret (INVALID_ARGUMENT, ''unknown error.''))"

text \<open>The client sends a line and prints the response of a call that succeeded; \<open>call\<close> is the stub
  of the process at the address.\<close>

definition client_control ::
  "(endpoint \<Rightarrow> string \<Rightarrow> control_run) \<Rightarrow> endpoint \<Rightarrow> string \<Rightarrow> (status_code \<times> string option) fs_run" where
  "client_control call addr command =
     bnd (call addr command) (\<lambda>(st, text). ret (st, if st = OK then Some text else None))"

subsection \<open>Lines and tokens\<close>

lemma split_spaces_step: "CHR '' '' \<notin> set s \<Longrightarrow> split_spaces (s @ CHR '' '' # t) = s # split_spaces t"
  by (induction s) auto

lemma tokens_of_line:
  "\<forall>c\<in>set cs. c \<noteq> [] \<and> CHR '' '' \<notin> set c \<Longrightarrow> tokens_of (concat (map (\<lambda>c. c @ '' '') cs)) = cs"
  by (induction cs) (simp_all add: tokens_of_def split_spaces_step)

end
