(* ===== verification/Program.thy ===== *)
theory Program
  imports Config Controller
begin

text \<open>
  From the command line to the configuration of a peer: the program options (\<open>parse_program_options\<close> in
  \<open>src/chord.utils.cc\<close>) and \<open>main\<close> of \<open>src/node/node.cc\<close>.
  Splitting the command line is a library's: a command line is the record of the options it
  sets.
\<close>

subsection \<open>Program options\<close>

record command_line =
  cl_help :: bool
  cl_config :: "path option"
  cl_join :: "endpoint option"
  cl_bootstrap :: bool
  cl_monitor :: "bool option"
  cl_no_controller :: bool
  cl_uuid :: "uuid option"
  cl_advertise :: "endpoint option"
  cl_bind :: "endpoint option"
  cl_address :: "endpoint option"
  cl_rest :: "string list"

record program_options =
  po_context :: peer_context
  po_address :: endpoint
  po_commands :: "string list"

datatype 'a program = Exits nat | Fails exn | Goes_on 'a

text \<open>What \<open>po::notify\<close> stores.\<close>

definition notified :: "command_line \<Rightarrow> peer_context \<Rightarrow> peer_context" where
  "notified cl ctx =
     ctx\<lparr>ctx_join_addr := or_else (cl_join cl) (ctx_join_addr ctx),
       ctx_monitor := or_else (cl_monitor cl) (ctx_monitor ctx),
       ctx_advertise_addr := or_else (cl_advertise cl) (ctx_advertise_addr ctx),
       ctx_bind_addr := or_else (cl_bind cl) (ctx_bind_addr ctx)\<rparr>"

definition parse_program_options ::
  "(path \<Rightarrow> peer_context outcome) \<Rightarrow> uuid \<Rightarrow> command_line \<Rightarrow> program_options program" where
  "parse_program_options load u cl =
     (let fresh = default_context u; address = or_else (cl_address cl) (ctx_bind_addr fresh) in
      if cl_help cl then Exits 0
      else
        (case (case cl_config cl of None \<Rightarrow> Returns (notified cl fresh) | Some p \<Rightarrow> load p) of
           Throws e \<Rightarrow> Fails e
         | Undefined \<Rightarrow> Fails Std_exception
         | Returns ctx \<Rightarrow>
             if cl_rest cl \<noteq> []
             then Goes_on \<lparr>po_context = ctx, po_address = address, po_commands = cl_rest cl\<rparr>
             else if (cl_config cl = None \<and> cl_join cl = None \<and> \<not> cl_bootstrap cl) \<or>
                     (cl_join cl \<noteq> None \<and> cl_bootstrap cl)
             then Exits 2
             else
               let ctx = ctx\<lparr>ctx_uuid := or_else (cl_uuid cl) (ctx_uuid ctx)\<rparr>;
                   ctx = (if cl_bootstrap cl then ctx\<lparr>ctx_bootstrap := True\<rparr> else ctx);
                   ctx = (if cl_no_controller cl then ctx\<lparr>ctx_no_controller := True\<rparr> else ctx)
               in Goes_on \<lparr>po_context = ctx, po_address = address, po_commands = []\<rparr>))"

subsection \<open>main\<close>

definition supported_commands :: "string list" where
  "supported_commands = [''put'', ''get'', ''dir'', ''ls'', ''ll'', ''del'', ''rm'', ''mkdir'']"

definition command_text :: "string list \<Rightarrow> string" where
  "command_text cs = concat (map (\<lambda>c. c @ '' '') cs)"

text \<open>\<open>Goes_on\<close> is the configuration the peer starts with.\<close>

definition node_main ::
  "(endpoint \<Rightarrow> string \<Rightarrow> control_run) \<Rightarrow> program_options \<Rightarrow> peer_context program fs_run" where
  "node_main call opts =
     (case po_commands opts of
        [] \<Rightarrow> ret (Goes_on (po_context opts))
      | cmd # args \<Rightarrow>
          if cmd \<in> set supported_commands then
            bnd (client_control call (po_address opts) (command_text (po_commands opts))) (\<lambda>(st, _).
            ret (if st = OK then Exits 0 else Fails (Grpc_exception st)))
          else ret (Exits 0))"

subsection \<open>The arguments of the file system program\<close>

text \<open>\<open>fuse/chord.fuse.cc\<close> splits its arguments at the first \<open>--\<close>; \<open>None\<close> stands for the negative
  count both functions return when there is none.  The program name goes to both sides.\<close>

definition find_delimiter :: "string list \<Rightarrow> nat" where
  "find_delimiter args = length (takeWhile (\<lambda>a. a \<noteq> ''--'') args)"

definition chord_arguments :: "string list \<Rightarrow> string list option" where
  "chord_arguments args =
     (let p = find_delimiter args in
      if p = length args then None else Some (hd args # drop (Suc p) args))"

definition fuse_arguments :: "string list \<Rightarrow> string list option" where
  "fuse_arguments args = (let p = find_delimiter args in if p = length args then None else Some (take p args))"

lemma arguments_split:
  assumes "''--'' \<notin> set (prog # fs)"
  shows "fuse_arguments (prog # fs @ ''--'' # cs) = Some (prog # fs)"
    "chord_arguments (prog # fs @ ''--'' # cs) = Some (prog # cs)"
proof -
  have "takeWhile (\<lambda>a. a \<noteq> ''--'') ((prog # fs) @ ''--'' # cs) = (prog # fs) @ takeWhile (\<lambda>a. a \<noteq> ''--'') (''--'' # cs)"
    using assms by (intro takeWhile_append2) metis
  then have "find_delimiter (prog # fs @ ''--'' # cs) = Suc (length fs)" by (simp add: find_delimiter_def)
  then show "fuse_arguments (prog # fs @ ''--'' # cs) = Some (prog # fs)"
    "chord_arguments (prog # fs @ ''--'' # cs) = Some (prog # cs)"
    by (simp_all add: fuse_arguments_def chord_arguments_def)
qed

subsection \<open>Merging maps\<close>

text \<open>\<open>utils::merge\<close> with maps as sorted lists: the resolved value is overwritten at once.\<close>

definition merge_first ::
  "('v \<Rightarrow> 'v \<Rightarrow> 'v) \<Rightarrow> ('k::linorder \<times> 'v) list \<Rightarrow> 'k \<times> 'v \<Rightarrow> ('k \<times> 'v) list \<Rightarrow> ('k \<times> 'v) list" where
  "merge_first resolver b kv m =
     (let m = (case map_of b (fst kv) of Some w \<Rightarrow> omap_put (fst kv) (resolver (snd kv) w) m | None \<Rightarrow> m)
      in omap_put (fst kv) (snd kv) m)"

definition merge_second :: "'k::linorder \<times> 'v \<Rightarrow> ('k \<times> 'v) list \<Rightarrow> ('k \<times> 'v) list" where
  "merge_second kv m = (if map_of m (fst kv) = None then omap_put (fst kv) (snd kv) m else m)"

definition merge ::
  "('v \<Rightarrow> 'v \<Rightarrow> 'v) \<Rightarrow> ('k::linorder \<times> 'v) list \<Rightarrow> ('k \<times> 'v) list \<Rightarrow> ('k \<times> 'v) list" where
  "merge resolver a b = fold merge_second b (fold (merge_first resolver b) a [])"

subsection \<open>What reaches the peer\<close>

lemma options_with_config:
  assumes "parse_program_options load u cl = Goes_on opts" "cl_config cl = Some p"
  shows "\<exists>ctx. load p = Returns ctx \<and>
    ctx_join_addr (po_context opts) = ctx_join_addr ctx \<and>
    ctx_advertise_addr (po_context opts) = ctx_advertise_addr ctx \<and>
    ctx_bind_addr (po_context opts) = ctx_bind_addr ctx \<and> ctx_monitor (po_context opts) = ctx_monitor ctx"
  using assms by (auto simp: parse_program_options_def Let_def split: outcome.splits if_splits)

text \<open>A configuration file with a bind address, and a command line that names the file and more.\<close>

definition no_conversions :: yaml_conversions where
  "no_conversions = \<lparr>yaml_bool = (\<lambda>_. None), yaml_nat = (\<lambda>_. None), yaml_int = (\<lambda>_. Some 1), yaml_uuid = (\<lambda>_. None)\<rparr>"

definition example_document :: "path \<Rightarrow> yaml option" where
  "example_document p = Some (Entries [(''version'', Scalar ''1''), (''bind-addr'', Scalar ''ipv4:10.0.0.1:5001'')])"

definition example_line :: command_line where
  "example_line =
     \<lparr>cl_help = False, cl_config = Some ''c.yml'', cl_join = Some ''b:1'', cl_bootstrap = False,
      cl_monitor = None, cl_no_controller = False, cl_uuid = None, cl_advertise = Some ''a:1'',
      cl_bind = None, cl_address = None, cl_rest = []\<rparr>"

lemma example_line_starts:
  "\<exists>opts. parse_program_options (\<lambda>p. load_config no_conversions (example_document p) 7) 7 example_line = Goes_on opts"
proof -
  have "\<not> path_eq ''./metadata'' ''./data''" by code_simp
  then have "case load_config no_conversions (example_document ''c.yml'') 7 of Returns _ \<Rightarrow> True | _ \<Rightarrow> False"
    by (simp add: load_config_def parse_config_def parse_v1_def read_context_def yaml_read_default_def
        yaml_read_def yaml_set_def example_document_def no_conversions_def default_context_def validate_def)
  then show ?thesis
    by (auto simp: parse_program_options_def example_line_def Let_def split: outcome.splits)
qed

text \<open>A configuration file with a sink and two loggers, one of which names a sink that is not there\<close>

definition logging_document :: yaml where
  "logging_document =
     Entries [(''version'', Scalar ''1''),
       (''logging'', Entries
         [(''formatters'', Entries [(''FMT'', Entries [(''pattern'', Scalar ''%v'')])]),
          (''sinks'', Entries
            [(''CONS'', Entries [(''type'', Scalar ''console''), (''formatter'', Scalar ''FMT'')]),
             (''PLAIN'', Entries [(''type'', Scalar ''console'')])]),
          (''loggers'', Entries
            [(''MYLOG'', Entries [(''sinks'', Sequence [Scalar ''CONS'', Scalar ''PLAIN'', Scalar ''ABSENT''])])])])]"

lemma logging_document_loads:
  "\<exists>ctx g. load_config no_conversions (Some logging_document) 7 = Returns ctx \<and>
    map_of (log_loggers (ctx_logging ctx)) ''MYLOG'' = Some g \<and> logger_sinks g = [''CONS'', ''PLAIN''] \<and>
    map_of (log_sinks (ctx_logging ctx)) ''CONS'' = Some (default_sink\<lparr>sink_formatter := To ''FMT''\<rparr>) \<and>
    map_of (log_sinks (ctx_logging ctx)) ''PLAIN'' = Some default_sink"
proof -
  have "\<not> path_eq ''./metadata'' ''./data''" by code_simp
  then show ?thesis
    by (simp add: load_config_def parse_config_def parse_v1_def read_context_def yaml_read_default_def
        yaml_read_def yaml_set_def logging_document_def no_conversions_def default_context_def validate_def
        decode_logging_def decode_sink_def decode_logger_def yaml_pairs_def link_formatter_def link_sinks_def
        link_sink_def decode_formatter_def default_logging_def default_sink_def default_logger_def sink_type_from_def sink_types_def)
qed

lemma merge_first_lookup: "map_of (merge_first f b kv m) = (map_of m)(fst kv \<mapsto> snd kv)"
  by (auto simp: merge_first_def omap_put_lookup Let_def fun_eq_iff split: option.split)

lemma merge_second_lookup:
  "map_of (merge_second kv m) k = (if k = fst kv \<and> map_of m k = None then Some (snd kv) else map_of m k)"
  by (auto simp: merge_second_def omap_put_lookup)

lemma merge_lookup: "map_of (merge f a b) k =
    (case map_of (rev a) k of Some v \<Rightarrow> Some v | None \<Rightarrow> map_of b k)"
proof -
  have first: "map_of (fold (merge_first f b) a m) = map_of m ++ map_of (rev a)" for m
    by (induction a arbitrary: m) (auto simp: merge_first_lookup map_add_def fun_eq_iff split: option.split)
  have second: "map_of (fold merge_second c m) k = (case map_of m k of Some v \<Rightarrow> Some v | None \<Rightarrow> map_of c k)" for c m
    by (induction c arbitrary: m) (auto simp: merge_second_lookup split: option.split)
  show ?thesis by (simp add: merge_def second first map_add_def split: option.split)
qed

end
