(* ===== verification/Upnp.thy ===== *)
theory Upnp
  imports Metadata_Builder Chord_Facade
begin

text \<open>
  Forwarding a port (\<open>src/chord.upnp.cc\<close>).  The library miniupnpc is the parameter \<open>upnp_library\<close>: the
  head of the list of devices, which is null when none answered, with the result of discovering
  them; the gateway found among them, if any; and the result of adding a mapping for a port.  As
  the library documents, the urls are only set when there is a gateway.
\<close>

record upnp_device =
  device_st :: string
  device_url :: string

record gateway =
  gateway_control :: string
  gateway_service :: string
  gateway_lanaddr :: string

record upnp_library =
  upnp_discover :: "upnp_device option \<times> int"
  upnp_gateway :: "upnp_device option \<Rightarrow> gateway option"
  upnp_add :: "gateway \<Rightarrow> string \<Rightarrow> int"

text \<open>The result is the mapping that was added, if one was.  Two things are undefined: reading the
  head of a list that is empty, and freeing urls that were never set.\<close>

definition setup_upnp_port_forwarding :: "upnp_library \<Rightarrow> peer_context \<Rightarrow> (gateway \<times> string) option outcome" where
  "setup_upnp_port_forwarding U ctx =
     (let port = port_of_context ctx; (devlist, ret) = upnp_discover U in
      if ret = 0 \<and> devlist = None then Undefined
      else
        (case upnp_gateway U devlist of
           None \<Rightarrow> Undefined
         | Some g \<Rightarrow>
             if upnp_add U g port = 0
             then (if devlist = None then Undefined else Returns (Some (g, port)))
             else Returns None))"

text \<open>\<open>start\<close> forwards the port first, when the configuration asks for it.\<close>

definition facade_start_upnp ::
  "upnp_library \<Rightarrow> stubs \<Rightarrow> endpoint \<Rightarrow> world \<Rightarrow> (unit outcome \<times> world) option" where
  "facade_start_upnp U N me w =
     (let start = map_option (\<lambda>((r, _), w). (r, w)) (facade_start N me w) in
      if ctx_upnp (self_ctx me w)
      then (case setup_upnp_port_forwarding U (self_ctx me w) of
              Returns _ \<Rightarrow> start
            | Throws e \<Rightarrow> Some (Throws e, w)
            | Undefined \<Rightarrow> Some (Undefined, w))
      else start)"

text \<open>Without a gateway nothing is defined, and a port is only forwarded to one that was found.\<close>

lemma no_gateway_undefined:
  assumes "\<And>l. upnp_gateway U l = None"
  shows "setup_upnp_port_forwarding U ctx = Undefined"
  using assms by (simp add: setup_upnp_port_forwarding_def Let_def split: prod.split)

lemma forwarded_through_gateway:
  assumes "setup_upnp_port_forwarding U ctx = Returns (Some (g, port))"
  shows "\<exists>d. fst (upnp_discover U) = Some d \<and> upnp_gateway U (Some d) = Some g \<and> upnp_add U g port = 0 \<and>
    port = port_of_context ctx"
  using assms by (auto simp: setup_upnp_port_forwarding_def Let_def split: prod.splits option.splits if_splits)

lemma upnp_start_cases:
  assumes "facade_start_upnp U N me w = Some (r, w')"
  obtains "w' = w" "r \<noteq> Returns ()" | tasks where "facade_start N me w = Some ((r, tasks), w')"
  using assms
  by (auto simp: facade_start_upnp_def Let_def split: if_splits outcome.splits)

end
