(* ===== verification/Process.thy ===== *)
theory Process
  imports Program Fs_Invariant Upnp
begin

text \<open>
  The life of a peer (\<open>src/chord.peer.cc\<close>, \<open>src/chord.shutdown.handler.cc\<close>).  The peer connects
  the signals of the ring to the file system.  In the code a listener runs where the signal is
  sent.  Here only what a peer signals while it starts or leaves is handled with the call, at its
  end; what the tasks of the ring and the lookups within other calls signal stays recorded, and the
  reactions to it are steps of the system of their own (\<open>fs_step\<close>), taken in any order.  On a ring
  whose members stay up lookups are not heard (\<open>unheard\<close> in \<open>Fs_Ring\<close>), so that nothing is put off.
  Starting builds the server and enters the ring, stopping leaves it at most once, and a
  second signal of the operating system aborts.  Waiting for the server's thread is left out.
\<close>

subsection \<open>Signals\<close>

definition dispatch :: "regex_minus \<Rightarrow> fs_env \<Rightarrow> endpoint \<Rightarrow> chord_signal \<Rightarrow> unit fs_run" where
  "dispatch X E me sig =
     (case sig of
        On_join n \<Rightarrow> on_join E me n
      | On_leave predecessor successor \<Rightarrow> on_leave E me predecessor successor
      | On_predecessor_update from_node to_node \<Rightarrow> on_predecessor_update X E me from_node to_node
      | On_successor_fail n \<Rightarrow> on_successor_fail n
      | Router_signal e \<Rightarrow> (case e of Predecessor_fail n \<Rightarrow> on_predecessor_fail E me n | _ \<Rightarrow> ret ()))"

lemma dispatch_unheard: "\<not> has_listener sig \<Longrightarrow> dispatch X E me sig = ret ()"
  by (cases sig rule: has_listener.cases) (simp_all add: dispatch_def)

definition pending :: "endpoint \<Rightarrow> nat \<Rightarrow> fs_world \<Rightarrow> chord_signal list" where
  "pending me n s = drop n (peer_signals (peers (ring s) me))"

text \<open>What starting and leaving signal to the peer itself is handled at the end of the call, in the
  order of the signals; \<open>join\<close> and \<open>leave\<close> send theirs last.\<close>

definition signalled :: "regex_minus \<Rightarrow> fs_env \<Rightarrow> endpoint \<Rightarrow> unit fs_run \<Rightarrow> unit fs_run" where
  "signalled X E me m =
     bnd (gets (\<lambda>s. length (peer_signals (peers (ring s) me)))) (\<lambda>n.
     bnd m (\<lambda>_.
     bnd (gets (pending me n)) (\<lambda>evs.
     for_each evs (dispatch X E me))))"

subsection \<open>Starting and stopping\<close>

record process =
  proc_fs :: fs_world
  proc_server :: bool
  proc_stopped :: bool
  proc_handler :: bool
  proc_signals :: nat

datatype signal_result = Aborted | Exited | Stopped

definition chord_start :: "upnp_library \<Rightarrow> regex_minus \<Rightarrow> fs_env \<Rightarrow> endpoint \<Rightarrow> unit fs_run" where
  "chord_start U X E me = signalled X E me (on_ring (facade_start_upnp U (env_ring E) me))"

definition start_server ::
  "upnp_library \<Rightarrow> regex_minus \<Rightarrow> fs_env \<Rightarrow> endpoint \<Rightarrow> process \<Rightarrow> (unit outcome \<times> process) option" where
  "start_server U X E me p =
     (let p = p\<lparr>proc_server := True\<rparr>
      in map_option (\<lambda>(r, s). (r, p\<lparr>proc_fs := s\<rparr>)) (chord_start U X E me (proc_fs p)))"

definition peer_start ::
  "upnp_library \<Rightarrow> regex_minus \<Rightarrow> fs_env \<Rightarrow> endpoint \<Rightarrow> process \<Rightarrow> (unit outcome \<times> process) option" where
  "peer_start U X E me p =
     (let p = (if ctx_register_shutdown_handler (my_ctx me (proc_fs p)) then p\<lparr>proc_handler := True\<rparr> else p)
      in start_server U X E me p)"

definition chord_stop :: "regex_minus \<Rightarrow> fs_env \<Rightarrow> endpoint \<Rightarrow> unit fs_run" where
  "chord_stop X E me =
     signalled X E me (on_ring (\<lambda>w. map_option (\<lambda>w. (Returns (), w)) (facade_stop (env_ring E) me w)))"

definition peer_stop ::
  "regex_minus \<Rightarrow> fs_env \<Rightarrow> endpoint \<Rightarrow> process \<Rightarrow> (unit outcome \<times> process) option" where
  "peer_stop X E me p =
     (if proc_stopped p then Some (Returns (), p)
      else
        let p = p\<lparr>proc_stopped := True\<rparr> in
        map_option (\<lambda>(r, s).
            (r, if r = Returns () then p\<lparr>proc_fs := s, proc_server := False\<rparr> else p\<lparr>proc_fs := s\<rparr>))
          (chord_stop X E me (proc_fs p)))"

text \<open>The first argument of \<open>handle_stop\<close> after the environment is the peer the handler knows, if any.\<close>

definition handle_stop ::
  "regex_minus \<Rightarrow> fs_env \<Rightarrow> endpoint option \<Rightarrow> process \<Rightarrow> (signal_result outcome \<times> process) option" where
  "handle_stop X E handled p =
     (let first = (proc_signals p = 0); p = p\<lparr>proc_signals := proc_signals p + 1\<rparr> in
      if \<not> first then Some (Returns Aborted, p)
      else
        (case handled of
           None \<Rightarrow> Some (Returns Exited, p)
         | Some me \<Rightarrow>
             map_option (\<lambda>(r, p). (out_bind r (\<lambda>_. Returns Stopped), p)) (peer_stop X E me p)))"

text \<open>A second stop changes nothing, and a second signal never leaves the ring again.\<close>

lemma peer_stop_after:
  assumes "peer_stop X E me p = Some (r, p')"
  shows "proc_stopped p'" "proc_signals p' = proc_signals p"
  using assms by (auto simp: peer_stop_def Let_def split: if_splits)

lemma peer_stop_once:
  assumes "peer_stop X E me p = Some (r, p')"
  shows "peer_stop X E me p' = Some (Returns (), p')"
  using peer_stop_after(1) [OF assms] by (simp add: peer_stop_def)

lemma second_signal_aborts:
  assumes "handle_stop X E h p = Some (r, p')"
  shows "handle_stop X E h' p' = Some (Returns Aborted, p'\<lparr>proc_signals := proc_signals p' + 1\<rparr>)"
proof -
  have "proc_signals p' = proc_signals p + 1"
    using assms by (auto simp: handle_stop_def Let_def dest: peer_stop_after(2) split: if_splits option.splits)
  then show ?thesis by (simp add: handle_stop_def)
qed

subsection \<open>What a process does are steps of the system\<close>

abbreviation steps_from ::
  "(endpoint \<Rightarrow> string) \<Rightarrow> fs_env \<Rightarrow> regex_minus \<Rightarrow> fs_world \<Rightarrow> fs_world \<Rightarrow> bool" where
  "steps_from t E X s \<equiv> (fs_step t E X)\<^sup>*\<^sup>* s"

lemma one_step:
  "(\<And>s r s'. m s = Some (r, s') \<Longrightarrow> fs_step t E X s s') \<Longrightarrow> keeps (steps_from t E X s0) m"
  by (rule keepsI) (rule rtranclp.rtrancl_into_rtrancl)

lemma system_steps:
  "keeps (steps_from t E X s0) (fs_facade_put X (fs_system t E k d) me source target rp)"
  "keeps (steps_from t E X s0) (fs_facade_get X (fs_system t E k d) me u p)"
  "keeps (steps_from t E X s0) (fs_facade_dir (fs_system t E k d) me u ms)"
  "keeps (steps_from t E X s0) (fs_facade_del (fs_system t E k d) me u b)"
  "keeps (steps_from t E X s0) (fs_facade_move (fs_system t E k d) me u v b)"
  "keeps (steps_from t E X s0) (fs_facade_mkdir (fs_system t E k d) me u rp)"
  "keeps (steps_from t E X s0) (on_join (fs_system t E k d) me n)"
  "keeps (steps_from t E X s0) (on_predecessor_update X (fs_system t E k d) me n m)"
  "keeps (steps_from t E X s0) (on_leave (fs_system t E k d) me n m)"
  "keeps (steps_from t E X s0) (on_predecessor_fail (fs_system t E k d) me n)"
  by (rule one_step, erule fs_step.intros)+

lemmas process_steps = keeps_rules system_steps

lemma target_steps:
  "keeps (steps_from t E X s0) (del_targets (fs_system t E k d) me b ts)"
  "keeps (steps_from t E X s0) (mov_sources (fs_system t E k d) me b target ts)"
  "keeps (steps_from t E X s0) (put_sources X (fs_system t E k d) me r target ts)"
  "keeps (steps_from t E X s0) (get_sources X (fs_system t E k d) me target ts)"
  unfolding parse_uri_def by (induction ts) (auto simp: parse_uri_def intro!: process_steps)

lemma command_steps: "keeps (steps_from t E X s0) (parse_command X P (fs_system t E k d) me line)"
  unfolding parse_command_def handle_put_def handle_mkdir_def handle_get_def handle_dir_def handle_del_def
    handle_mov_def invalid_arguments_def fs_facade_dir_text_def require_def parse_uri_def Let_def
  by (auto split: list.split option.split intro!: process_steps target_steps)

lemma dispatch_steps: "keeps (steps_from t E X s0) (dispatch X (fs_system t E k d) me sig)"
  unfolding dispatch_def on_successor_fail_def
  by (auto split: chord_signal.split router_event.split intro!: process_steps)

lemma start_steps: "keeps (steps_from t E X s0) (chord_start U X (fs_system t E k d) me)"
proof -
  have "keeps (steps_from t E X s0) (on_ring (facade_start_upnp U (env_ring (fs_system t E k d)) me))"
  proof (rule keepsI)
    fix s r s'
    assume s: "steps_from t E X s0 s" and "on_ring (facade_start_upnp U (env_ring (fs_system t E k d)) me) s = Some (r, s')"
    then obtain w where w: "facade_start_upnp U (network t k) me (ring s) = Some (r, w)" "s' = s\<lparr>ring := w\<rparr>"
      by (auto simp: on_ring_def fs_system_def)
    from w(1) show "steps_from t E X s0 s'"
    proof (cases rule: upnp_start_cases)
      case 1
      then show ?thesis using s w(2) by simp
    next
      case (2 tasks)
      then have "fs_step t E X s s'" using w(2) ring_step.starts fs_step.ring_moves by blast
      then show ?thesis using s by (rule rtranclp.rtrancl_into_rtrancl [rotated])
    qed
  qed
  then show ?thesis unfolding chord_start_def signalled_def
    by (intro process_steps dispatch_steps)
qed

subsection \<open>Leaving keeps the data\<close>

text \<open>While it leaves, a peer has the identifier of its predecessor, and its routing table is none
  of its own; its database and its disk stay well-formed all the same.\<close>

definition data_ok :: "fs_world \<Rightarrow> bool" where
  "data_ok s = (\<forall>x. db_ok (my_db x s) \<and> tree_ok (my_disk x s))"

lemma data_ok_ring: "keeps data_ok (on_ring f)"
  by (rule keepsI) (auto simp: data_ok_def on_ring_def my_db_def my_disk_def)

interpretation data: store_invariant data_ok R "\<lambda>_. True" for R
proof
  fix me u s db d
  show "keeps data_ok (on_ring (facade_successor R me u))" by (rule data_ok_ring)
  show "data_ok s \<Longrightarrow> (db_ok (my_db me s) \<Longrightarrow> db_ok db) \<Longrightarrow> data_ok (set_db me db s)"
    by (simp add: data_ok_def)
  show "data_ok s \<Longrightarrow> data_ok (fs_crash me s)"
    by (simp add: data_ok_def fs_crash_def)
  show "data_ok s \<Longrightarrow> (tree_ok (my_disk me s) \<Longrightarrow> tree_ok d) \<Longrightarrow> data_ok (set_disk me d s)"
    by (simp add: data_ok_def)
qed simp

lemma stop_keeps_data: "keeps data_ok (chord_stop X (fs_system t E k d) me)"
proof -
  have contract: "store_contract data_ok (network t k) (\<lambda>_. True) (fs_system t E k d) me"
    unfolding fs_system_def by (rule data.network_store_contract) simp_all
  have "keeps data_ok (dispatch X (fs_system t E k d) me sig)" for sig
    unfolding dispatch_def on_successor_fail_def
    using store_contract.signal_keeps [OF contract]
    by (auto split: chord_signal.split router_event.split intro: keeps_basic)
  then show ?thesis unfolding chord_stop_def signalled_def by (intro keeps_rules data_ok_ring)
qed

end
