(* ===== verification/Log_Factory.thy ===== *)
theory Log_Factory
  imports Log Run File_System
begin

text \<open>
  Loggers made from the settings (\<open>include/chord.log.factory.h\<close>, \<open>src/chord.log.factory.cc\<close>, and
  \<open>get_or_create\<close> of \<open>src/chord.log.cc\<close>).  spdlog keeps loggers by name in a registry: looking one
  up, and registering one, which throws when the name is taken, are what the code uses of it.
  The names of levels and the search for a regular expression are parameters: \<open>level\<close> gives the
  level spdlog reads from a text and its own name for it, \<open>search\<close> whether a pattern is found in a
  name, or that the pattern is malformed.  Opening the files of sinks is spdlog's.
\<close>

record spd_sink =
  spd_kind :: sink_type
  spd_path :: string
  spd_level :: string

record spd_logger =
  spd_sinks :: "spd_sink list"
  spd_logger_level :: string

text \<open>An empty level stands for the one nobody set.\<close>

record log_world =
  log_registry :: "(string \<times> spd_logger) list"
  log_root_level :: string
  log_disk :: disk

type_synonym 'a log_run = "(log_world, 'a) run"

definition stdout_sink :: spd_sink where
  "stdout_sink = \<lparr>spd_kind = CONSOLE, spd_path = [], spd_level = []\<rparr>"

text \<open>\<open>spdlog::get\<close>, \<open>spdlog::register_logger\<close> and \<open>spdlog::stdout_color_mt\<close>\<close>

definition spd_get :: "string \<Rightarrow> spd_logger option log_run" where
  "spd_get name = gets (\<lambda>w. map_of (log_registry w) name)"

definition spd_register :: "string \<Rightarrow> spd_logger \<Rightarrow> unit log_run" where
  "spd_register name g =
     bnd (spd_get name) (\<lambda>known.
     if known \<noteq> None then raise Std_exception
     else modify (\<lambda>w. w\<lparr>log_registry := (name, g) # log_registry w\<rparr>))"

definition spd_stdout :: "string \<Rightarrow> spd_logger log_run" where
  "spd_stdout name =
     (let g = \<lparr>spd_sinks = [stdout_sink], spd_logger_level = []\<rparr>
      in bnd (spd_register name g) (\<lambda>_. ret g))"

text \<open>The free function \<open>get_or_create\<close>\<close>

definition get_or_create_plain :: "string \<Rightarrow> spd_logger log_run" where
  "get_or_create_plain name =
     bnd (spd_get name) (\<lambda>known. case known of Some g \<Rightarrow> ret g | None \<Rightarrow> spd_stdout name)"

subsection \<open>The factory\<close>

definition valid_level :: "(string \<Rightarrow> string) \<Rightarrow> logging \<Rightarrow> string \<Rightarrow> bool" where
  "valid_level level l text = (level (log_level l) = text)"

definition new_factory :: "(string \<Rightarrow> string) \<Rightarrow> logging \<Rightarrow> unit log_run" where
  "new_factory level l =
     (if log_level l = [] then ret ()
      else if \<not> valid_level level l (log_level l) then ret ()
      else modify (\<lambda>w. w\<lparr>log_root_level := level (log_level l)\<rparr>))"

definition prepare_file_sink :: "path \<Rightarrow> bool log_run" where
  "prepare_file_sink file =
     (let dir = parent_path file in
      bnd (gets (\<lambda>w. file_exists (log_disk w) dir)) (\<lambda>there.
      if there then ret True
      else
        (\<lambda>w. case file_create_directories dir (log_disk w) of
               Inl _ \<Rightarrow> Some (Throws Std_exception, w)
             | Inr (b, d) \<Rightarrow> Some (Returns b, w\<lparr>log_disk := d\<rparr>))))"

definition configure_sink :: "(string \<Rightarrow> string) \<Rightarrow> sink \<Rightarrow> spd_sink \<Rightarrow> spd_sink" where
  "configure_sink level conf s = (if sink_level conf = [] then s else s\<lparr>spd_level := level (sink_level conf)\<rparr>)"

definition create_sink :: "(string \<Rightarrow> string) \<Rightarrow> sink \<Rightarrow> spd_sink log_run" where
  "create_sink level conf =
     (case sink_kind conf of
        CONSOLE \<Rightarrow> ret (configure_sink level conf stdout_sink)
      | kind \<Rightarrow>
          bnd (prepare_file_sink (sink_path conf)) (\<lambda>_.
          ret (configure_sink level conf \<lparr>spd_kind = kind, spd_path = sink_path conf, spd_level = []\<rparr>)))"

fun create_sinks :: "(string \<Rightarrow> string) \<Rightarrow> sink list \<Rightarrow> spd_sink list log_run" where
  "create_sinks level [] = ret []"
| "create_sinks level (conf # confs) =
     bnd (create_sink level conf) (\<lambda>s. bnd (create_sinks level confs) (\<lambda>ss. ret (s # ss)))"

text \<open>The pointers of a logger lead to sinks of the settings.\<close>

definition sinks_of :: "logging \<Rightarrow> log_logger \<Rightarrow> sink list" where
  "sinks_of l g = List.map_filter (map_of (log_sinks l)) (logger_sinks g)"

definition create_logger :: "(string \<Rightarrow> string) \<Rightarrow> logging \<Rightarrow> log_logger \<Rightarrow> spd_logger log_run" where
  "create_logger level l g =
     bnd (create_sinks level (sinks_of l g)) (\<lambda>sinks. ret \<lparr>spd_sinks = sinks, spd_logger_level = []\<rparr>)"

text \<open>The loop of \<open>get_or_create\<close> goes on after a logger that matches.\<close>

fun match_loggers ::
  "(string \<Rightarrow> string) \<Rightarrow> (string \<Rightarrow> string \<Rightarrow> bool option) \<Rightarrow> logging \<Rightarrow> string \<Rightarrow> (string \<times> log_logger) list
    \<Rightarrow> spd_logger option \<Rightarrow> spd_logger option log_run" where
  "match_loggers level search l name [] found = ret found"
| "match_loggers level search l name ((k, conf) # rest) found =
     (case search (logger_filter conf) name of
        None \<Rightarrow> raise Std_exception
      | Some False \<Rightarrow> match_loggers level search l name rest found
      | Some True \<Rightarrow>
          bnd (create_logger level l conf) (\<lambda>g.
          let g = (if logger_level conf = [] then g else g\<lparr>spd_logger_level := level (logger_level conf)\<rparr>) in
          bnd (spd_register name g) (\<lambda>_.
          match_loggers level search l name rest (Some g))))"

definition get_or_create ::
  "(string \<Rightarrow> string) \<Rightarrow> (string \<Rightarrow> string \<Rightarrow> bool option) \<Rightarrow> logging \<Rightarrow> string \<Rightarrow> spd_logger log_run" where
  "get_or_create level search l name =
     bnd (spd_get name) (\<lambda>known. case known of
        Some g \<Rightarrow> ret g
      | None \<Rightarrow>
          bnd (match_loggers level search l name (log_loggers l) None) (\<lambda>found. case found of
            Some g \<Rightarrow> ret g
          | None \<Rightarrow> spd_stdout name))"

subsection \<open>Which logger is made\<close>

text \<open>The directory of a sink's file is there.\<close>

definition sink_ready :: "log_world \<Rightarrow> sink \<Rightarrow> bool" where
  "sink_ready w s = (sink_kind s = CONSOLE \<or> file_exists (log_disk w) (parent_path (sink_path s)))"

definition made_sink :: "(string \<Rightarrow> string) \<Rightarrow> sink \<Rightarrow> spd_sink" where
  "made_sink level s =
     \<lparr>spd_kind = sink_kind s, spd_path = (if sink_kind s = CONSOLE then [] else sink_path s),
      spd_level = (if sink_level s = [] then [] else level (sink_level s))\<rparr>"

definition made_logger :: "(string \<Rightarrow> string) \<Rightarrow> logging \<Rightarrow> log_logger \<Rightarrow> spd_logger" where
  "made_logger level l g =
     \<lparr>spd_sinks = map (made_sink level) (sinks_of l g),
      spd_logger_level = (if logger_level g = [] then [] else level (logger_level g))\<rparr>"

definition matching :: "(string \<Rightarrow> string \<Rightarrow> bool option) \<Rightarrow> string \<Rightarrow> (string \<times> log_logger) list \<Rightarrow> log_logger list" where
  "matching search name gs = [g \<leftarrow> map snd gs. search (logger_filter g) name = Some True]"

text \<open>Every filter is a regular expression and every sink can be made.\<close>

definition loggers_ready :: "(string \<Rightarrow> string \<Rightarrow> bool option) \<Rightarrow> logging \<Rightarrow> string \<Rightarrow> log_world \<Rightarrow> bool" where
  "loggers_ready search l name w =
     (list_all (\<lambda>(k, g). search (logger_filter g) name \<noteq> None \<and> list_all (sink_ready w) (sinks_of l g)) (log_loggers l))"

lemma sink_ready_registry [simp]: "sink_ready (w\<lparr>log_registry := r\<rparr>) = sink_ready w"
  by (simp add: sink_ready_def fun_eq_iff)

lemma create_sink_ready:
  "sink_ready w s \<Longrightarrow> create_sink level s w = Some (Returns (made_sink level s), w)"
  by (cases "sink_kind s")
    (simp_all add: create_sink_def sink_ready_def made_sink_def configure_sink_def stdout_sink_def
      prepare_file_sink_def Let_def ret_def bnd_def gets_def)

lemma create_sinks_ready:
  "list_all (sink_ready w) ss \<Longrightarrow> create_sinks level ss w = Some (Returns (map (made_sink level) ss), w)"
  by (induction ss) (simp_all add: create_sink_ready ret_def)

lemma create_logger_ready:
  "list_all (sink_ready w) (sinks_of l g) \<Longrightarrow>
     create_logger level l g w =
       Some (Returns \<lparr>spd_sinks = map (made_sink level) (sinks_of l g), spd_logger_level = []\<rparr>, w)"
  by (simp add: create_logger_def create_sinks_ready ret_def)

lemma spd_register_new:
  "map_of (log_registry w) name = None \<Longrightarrow>
     spd_register name g w = Some (Returns (), w\<lparr>log_registry := (name, g) # log_registry w\<rparr>)"
  by (simp add: spd_register_def spd_get_def modify_def)

lemma spd_register_taken:
  "map_of (log_registry w) name = Some h \<Longrightarrow> spd_register name g w = Some (Throws Std_exception, w)"
  by (simp add: spd_register_def spd_get_def raise_def)

lemma match_loggers_step:
  assumes "list_all (sink_ready w) (sinks_of l g)" "search (logger_filter g) name = Some True"
  shows "match_loggers level search l name ((k, g) # gs) found w =
     bnd (spd_register name (made_logger level l g))
       (\<lambda>_. match_loggers level search l name gs (Some (made_logger level l g))) w"
proof -
  have "(if logger_level g = [] then h else h\<lparr>spd_logger_level := level (logger_level g)\<rparr>) = made_logger level l g"
    if "h = \<lparr>spd_sinks = map (made_sink level) (sinks_of l g), spd_logger_level = []\<rparr>" for h
    using that by (simp add: made_logger_def)
  then show ?thesis using assms by (simp add: create_logger_ready Let_def)
qed

text \<open>A match beside a registered logger throws.\<close>

lemma match_loggers_taken:
  assumes "map_of (log_registry w) name = Some h"
    "list_all (\<lambda>(k, g). search (logger_filter g) name \<noteq> None \<and> list_all (sink_ready w) (sinks_of l g)) gs"
  shows "match_loggers level search l name gs found w =
     (if matching search name gs = [] then Some (Returns found, w) else Some (Throws Std_exception, w))"
  using assms(2)
proof (induction gs)
  case Nil
  then show ?case by (simp add: matching_def ret_def)
next
  case (Cons p gs)
  obtain k g where p: "p = (k, g)" by fastforce
  then obtain b where b: "search (logger_filter g) name = Some b" using Cons.prems by auto
  show ?case
  proof (cases b)
    case True
    then show ?thesis using b p Cons.prems
      by (simp add: match_loggers_step spd_register_taken [OF assms(1)] matching_def bnd_def del: match_loggers.simps)
  next
    case False
    then show ?thesis using b p Cons by (simp add: matching_def)
  qed
qed

lemma match_loggers_new:
  assumes "map_of (log_registry w) name = None"
    "list_all (\<lambda>(k, g). search (logger_filter g) name \<noteq> None \<and> list_all (sink_ready w) (sinks_of l g)) gs"
  shows "match_loggers level search l name gs None w =
     (case matching search name gs of
        [] \<Rightarrow> Some (Returns None, w)
      | g # others \<Rightarrow>
          Some (if others = [] then Returns (Some (made_logger level l g)) else Throws Std_exception,
            w\<lparr>log_registry := (name, made_logger level l g) # log_registry w\<rparr>))"
  using assms(2)
proof (induction gs)
  case Nil
  then show ?case by (simp add: matching_def ret_def)
next
  case (Cons p gs)
  obtain k g where p: "p = (k, g)" by fastforce
  then obtain b where b: "search (logger_filter g) name = Some b" using Cons.prems by auto
  show ?case
  proof (cases b)
    case True
    let ?w = "w\<lparr>log_registry := (name, made_logger level l g) # log_registry w\<rparr>"
    have "list_all (\<lambda>(k, g). search (logger_filter g) name \<noteq> None \<and> list_all (sink_ready ?w) (sinks_of l g)) gs"
      using Cons.prems by simp
    then show ?thesis using b p True Cons.prems
      by (simp add: match_loggers_step spd_register_new [OF assms(1)] match_loggers_taken matching_def
          del: match_loggers.simps)
  next
    case False
    then show ?thesis using b p Cons by (simp add: matching_def)
  qed
qed

text \<open>A registered logger is found again, whatever the settings.\<close>

lemma get_or_create_again:
  "map_of (log_registry w) name = Some g \<Longrightarrow> get_or_create level search l name w = Some (Returns g, w)"
  by (simp add: get_or_create_def spd_get_def ret_def)

lemma get_or_create_new:
  assumes "map_of (log_registry w) name = None" "loggers_ready search l name w"
  shows "get_or_create level search l name w =
     (let plain = \<lparr>spd_sinks = [stdout_sink], spd_logger_level = []\<rparr> in
      case matching search name (log_loggers l) of
        [] \<Rightarrow> Some (Returns plain, w\<lparr>log_registry := (name, plain) # log_registry w\<rparr>)
      | g # others \<Rightarrow>
          Some (if others = [] then Returns (made_logger level l g) else Throws Std_exception,
            w\<lparr>log_registry := (name, made_logger level l g) # log_registry w\<rparr>))"
proof -
  have search: "get_or_create level search l name w =
      bnd (match_loggers level search l name (log_loggers l) None)
        (\<lambda>found. case found of Some g \<Rightarrow> ret g | None \<Rightarrow> spd_stdout name) w"
    using assms(1) by (simp add: get_or_create_def spd_get_def)
  have matched: "match_loggers level search l name (log_loggers l) None w =
      (case matching search name (log_loggers l) of
         [] \<Rightarrow> Some (Returns None, w)
       | g # others \<Rightarrow>
           Some (if others = [] then Returns (Some (made_logger level l g)) else Throws Std_exception,
             w\<lparr>log_registry := (name, made_logger level l g) # log_registry w\<rparr>))"
    using assms(2) unfolding loggers_ready_def by (rule match_loggers_new [OF assms(1)])
  show ?thesis
  proof (cases "matching search name (log_loggers l)")
    case Nil
    then show ?thesis using matched assms(1) search
      by (simp add: spd_stdout_def Let_def spd_register_new ret_def)
  next
    case (Cons g others)
    then show ?thesis using matched search by (simp add: bnd_def ret_def)
  qed
qed

text \<open>Two loggers with filters that match\<close>

lemma matching_member:
  "(k, g) \<in> set gs \<Longrightarrow> search (logger_filter g) name = Some True \<Longrightarrow> matching search name gs \<noteq> []"
  by (force simp: matching_def filter_empty_conv)

lemma matching_two:
  assumes "(j, g) \<in> set gs" "(k, h) \<in> set gs" "j \<noteq> k"
    "search (logger_filter g) name = Some True" "search (logger_filter h) name = Some True"
  obtains first second others where "matching search name gs = first # second # others"
proof -
  have "2 \<le> length (matching search name gs)"
    using assms(1,2)
  proof (induction gs)
    case (Cons p gs)
    have "matching search name (p # gs) =
        (if search (logger_filter (snd p)) name = Some True then snd p # matching search name gs
         else matching search name gs)"
      by (simp add: matching_def)
    moreover have "matching search name gs \<noteq> []" if "(j, g) \<in> set gs \<or> (k, h) \<in> set gs"
      using that matching_member assms(4,5) by metis
    ultimately show ?case using Cons assms(3-5) by (cases "matching search name gs") auto
  qed simp
  then show thesis using that by (metis One_nat_def Suc_1 Suc_le_length_iff)
qed

text \<open>The sinks of a logger whose pointers all lead to one\<close>

lemma sinks_of_all:
  "(\<And>s. s \<in> set (logger_sinks g) \<Longrightarrow> map_of (log_sinks l) s \<noteq> None) \<Longrightarrow>
     sinks_of l g = map (the \<circ> map_of (log_sinks l)) (logger_sinks g)"
  unfolding sinks_of_def by (induction "logger_sinks g" arbitrary: g rule: list.induct)
    (auto simp: List.map_filter_def)

text \<open>A logger of the settings that names no sink gets none, not the console: what is logged under a
  name its filter matches is written nowhere.\<close>

lemma logger_without_sinks_is_silent:
  assumes "map_of (log_registry w) name = None" "log_loggers l = [(k, g)]"
    and "search (logger_filter g) name = Some True" "logger_sinks g = []"
  shows "\<exists>made. get_or_create level search l name w =
      Some (Returns made, w\<lparr>log_registry := (name, made) # log_registry w\<rparr>) \<and> spd_sinks made = []"
proof -
  have none: "sinks_of l g = []" using assms(4) by (simp add: sinks_of_def List.map_filter_def)
  then have "loggers_ready search l name w" using assms(2,3) by (auto simp: loggers_ready_def)
  from get_or_create_new [OF assms(1) this, of level] have
    "get_or_create level search l name w =
      Some (Returns (made_logger level l g), w\<lparr>log_registry := (name, made_logger level l g) # log_registry w\<rparr>)"
    using assms(2,3) by (simp add: matching_def Let_def)
  then show ?thesis using none by (simp add: made_logger_def)
qed

text \<open>Two loggers, one of them without a filter, in a program that has logged nothing yet\<close>

definition overlapping :: logging where
  "overlapping =
     default_logging
       \<lparr>log_sinks := [(''CONS'', default_sink)],
        log_loggers := [(''MYLOG'', default_logger\<lparr>logger_sinks := [''CONS'']\<rparr>),
          (''OTHER'', default_logger\<lparr>logger_filter := ''chord.'', logger_level := ''trace''\<rparr>)]\<rparr>"

definition quiet :: log_world where
  "quiet = \<lparr>log_registry = [], log_root_level = [], log_disk = \<lparr>disk_files = [], disk_attrs = [], disk_cwd = []\<rparr>\<rparr>"

definition prefix_search :: "string \<Rightarrow> string \<Rightarrow> bool option" where
  "prefix_search p t = Some (take (length p) t = p)"

end
