(* ===== verification/Scheduler.thy ===== *)
theory Scheduler
  imports Prelude "HOL-Library.Multiset"
begin

text \<open>
  The scheduler of the periodic tasks (\<open>include/chord.scheduler.h\<close>): a pool of threads shares
  a priority queue under one mutex.  A thread that finds nothing to run waits: one at a time
  on \<open>task_cv\<close>, until the time of the first task, the others on \<open>queue_cv\<close>, until they are
  notified.  A step is what happens between two releases of the mutex.  The queue is a list
  whose order does not matter; which of several tasks with the least time is on top, and which
  waiting thread a notification reaches, is left open.  \<open>requested\<close>, \<open>scheduled\<close> and \<open>started\<close>
  record what users ever asked for, and what was ever put into the queue and taken out.  The
  variant with a date in a text is left out.
\<close>

datatype job = Once nat | Every int nat

record task =
  due :: int
  job_of :: job

datatype thread =
    Ready
  | Running task
  | Waits_queue
  | Waits_task int bool
  | Ended

record scheduler =
  sched_stop :: bool
  sched_task :: bool
  sched_tasks :: "task list"
  sched_threads :: "thread list"
  sched_now :: int
  requested :: "job list"
  scheduled :: "task list"
  started :: "(task \<times> int) list"

definition new_scheduler :: "nat \<Rightarrow> int \<Rightarrow> scheduler" where
  "new_scheduler pool_size now =
     \<lparr>sched_stop = False, sched_task = False, sched_tasks = [], sched_threads = replicate pool_size Ready,
      sched_now = now, requested = [], scheduled = [], started = []\<rparr>"

definition is_top :: "task \<Rightarrow> scheduler \<Rightarrow> bool" where
  "is_top t s = (t \<in> set (sched_tasks s) \<and> list_all (\<lambda>u. due t \<le> due u) (sched_tasks s))"

definition is_runnable :: "scheduler \<Rightarrow> bool" where
  "is_runnable s = (sched_stop s \<or> list_ex (\<lambda>t. due t \<le> sched_now s) (sched_tasks s))"

definition set_thread :: "nat \<Rightarrow> thread \<Rightarrow> scheduler \<Rightarrow> scheduler" where
  "set_thread i th s = s\<lparr>sched_threads := (sched_threads s)[i := th]\<rparr>"

definition thread_is :: "nat \<Rightarrow> thread \<Rightarrow> scheduler \<Rightarrow> bool" where
  "thread_is i th s = (i < length (sched_threads s) \<and> sched_threads s ! i = th)"

text \<open>\<open>queue_cv.notify_one()\<close> reaches thread \<open>j\<close> if it waits there; it may only miss when none does.\<close>

definition notify_queue :: "nat \<Rightarrow> scheduler \<Rightarrow> scheduler" where
  "notify_queue j s = (if thread_is j Waits_queue s then set_thread j Ready s else s)"

definition reaches :: "nat \<Rightarrow> scheduler \<Rightarrow> bool" where
  "reaches j s = (Waits_queue \<in> set (sched_threads s) \<longrightarrow> thread_is j Waits_queue s)"

definition notify_waiter :: "thread \<Rightarrow> thread" where
  "notify_waiter th = (case th of Waits_task d _ \<Rightarrow> Waits_task d True | _ \<Rightarrow> th)"

definition notify_task :: "scheduler \<Rightarrow> scheduler" where
  "notify_task s = s\<lparr>sched_threads := map notify_waiter (sched_threads s)\<rparr>"

definition push_task :: "task \<Rightarrow> scheduler \<Rightarrow> scheduler" where
  "push_task t s = s\<lparr>sched_tasks := t # sched_tasks s, scheduled := scheduled s @ [t]\<rparr>"

definition schedule_intern :: "nat \<Rightarrow> task \<Rightarrow> scheduler \<Rightarrow> scheduler" where
  "schedule_intern j t s = notify_queue j (push_task t s)"

definition ask :: "job \<Rightarrow> scheduler \<Rightarrow> scheduler" where
  "ask r s = s\<lparr>requested := requested s @ [r]\<rparr>"

definition schedule_at :: "nat \<Rightarrow> int \<Rightarrow> nat \<Rightarrow> scheduler \<Rightarrow> scheduler" where
  "schedule_at j time f s = schedule_intern j \<lparr>due = time, job_of = Once f\<rparr> (ask (Once f) s)"

definition schedule_every :: "nat \<Rightarrow> int \<Rightarrow> nat \<Rightarrow> scheduler \<Rightarrow> scheduler" where
  "schedule_every j interval f s =
     schedule_intern j \<lparr>due = sched_now s + interval, job_of = Every interval f\<rparr> (ask (Every interval f) s)"

text \<open>A turn of the loop that finds a task to run, up to the release of the mutex.\<close>

definition run_top :: "nat \<Rightarrow> nat \<Rightarrow> task \<Rightarrow> scheduler \<Rightarrow> scheduler" where
  "run_top i j t s =
     (let s = s\<lparr>sched_tasks := remove1 t (sched_tasks s), started := started s @ [(t, sched_now s)]\<rparr>;
          s = (if sched_task s then notify_task s else notify_queue j s)
      in set_thread i (Running t) s)"

text \<open>The end of a function.  The wrapper around a periodic one then schedules the function itself, not
  the wrapper: \<open>clock::now() + interval\<close> is a point in time, which selects the other overload.\<close>

definition run_done :: "nat \<Rightarrow> nat \<Rightarrow> task \<Rightarrow> scheduler \<Rightarrow> scheduler" where
  "run_done i j t s =
     set_thread i Ready
       (case job_of t of Once _ \<Rightarrow> s | Every interval f \<Rightarrow>
          schedule_intern j \<lparr>due = sched_now s + interval, job_of = Once f\<rparr> s)"

definition sched_shutdown :: "scheduler \<Rightarrow> scheduler" where
  "sched_shutdown s =
     notify_task (s\<lparr>sched_stop := True,
       sched_threads := map (\<lambda>th. if th = Waits_queue then Ready else th) (sched_threads s)\<rparr>)"

inductive sched_step :: "scheduler \<Rightarrow> scheduler \<Rightarrow> bool" where
  time_passes: "0 \<le> n \<Longrightarrow> sched_step s (s\<lparr>sched_now := sched_now s + n\<rparr>)"
| schedules_at: "reaches j s \<Longrightarrow> sched_step s (schedule_at j time f s)"
| schedules_every: "reaches j s \<Longrightarrow> sched_step s (schedule_every j interval f s)"
| shuts_down: "sched_step s (sched_shutdown s)"
| ends: "thread_is i Ready s \<Longrightarrow> sched_stop s \<Longrightarrow> sched_step s (set_thread i Ended s)"
| runs: "thread_is i Ready s \<Longrightarrow> \<not> sched_stop s \<Longrightarrow> is_top t s \<Longrightarrow> due t \<le> sched_now s \<Longrightarrow> reaches j s \<Longrightarrow>
    sched_step s (run_top i j t s)"
| waits_task: "thread_is i Ready s \<Longrightarrow> \<not> is_runnable s \<Longrightarrow> is_top t s \<Longrightarrow> \<not> sched_task s \<Longrightarrow>
    sched_step s (set_thread i (Waits_task (due t) False) (s\<lparr>sched_task := True\<rparr>))"
| waits_queue: "thread_is i Ready s \<Longrightarrow> \<not> is_runnable s \<Longrightarrow> sched_tasks s = [] \<or> sched_task s \<Longrightarrow>
    sched_step s (set_thread i Waits_queue s)"
| finishes: "thread_is i (Running t) s \<Longrightarrow> reaches j s \<Longrightarrow> sched_step s (run_done i j t s)"
| wakes: "thread_is i (Waits_task d notified) s \<Longrightarrow> is_runnable s \<or> d \<le> sched_now s \<Longrightarrow>
    sched_step s (set_thread i Ready (s\<lparr>sched_task := False\<rparr>))"
| waits_on: "thread_is i (Waits_task d True) s \<Longrightarrow> \<not> is_runnable s \<Longrightarrow> sched_now s < d \<Longrightarrow>
    sched_step s (set_thread i (Waits_task d False) s)"
| spurious: "thread_is i Waits_queue s \<Longrightarrow> sched_step s (set_thread i Ready s)"

inductive_cases sched_stepE: "sched_step s s'"

subsection \<open>Every task starts once and not early\<close>

definition accounted :: "scheduler \<Rightarrow> bool" where
  "accounted s =
     (mset (scheduled s) = mset (sched_tasks s) + mset (map fst (started s)) \<and>
      (\<forall>(t, w)\<in>set (started s). due t \<le> w))"

lemma thread_fields [simp]:
  "sched_tasks (set_thread i th s) = sched_tasks s" "scheduled (set_thread i th s) = scheduled s"
  "started (set_thread i th s) = started s" "sched_stop (set_thread i th s) = sched_stop s"
  "sched_task (set_thread i th s) = sched_task s" "sched_now (set_thread i th s) = sched_now s"
  "sched_tasks (notify_queue j s) = sched_tasks s" "scheduled (notify_queue j s) = scheduled s"
  "started (notify_queue j s) = started s" "sched_stop (notify_queue j s) = sched_stop s"
  "sched_task (notify_queue j s) = sched_task s" "sched_now (notify_queue j s) = sched_now s"
  "sched_tasks (notify_task s) = sched_tasks s" "scheduled (notify_task s) = scheduled s"
  "started (notify_task s) = started s" "sched_stop (notify_task s) = sched_stop s"
  "sched_task (notify_task s) = sched_task s" "sched_now (notify_task s) = sched_now s"
  by (simp_all add: set_thread_def notify_queue_def notify_task_def)

lemma accounted_cong:
  "accounted s \<Longrightarrow> sched_tasks s' = sched_tasks s \<Longrightarrow> scheduled s' = scheduled s \<Longrightarrow> started s' = started s \<Longrightarrow> accounted s'"
  by (simp add: accounted_def)

lemma accounted_ask: "accounted (ask r s) = accounted s"
  by (simp add: accounted_def ask_def)

lemma accounted_schedule: "accounted s \<Longrightarrow> accounted (schedule_intern j t s)"
  by (simp add: accounted_def schedule_intern_def push_task_def)

lemma accounted_run:
  assumes "accounted s" "t \<in> set (sched_tasks s)" "due t \<le> sched_now s"
  shows "accounted (run_top i j t s)"
  using assms by (auto simp: accounted_def run_top_def Let_def)

lemma accounted_step: "sched_step s s' \<Longrightarrow> accounted s \<Longrightarrow> accounted s'"
proof (induction rule: sched_step.induct)
  case (runs i s t j)
  then show ?case by (auto intro: accounted_run simp: is_top_def)
next
  case (finishes i t s j)
  then have "accounted (case job_of t of Once _ \<Rightarrow> s
      | Every interval f \<Rightarrow> schedule_intern j \<lparr>due = sched_now s + interval, job_of = Once f\<rparr> s)"
    by (auto simp: accounted_schedule split: job.split)
  then show ?case by (rule accounted_cong) (simp_all add: run_done_def)
qed (auto simp: schedule_at_def schedule_every_def accounted_schedule accounted_ask sched_shutdown_def elim: accounted_cong)

lemma reachable_accounted:
  assumes "sched_step\<^sup>*\<^sup>* (new_scheduler n now) s"
  shows "accounted s"
  using assms
proof (induction rule: rtranclp_induct)
  case base
  show ?case by (simp add: accounted_def new_scheduler_def)
qed (rule accounted_step)

subsection \<open>A pending task is watched\<close>

text \<open>While tasks are pending and nobody stopped the scheduler, some thread will look at the queue:
  it runs, is about to look, or waits with a time limit.\<close>

definition limited :: "thread list \<Rightarrow> bool" where
  "limited ths = (\<exists>d b. Waits_task d b \<in> set ths)"

definition active :: "thread list \<Rightarrow> bool" where
  "active ths = (\<exists>th\<in>set ths. th \<noteq> Waits_queue)"

definition watched :: "scheduler \<Rightarrow> bool" where
  "watched s =
     (sched_threads s \<noteq> [] \<and>
      (sched_task s \<longrightarrow> limited (sched_threads s)) \<and>
      (sched_stop s \<or> Ended \<notin> set (sched_threads s)) \<and>
      (sched_stop s \<or> sched_tasks s = [] \<or> active (sched_threads s)))"

lemma limited_active: "limited ths \<Longrightarrow> active ths"
  by (auto simp: limited_def active_def)

lemma limited_update:
  assumes "limited ths" "\<And>d b. ths ! i \<noteq> Waits_task d b"
  shows "limited (ths[i := x])"
proof -
  obtain k d b where k: "k < length ths" "ths ! k = Waits_task d b"
    using assms(1) by (auto simp: limited_def in_set_conv_nth)
  then have "k \<noteq> i" using assms(2) by auto
  then have "ths[i := x] ! k = Waits_task d b" "k < length (ths[i := x])" using k by simp_all
  then show ?thesis unfolding limited_def by (metis nth_mem)
qed

lemma limited_new: "i < length ths \<Longrightarrow> limited (ths[i := Waits_task d b])"
  by (auto simp: limited_def intro: set_update_memI)

lemma active_update: "i < length ths \<Longrightarrow> x \<noteq> Waits_queue \<Longrightarrow> active (ths[i := x])"
  by (auto simp: active_def intro!: bexI [of _ x] set_update_memI)

lemma ended_update: "Ended \<in> set (ths[i := x]) \<Longrightarrow> x \<noteq> Ended \<Longrightarrow> Ended \<in> set ths"
  using set_update_subset_insert [of ths i x] by auto

lemma notify_waiter_simps [simp]:
  "notify_waiter th = Ended \<longleftrightarrow> th = Ended" "notify_waiter th = Waits_queue \<longleftrightarrow> th = Waits_queue"
  "notify_waiter (Waits_task d b) = Waits_task d True"
  by (cases th; simp add: notify_waiter_def)+

lemma notified_threads:
  "limited ths \<Longrightarrow> limited (map notify_waiter ths)" "active (map notify_waiter ths) = active ths"
  "Ended \<in> notify_waiter ` set ths \<longleftrightarrow> Ended \<in> set ths"
proof -
  show "limited ths \<Longrightarrow> limited (map notify_waiter ths)"
    by (fastforce simp: limited_def intro: rev_image_eqI)
  show "active (map notify_waiter ths) = active ths" by (simp add: active_def)
  show "Ended \<in> notify_waiter ` set ths \<longleftrightarrow> Ended \<in> set ths"
    by (metis (no_types, lifting) imageE image_eqI notify_waiter_simps(1))
qed

text \<open>Waking a thread that waits for the queue loses nothing.\<close>

lemma notify_queue_watched: "watched s \<Longrightarrow> watched (notify_queue j s)"
  by (auto simp: watched_def notify_queue_def set_thread_def thread_is_def limited_update active_update dest: ended_update)

lemma schedule_watched:
  assumes "watched s" "reaches j s"
  shows "watched (schedule_intern j t s)"
proof (cases "Waits_queue \<in> set (sched_threads s)")
  case True
  then have "thread_is j Waits_queue s" using assms(2) by (simp add: reaches_def)
  then show ?thesis
    using assms(1)
    by (auto simp: watched_def schedule_intern_def push_task_def notify_queue_def set_thread_def thread_is_def
        limited_update active_update dest: ended_update)
next
  case False
  then have "active (sched_threads s)"
    using assms(1) by (cases "sched_threads s") (auto simp: watched_def active_def)
  then have "watched (push_task t s)" using assms(1) by (simp add: watched_def push_task_def)
  then show ?thesis by (simp add: schedule_intern_def notify_queue_watched)
qed

lemma watched_ask: "watched (ask r s) = watched s" "reaches j (ask r s) = reaches j s"
  by (simp_all add: watched_def ask_def reaches_def thread_is_def)

text \<open>A thread that was looking at the queue goes on in another way.\<close>

lemma set_thread_watched:
  assumes "watched s" "i < length (sched_threads s)" "\<And>d b. sched_threads s ! i \<noteq> Waits_task d b"
    and "th = Ended \<Longrightarrow> sched_stop s" "th \<noteq> Waits_queue"
  shows "watched (set_thread i th s)"
  using assms by (auto simp: watched_def set_thread_def limited_update active_update dest: ended_update)

lemma notify_task_watched: "watched s \<Longrightarrow> watched (notify_task s)"
  by (auto simp: watched_def notify_task_def notified_threads)

lemma run_watched:
  assumes "watched s" "thread_is i Ready s"
  shows "watched (run_top i j t s)"
proof -
  let ?s = "s\<lparr>sched_tasks := remove1 t (sched_tasks s), started := started s @ [(t, sched_now s)]\<rparr>"
  let ?n = "if sched_task ?s then notify_task ?s else notify_queue j ?s"
  have "watched ?s"
    using assms(1) by (auto simp: watched_def)
  then have "watched ?n" by (simp add: notify_task_watched notify_queue_watched)
  moreover have "i < length (sched_threads ?n)" "sched_threads ?n ! i = Ready"
    using assms(2)
    by (auto simp: thread_is_def notify_task_def notify_queue_def set_thread_def notify_waiter_def nth_list_update)
  ultimately show ?thesis unfolding run_top_def Let_def by (intro set_thread_watched) auto
qed

lemma shutdown_watched: "watched s \<Longrightarrow> watched (sched_shutdown s)"
  by (fastforce simp: watched_def sched_shutdown_def notify_task_def notified_threads limited_def
      intro: rev_image_eqI)

lemma watched_step: "sched_step s s' \<Longrightarrow> watched s \<Longrightarrow> watched s'"
proof (induction rule: sched_step.induct)
  case (shuts_down s)
  then show ?case by (rule shutdown_watched)
next
  case (runs i s t j)
  then show ?case by (intro run_watched)
next
  case (waits_task i s t)
  then show ?case
    by (auto simp: watched_def set_thread_def thread_is_def limited_new active_update dest: ended_update)
next
  case (waits_queue i s)
  then show ?case
    by (auto simp: watched_def set_thread_def thread_is_def is_runnable_def limited_update dest: ended_update
        intro!: limited_active)
next
  case (finishes i t s j)
  let ?s = "case job_of t of Once _ \<Rightarrow> s
    | Every interval f \<Rightarrow> schedule_intern j \<lparr>due = sched_now s + interval, job_of = Once f\<rparr> s"
  have "watched ?s" using finishes by (simp add: schedule_watched split: job.split)
  moreover have "i < length (sched_threads ?s)" "sched_threads ?s ! i = Running t"
    using finishes by (auto simp: thread_is_def schedule_intern_def push_task_def notify_queue_def
        set_thread_def nth_list_update split: job.split)
  ultimately show ?case unfolding run_done_def by (intro set_thread_watched) auto
next
  case (wakes i d notified s)
  then show ?case
    by (auto simp: watched_def set_thread_def thread_is_def active_update dest: ended_update)
next
  case (waits_on i d s)
  then show ?case
    by (auto simp: watched_def set_thread_def thread_is_def limited_new active_update dest: ended_update)
next
  case (spurious i s)
  then show ?case by (auto simp: thread_is_def intro: set_thread_watched)
next
  case (time_passes n s)
  then show ?case by (simp add: watched_def)
next
  case (ends i s)
  then show ?case by (intro set_thread_watched) (auto simp: thread_is_def)
qed (simp_all add: schedule_at_def schedule_every_def schedule_watched watched_ask)

lemma reachable_watched:
  assumes "sched_step\<^sup>*\<^sup>* (new_scheduler n now) s" "0 < n"
  shows "watched s"
  using assms(1)
proof (induction rule: rtranclp_induct)
  case base
  show ?case using assms(2) by (simp add: watched_def new_scheduler_def)
qed (rule watched_step)

subsection \<open>A periodic task starts at most twice\<close>

primrec fun_of :: "job \<Rightarrow> nat" where
  "fun_of (Once f) = f"
| "fun_of (Every interval f) = f"

text \<open>How often a job in the queue still starts function \<open>f\<close>, and a thread after what it runs.\<close>

definition owed :: "nat \<Rightarrow> job \<Rightarrow> nat" where
  "owed f r = (if fun_of r = f then (case r of Once _ \<Rightarrow> 1 | Every _ _ \<Rightarrow> 2) else 0)"

definition owed_after :: "nat \<Rightarrow> thread \<Rightarrow> nat" where
  "owed_after f th = (case th of Running t \<Rightarrow> owed f (job_of t) - (if fun_of (job_of t) = f then 1 else 0) | _ \<Rightarrow> 0)"

definition starts :: "nat \<Rightarrow> scheduler \<Rightarrow> nat" where
  "starts f s = length (filter (\<lambda>(t, _). fun_of (job_of t) = f) (started s))"

definition left :: "nat \<Rightarrow> scheduler \<Rightarrow> nat" where
  "left f s = sum_list (map (\<lambda>t. owed f (job_of t)) (sched_tasks s)) + sum_list (map (owed_after f) (sched_threads s))"

definition balanced :: "nat \<Rightarrow> scheduler \<Rightarrow> bool" where
  "balanced f s = (starts f s + left f s = sum_list (map (owed f) (requested s)))"

lemma owed_filter: "sum_list (map (owed f) rs) = sum_list (map (owed f) (filter (\<lambda>r. fun_of r = f) rs))"
  by (induction rs) (auto simp: owed_def)

lemma sum_list_map_update:
  fixes g :: "'a \<Rightarrow> nat"
  shows "i < length xs \<Longrightarrow> sum_list (map g (xs[i := x])) + g (xs ! i) = sum_list (map g xs) + g x"
  by (induction xs arbitrary: i) (auto split: nat.split)

lemma left_set_thread:
  "thread_is i th s \<Longrightarrow> left f (set_thread i th' s) + owed_after f th = left f s + owed_after f th'"
  using sum_list_map_update [of i "sched_threads s" "owed_after f" th']
  by (auto simp: left_def set_thread_def thread_is_def)

lemma owed_after_idle [simp]:
  "owed_after f Ready = 0" "owed_after f Waits_queue = 0" "owed_after f (Waits_task d b) = 0" "owed_after f Ended = 0"
  "owed_after f (notify_waiter th) = owed_after f th"
  by (simp_all add: owed_after_def notify_waiter_def split: thread.split)

lemma left_notify [simp]: "left f (notify_queue j s) = left f s" "left f (notify_task s) = left f s"
  using left_set_thread [of j Waits_queue s f Ready]
  by (auto simp: notify_queue_def) (simp add: left_def notify_task_def comp_def)

lemma left_push [simp]: "left f (schedule_intern j t s) = left f s + owed f (job_of t)" "left f (ask r s) = left f s"
  by (simp_all add: schedule_intern_def) (simp_all add: left_def push_task_def ask_def)

lemma starts_fields [simp]:
  "starts f (schedule_intern j t s) = starts f s" "starts f (ask r s) = starts f s" "starts f (set_thread i th s) = starts f s"
  "requested (schedule_intern j t s) = requested s" "requested (set_thread i th s) = requested s"
  "requested (notify_queue j s) = requested s" "requested (notify_task s) = requested s"
  "starts f (notify_queue j s) = starts f s" "starts f (notify_task s) = starts f s"
  by (simp_all add: starts_def schedule_intern_def push_task_def ask_def notify_queue_def notify_task_def set_thread_def)

lemma balanced_set_thread:
  "balanced f s \<Longrightarrow> thread_is i th s \<Longrightarrow> owed_after f th = owed_after f th' \<Longrightarrow> balanced f (set_thread i th' s)"
  using left_set_thread [of i th s f th'] by (simp add: balanced_def)

lemma owed_once: "owed f (job_of t) = (if fun_of (job_of t) = f then 1 else 0) + owed_after f (Running t)"
  by (simp add: owed_after_def owed_def split: job.split)

lemma balanced_run:
  assumes "balanced f s" "thread_is i Ready s" "t \<in> set (sched_tasks s)"
  shows "balanced f (run_top i j t s)"
proof -
  let ?s = "s\<lparr>sched_tasks := remove1 t (sched_tasks s), started := started s @ [(t, sched_now s)]\<rparr>"
  let ?n = "if sched_task ?s then notify_task ?s else notify_queue j ?s"
  have "thread_is i Ready ?n"
    using assms(2) by (auto simp: thread_is_def notify_task_def notify_queue_def set_thread_def notify_waiter_def nth_list_update)
  then have "left f (set_thread i (Running t) ?n) = left f ?n + owed_after f (Running t)"
    using left_set_thread by fastforce
  moreover have "left f ?n = left f ?s" by simp
  moreover have "left f s = left f ?s + owed f (job_of t)"
    using sum_list_map_remove1 [OF assms(3), of "\<lambda>t. owed f (job_of t)"] by (simp add: left_def)
  moreover have "starts f (set_thread i (Running t) ?n) = starts f s + (if fun_of (job_of t) = f then 1 else 0)"
    by (simp add: starts_def)
  moreover have "requested (set_thread i (Running t) ?n) = requested s" by simp
  ultimately show ?thesis using assms(1) owed_once [of f t] by (simp add: balanced_def run_top_def Let_def)
qed

lemma balanced_done:
  assumes "balanced f s" "thread_is i (Running t) s"
  shows "balanced f (run_done i j t s)"
proof -
  let ?s = "case job_of t of Once _ \<Rightarrow> s
    | Every interval g \<Rightarrow> schedule_intern j \<lparr>due = sched_now s + interval, job_of = Once g\<rparr> s"
  have "thread_is i (Running t) ?s"
    using assms(2) by (auto simp: thread_is_def schedule_intern_def push_task_def notify_queue_def set_thread_def
        nth_list_update split: job.split)
  then have "left f (set_thread i Ready ?s) + owed_after f (Running t) = left f ?s"
    using left_set_thread [of i "Running t" ?s f Ready] by simp
  moreover have "left f ?s = left f s + owed_after f (Running t)"
    by (simp add: owed_after_def owed_def split: job.split)
  moreover have "starts f ?s = starts f s" "requested ?s = requested s" by (simp_all split: job.split)
  ultimately show ?thesis using assms(1) by (simp add: balanced_def run_done_def)
qed

lemma balanced_schedule: "balanced f s \<Longrightarrow> job_of t = r \<Longrightarrow> balanced f (schedule_intern j t (ask r s))"
  by (simp add: balanced_def) (simp add: ask_def)

lemma balanced_step: "sched_step s s' \<Longrightarrow> balanced f s \<Longrightarrow> balanced f s'"
proof (induction rule: sched_step.induct)
  case (time_passes n s)
  then show ?case by (simp add: balanced_def left_def starts_def)
next
  case (shuts_down s)
  have "owed_after f (if th = Waits_queue then Ready else th) = owed_after f th" for th by simp
  then have "left f (sched_shutdown s) = left f s"
    by (simp add: sched_shutdown_def) (simp add: left_def comp_def)
  then show ?case using shuts_down by (simp add: balanced_def sched_shutdown_def starts_def)
next
  case (runs i s t j)
  then show ?case by (auto intro: balanced_run simp: is_top_def)
next
  case (waits_task i s t)
  then have "balanced f (s\<lparr>sched_task := True\<rparr>)" "thread_is i Ready (s\<lparr>sched_task := True\<rparr>)"
    by (simp_all add: balanced_def left_def starts_def thread_is_def)
  then show ?case by (rule balanced_set_thread) simp
next
  case (wakes i d b s)
  then have "balanced f (s\<lparr>sched_task := False\<rparr>)" "thread_is i (Waits_task d b) (s\<lparr>sched_task := False\<rparr>)"
    by (simp_all add: balanced_def left_def starts_def thread_is_def)
  then show ?case by (rule balanced_set_thread) simp
next
  case (finishes i t s j)
  then show ?case by (intro balanced_done)
qed (auto simp: schedule_at_def schedule_every_def balanced_schedule intro: balanced_set_thread)

lemma reachable_balanced:
  assumes "sched_step\<^sup>*\<^sup>* (new_scheduler n now) s"
  shows "balanced f s"
  using assms
proof (induction rule: rtranclp_induct)
  case base
  have "sum_list (map (owed_after f) (replicate n Ready)) = 0" by (simp add: sum_list_replicate)
  then show ?case by (simp add: balanced_def left_def starts_def new_scheduler_def)
qed (rule balanced_step)

subsection \<open>An earlier task can come too late\<close>

text \<open>A run with two threads.  Thread 0 waits for the task due at 100.  The notification of a task due
  at 20 reaches thread 1, which finds thread 0 waiting for a task and goes back to the queue, and
  nothing shortens the wait of thread 0.\<close>

definition late_run :: "nat \<Rightarrow> nat \<Rightarrow> scheduler list" where
  "late_run f g =
     (let s0 = new_scheduler 2 0;
          s1 = schedule_at 0 100 f s0;
          s2 = set_thread 0 (Waits_task 100 False) (s1\<lparr>sched_task := True\<rparr>);
          s3 = set_thread 1 Waits_queue s2;
          s4 = schedule_at 1 20 g s3;
          s5 = set_thread 1 Waits_queue s4;
          s6 = s5\<lparr>sched_now := sched_now s5 + 50\<rparr>
      in [s0, s1, s2, s3, s4, s5, s6])"

lemmas run_defs = new_scheduler_def ask_def schedule_at_def schedule_intern_def push_task_def notify_queue_def set_thread_def
  thread_is_def is_runnable_def is_top_def reaches_def

lemma waits_first:
  "thread_is i Ready s \<Longrightarrow> \<not> is_runnable s \<Longrightarrow> is_top t s \<Longrightarrow> \<not> sched_task s \<Longrightarrow> due t = d \<Longrightarrow>
    sched_step s (set_thread i (Waits_task d False) (s\<lparr>sched_task := True\<rparr>))"
  using waits_task by blast

lemma late_run_steps: "successively sched_step (late_run f g)"
  unfolding late_run_def Let_def successively.simps
  apply (intro conjI TrueI)
       apply (rule schedules_at, simp add: run_defs)
      apply (rule waits_first [where t = "\<lparr>due = 100, job_of = Once f\<rparr>"]; simp add: run_defs)
     apply (rule waits_queue; simp add: run_defs)
    apply (rule schedules_at, simp add: run_defs)
   apply (rule waits_queue; simp add: run_defs)
  apply (rule time_passes, simp)
  done

lemma successively_rtranclp: "successively R (x # xs) \<Longrightarrow> R\<^sup>*\<^sup>* x (last (x # xs))"
  by (induction xs arbitrary: x) (auto intro: converse_rtranclp_into_rtranclp)

lemma late_run_last:
  "last (late_run f g) =
     \<lparr>sched_stop = False, sched_task = True, sched_tasks = [\<lparr>due = 20, job_of = Once g\<rparr>, \<lparr>due = 100, job_of = Once f\<rparr>],
      sched_threads = [Waits_task 100 False, Waits_queue], sched_now = 50, requested = [Once f, Once g],
      scheduled = [\<lparr>due = 100, job_of = Once f\<rparr>, \<lparr>due = 20, job_of = Once g\<rparr>], started = []\<rparr>"
  unfolding late_run_def Let_def last.simps list.distinct if_False
  by (simp add: run_defs eval_nat_numeral)

lemma late_run_started: "started (last (late_run f g)) = []"
  by (simp add: late_run_last)

lemma late_run_reaches: "sched_step\<^sup>*\<^sup>* (new_scheduler 2 0) (last (late_run f g))"
  using late_run_steps [of f g] successively_rtranclp [of sched_step "new_scheduler 2 0"]
  unfolding late_run_def Let_def by blast

subsection \<open>A run with a periodic task\<close>

definition twice_run :: "nat \<Rightarrow> scheduler list" where
  "twice_run f =
     (let s0 = new_scheduler 1 0;
          s1 = schedule_every 0 10 f s0;
          s2 = s1\<lparr>sched_now := sched_now s1 + 10\<rparr>;
          s3 = run_top 0 0 \<lparr>due = 10, job_of = Every 10 f\<rparr> s2;
          s4 = run_done 0 0 \<lparr>due = 10, job_of = Every 10 f\<rparr> s3;
          s5 = s4\<lparr>sched_now := sched_now s4 + 10\<rparr>;
          s6 = run_top 0 0 \<lparr>due = 20, job_of = Once f\<rparr> s5;
          s7 = run_done 0 0 \<lparr>due = 20, job_of = Once f\<rparr> s6
      in [s0, s1, s2, s3, s4, s5, s6, s7])"

lemmas turn_defs = run_defs schedule_every_def run_top_def run_done_def notify_task_def

lemma twice_run_steps: "successively sched_step (twice_run f)"
  unfolding twice_run_def Let_def successively.simps
  apply (intro conjI TrueI)
        apply (rule schedules_every, simp add: turn_defs)
       apply (rule time_passes, simp)
      apply (rule runs; simp add: turn_defs)
     apply (rule finishes; simp add: turn_defs)
    apply (rule time_passes, simp)
   apply (rule runs; simp add: turn_defs)
  apply (rule finishes; simp add: turn_defs)
  done

lemma twice_run_reaches: "sched_step\<^sup>*\<^sup>* (new_scheduler 1 0) (last (twice_run f))"
  using twice_run_steps [of f] successively_rtranclp [of sched_step "new_scheduler 1 0"]
  unfolding twice_run_def Let_def by blast

lemma twice_run_last:
  "requested (last (twice_run f)) = [Every 10 f]" "sched_tasks (last (twice_run f)) = []"
  "sched_threads (last (twice_run f)) = [Ready]"
  unfolding twice_run_def Let_def last.simps list.distinct if_False
  by (simp_all add: turn_defs)

end
