(* ===== verification/Crypto.thy ===== *)
theory Crypto
  imports Uuid Outcome
begin

text \<open>
  Hashing (\<open>include/chord.crypto.h\<close>).  The digest of OpenSSL is the parameter \<open>evp\<close>: starting a
  context, feeding it, reading the digest, each of which can fail (\<open>None\<close>), and the digest of a text
  in one call.  A context is OpenSSL's, of any type.  An identifier is read from the bytes of a
  digest, the first one most significant.  \<open>readsome\<close> gives as much of a file as its buffer says is
  available, the parameter \<open>avail\<close> of what is left, and as fits into the array.
\<close>

record 'c evp =
  evp_init :: "'c option"
  evp_update :: "'c \<Rightarrow> string \<Rightarrow> 'c option"
  evp_final :: "'c \<Rightarrow> (8 word list \<times> 'c) option"
  evp_sha256 :: "string \<Rightarrow> 8 word list"

definition chord_throws :: "'a option \<Rightarrow> 'a outcome" where
  "chord_throws x = (case x of None \<Rightarrow> Throws Chord_exception | Some y \<Rightarrow> Returns y)"

text \<open>\<open>import_bits\<close> of bytes\<close>

definition import_bytes :: "8 word list \<Rightarrow> uuid" where
  "import_bytes bs = words_join (rev bs)"

subsection \<open>The hasher\<close>

record 'c sha256_hasher =
  hasher_context :: 'c
  hasher_hash :: "8 word list"

definition new_hasher :: "'c evp \<Rightarrow> 'c sha256_hasher outcome" where
  "new_hasher E =
     out_bind (chord_throws (evp_init E)) (\<lambda>c. Returns \<lparr>hasher_context = c, hasher_hash = replicate 32 0\<rparr>)"

definition hasher_update :: "'c evp \<Rightarrow> string \<Rightarrow> 'c sha256_hasher \<Rightarrow> 'c sha256_hasher outcome" where
  "hasher_update E input h =
     out_bind (chord_throws (evp_update E (hasher_context h) input)) (\<lambda>c. Returns (h\<lparr>hasher_context := c\<rparr>))"

definition hasher_get :: "'c evp \<Rightarrow> 'c sha256_hasher \<Rightarrow> (uuid \<times> 'c sha256_hasher) outcome" where
  "hasher_get E h =
     out_bind (chord_throws (evp_final E (hasher_context h))) (\<lambda>(bs, c).
     Returns (import_bytes bs, h\<lparr>hasher_context := c, hasher_hash := bs\<rparr>))"

subsection \<open>The functions\<close>

definition sha256_text :: "'c evp \<Rightarrow> string \<Rightarrow> uuid" where
  "sha256_text E str = import_bytes (evp_sha256 E str)"

definition buffer_size :: nat where
  "buffer_size = 4096"

definition readsome :: "(string \<Rightarrow> nat) \<Rightarrow> string \<Rightarrow> string \<times> string" where
  "readsome avail stream =
     (let n = min (avail stream) buffer_size in (take n stream, drop n stream))"

function hash_stream :: "'c evp \<Rightarrow> (string \<Rightarrow> nat) \<Rightarrow> string \<Rightarrow> 'c \<Rightarrow> 'c outcome" where
  "hash_stream E avail stream c =
     (let (read, rest) = readsome avail stream in
      if read = [] then Returns c
      else out_bind (chord_throws (evp_update E c read)) (hash_stream E avail rest))"
  by pat_completeness auto

termination
  by (relation "measure (\<lambda>(E, avail, stream, c). length stream)") (auto simp: readsome_def Let_def)

declare hash_stream.simps [simp del]

definition sha256_stream :: "'c evp \<Rightarrow> (string \<Rightarrow> nat) \<Rightarrow> string \<Rightarrow> uuid outcome" where
  "sha256_stream E avail stream =
     out_bind (chord_throws (evp_init E)) (\<lambda>c.
     out_bind (hash_stream E avail stream c) (\<lambda>c.
     out_bind (chord_throws (evp_final E c)) (\<lambda>(bs, c). Returns (import_bytes bs))))"

text \<open>The handler of a put feeds a hasher chunk by chunk; with the digest read at the end:\<close>

fun feed_hasher :: "'c evp \<Rightarrow> string list \<Rightarrow> 'c sha256_hasher \<Rightarrow> 'c sha256_hasher outcome" where
  "feed_hasher E [] h = Returns h"
| "feed_hasher E (t # ts) h = out_bind (hasher_update E t h) (feed_hasher E ts)"

subsection \<open>All ways agree\<close>

text \<open>What OpenSSL documents: a context has absorbed a text, feeding it appends to that text, and
  the digest is that of the text; a digest has 32 bytes.\<close>

definition evp_laws :: "'c evp \<Rightarrow> ('c \<Rightarrow> string) \<Rightarrow> bool" where
  "evp_laws E absorbed =
     ((\<exists>c. evp_init E = Some c \<and> absorbed c = []) \<and>
      (\<forall>c t. \<exists>c'. evp_update E c t = Some c' \<and> absorbed c' = absorbed c @ t) \<and>
      (\<forall>c. \<exists>c'. evp_final E c = Some (evp_sha256 E (absorbed c), c')) \<and>
      (\<forall>t. length (evp_sha256 E t) = 32))"

lemma evp_lawsD:
  assumes "evp_laws E absorbed"
  shows "\<exists>c. evp_init E = Some c \<and> absorbed c = []"
    "\<exists>c'. evp_update E c t = Some c' \<and> absorbed c' = absorbed c @ t"
    "\<exists>c'. evp_final E c = Some (evp_sha256 E (absorbed c), c')"
    "length (evp_sha256 E t) = 32"
  using assms by (auto simp: evp_laws_def)

lemma readsome_all:
  "0 < avail stream \<Longrightarrow> readsome avail stream = (read, rest) \<Longrightarrow> stream = read @ rest \<and> (read = [] \<longrightarrow> rest = [])"
  by (auto simp: readsome_def Let_def buffer_size_def)

lemma hash_stream_absorbs:
  assumes "evp_laws E absorbed" "\<And>s. s \<noteq> [] \<Longrightarrow> 0 < avail s"
  shows "\<exists>c'. hash_stream E avail stream c = Returns c' \<and> absorbed c' = absorbed c @ stream"
  using assms
proof (induction E avail stream c rule: hash_stream.induct)
  case (1 E avail stream c)
  obtain read rest where r: "readsome avail stream = (read, rest)" by fastforce
  have parts: "stream = read @ rest \<and> (read = [] \<longrightarrow> rest = [])"
    using readsome_all [OF _ r] "1.prems"(2) [of stream] r by (cases "stream = []") (auto simp: readsome_def)
  show ?case
  proof (cases "read = []")
    case False
    obtain c' where "evp_update E c read = Some c'" "absorbed c' = absorbed c @ read"
      using evp_lawsD(2) [OF "1.prems"(1)] by blast
    then show ?thesis
      using "1.IH" [OF r [symmetric] refl False "1.prems", of c'] False r parts
      by (auto simp: hash_stream.simps [of E avail "read @ rest" c] chord_throws_def)
  qed (use r parts in \<open>simp add: hash_stream.simps\<close>)
qed

lemma feed_hasher_absorbs:
  assumes "evp_laws E absorbed"
  shows "\<exists>h'. feed_hasher E ts h = Returns h' \<and> absorbed (hasher_context h') = absorbed (hasher_context h) @ concat ts"
proof (induction ts arbitrary: h)
  case (Cons t ts)
  obtain c' where c': "evp_update E (hasher_context h) t = Some c'" "absorbed c' = absorbed (hasher_context h) @ t"
    using evp_lawsD(2) [OF assms] by blast
  then show ?case using Cons.IH [of "h\<lparr>hasher_context := c'\<rparr>"]
    by (auto simp: hasher_update_def chord_throws_def)
qed simp

lemma sha256_stream_text:
  assumes "evp_laws E absorbed" "\<And>s. s \<noteq> [] \<Longrightarrow> 0 < avail s"
  shows "sha256_stream E avail stream = Returns (sha256_text E stream)"
proof -
  obtain c where c: "evp_init E = Some c" "absorbed c = []" using evp_lawsD(1) [OF assms(1)] by blast
  obtain c' where c': "hash_stream E avail stream c = Returns c'" "absorbed c' = stream"
    using hash_stream_absorbs [where avail = avail and c = c and stream = stream, OF assms] c(2) by auto
  obtain c'' where "evp_final E c' = Some (evp_sha256 E stream, c'')" using evp_lawsD(3) [OF assms(1), of c'] c'(2) by auto
  then show ?thesis using c(1) c'(1) by (simp add: sha256_stream_def chord_throws_def sha256_text_def)
qed

text \<open>The standard lets \<open>readsome\<close> report nothing before the first read; then every file has the
  hash of the empty one.\<close>

lemma nothing_available:
  assumes "evp_laws E absorbed"
  shows "sha256_stream E (\<lambda>_. 0) stream = Returns (sha256_text E [])"
proof -
  obtain c where c: "evp_init E = Some c" "absorbed c = []" using evp_lawsD(1) [OF assms] by blast
  moreover have "hash_stream E (\<lambda>_. 0) stream c = Returns c"
    by (simp add: hash_stream.simps readsome_def)
  moreover obtain c' where "evp_final E c = Some (evp_sha256 E [], c')"
    using evp_lawsD(3) [OF assms, of c] c(2) by auto
  ultimately show ?thesis by (simp add: sha256_stream_def chord_throws_def sha256_text_def)
qed

lemma hasher_text:
  assumes "evp_laws E absorbed"
  shows "\<exists>h h' h''. new_hasher E = Returns h \<and> feed_hasher E ts h = Returns h' \<and>
    hasher_get E h' = Returns (sha256_text E (concat ts), h'')"
proof -
  obtain c where c: "evp_init E = Some c" "absorbed c = []" using evp_lawsD(1) [OF assms] by blast
  let ?h = "\<lparr>hasher_context = c, hasher_hash = replicate 32 0\<rparr>"
  obtain h' where h': "feed_hasher E ts ?h = Returns h'" "absorbed (hasher_context h') = concat ts"
    using feed_hasher_absorbs [OF assms, of ts ?h] c(2) by auto
  obtain c'' where "evp_final E (hasher_context h') = Some (evp_sha256 E (concat ts), c'')"
    using evp_lawsD(3) [OF assms, of "hasher_context h'"] h'(2) by auto
  then show ?thesis using c(1) h'(1)
    by (simp add: new_hasher_def hasher_get_def chord_throws_def sha256_text_def)
qed

text \<open>An identifier holds the whole digest.\<close>

lemma words_join_inj:
  fixes ws vs :: "'a::len word list"
  assumes "(words_join ws :: 'b::len word) = words_join vs" "length ws = length vs" "length ws * LENGTH('a) \<le> LENGTH('b)"
  shows "ws = vs"
proof (rule nth_equalityI)
  fix i assume i: "i < length ws"
  show "ws ! i = vs ! i"
  proof (rule bit_word_eqI)
    fix m assume m: "m < LENGTH('a)"
    let ?n = "i * LENGTH('a) + m"
    have "Suc i * LENGTH('a) \<le> length ws * LENGTH('a)" using i by (intro mult_le_mono1) simp
    then have "?n < LENGTH('b)" using m assms(3) by simp
    moreover have "?n div LENGTH('a) = i" "?n mod LENGTH('a) = m" using m by simp_all
    ultimately show "bit (ws ! i) m = bit (vs ! i) m"
      using arg_cong [OF assms(1), of "\<lambda>w. bit w ?n"] i assms(2) by (simp add: bit_words_join)
  qed
qed (rule assms(2))

lemma import_bytes_inj:
  "import_bytes bs = import_bytes cs \<Longrightarrow> length bs = 32 \<Longrightarrow> length cs = 32 \<Longrightarrow> bs = cs"
  using words_join_inj [of "rev bs" "rev cs", where 'b = 256] by (simp add: import_bytes_def)

lemma sha256_text_eq:
  assumes "evp_laws E absorbed"
  shows "sha256_text E s = sha256_text E t \<longleftrightarrow> evp_sha256 E s = evp_sha256 E t"
  using import_bytes_inj evp_lawsD(4) [OF assms] by (auto simp: sha256_text_def)

text \<open>A digest that counts characters\<close>

definition counting :: "string evp" where
  "counting =
     \<lparr>evp_init = Some [], evp_update = (\<lambda>c t. Some (c @ t)),
      evp_final = (\<lambda>c. Some (replicate 31 0 @ [of_nat (length c)], c)),
      evp_sha256 = (\<lambda>t. replicate 31 0 @ [of_nat (length t)])\<rparr>"

lemma counting_laws: "evp_laws counting (\<lambda>c. c)"
  by (simp add: evp_laws_def counting_def)

end
