(* ===== verification/Queues.thy ===== *)
theory Queues
  imports Outcome
begin

text \<open>
  The two blocking queues (\<open>include/chord.queue.h\<close>, \<open>include/chord.concurrent.queue.h\<close>).  Threads
  call \<open>push\<close> and \<open>pop\<close> under a mutex, so that what a call does between taking and giving back the
  mutex is one step; \<open>pop\<close> waits on a condition while the queue is empty.  A thread that is notified,
  or wakes up without reason, takes the mutex again and looks once more.  The values pushed and
  the values delivered are recorded.
\<close>

record 'a blocking_queue =
  q_items :: "'a list"
  q_asleep :: "nat list"
  q_woken :: "nat list"
  q_pushed :: "'a list"
  q_delivered :: "(nat \<times> 'a) list"

definition new_queue :: "'a blocking_queue" where
  "new_queue = \<lparr>q_items = [], q_asleep = [], q_woken = [], q_pushed = [], q_delivered = []\<rparr>"

text \<open>\<open>notify_one\<close> wakes one of the threads asleep, \<open>i\<close>, if there is any.\<close>

definition notify_one :: "nat \<Rightarrow> 'a blocking_queue \<Rightarrow> 'a blocking_queue" where
  "notify_one i q =
     (if q_asleep q = [] then q
      else q\<lparr>q_asleep := remove1 i (q_asleep q), q_woken := i # q_woken q\<rparr>)"

definition queue_push :: "nat \<Rightarrow> 'a \<Rightarrow> 'a blocking_queue \<Rightarrow> 'a blocking_queue" where
  "queue_push i item q =
     notify_one i (q\<lparr>q_items := q_items q @ [item], q_pushed := q_pushed q @ [item]\<rparr>)"

text \<open>One turn of the loop of \<open>pop\<close> in thread \<open>t\<close>, which is neither asleep nor woken any more.\<close>

definition queue_pop :: "nat \<Rightarrow> 'a blocking_queue \<Rightarrow> 'a blocking_queue" where
  "queue_pop t q =
     (case q_items q of
        [] \<Rightarrow> q\<lparr>q_asleep := t # q_asleep q\<rparr>
      | x # xs \<Rightarrow> q\<lparr>q_items := xs, q_delivered := q_delivered q @ [(t, x)]\<rparr>)"

definition queue_empty :: "'a blocking_queue \<Rightarrow> bool" where
  "queue_empty q = (q_items q = [])"

inductive queue_step :: "'a blocking_queue \<Rightarrow> 'a blocking_queue \<Rightarrow> bool" where
  pushes: "q_asleep q = [] \<or> i \<in> set (q_asleep q) \<Longrightarrow> queue_step q (queue_push i item q)"
| pops: "t \<notin> set (q_asleep q) \<union> set (q_woken q) \<Longrightarrow> queue_step q (queue_pop t q)"
| wakes: "t \<in> set (q_woken q) \<Longrightarrow> queue_step q (queue_pop t (q\<lparr>q_woken := remove1 t (q_woken q)\<rparr>))"
| wakes_up_alone:
    "t \<in> set (q_asleep q) \<Longrightarrow> queue_step q (queue_pop t (q\<lparr>q_asleep := remove1 t (q_asleep q)\<rparr>))"

text \<open>Values come out in the order they went in, and while a thread sleeps there are no more values
  than threads on their way to take one: no wake-up is lost.\<close>

definition queue_ok :: "'a blocking_queue \<Rightarrow> bool" where
  "queue_ok q =
     (q_pushed q = map snd (q_delivered q) @ q_items q \<and>
      (q_asleep q \<noteq> [] \<longrightarrow> length (q_items q) \<le> length (q_woken q)))"

lemma queue_step_ok: "queue_step q q' \<Longrightarrow> queue_ok q \<Longrightarrow> queue_ok q'"
proof (induction rule: queue_step.induct)
  case (wakes t q)
  have "length (q_woken q) = Suc (length (remove1 t (q_woken q)))"
    using wakes.hyps length_pos_if_in_set [OF wakes.hyps] by (simp add: length_remove1)
  then show ?case using wakes.prems by (auto simp: queue_pop_def queue_ok_def split: list.split)
qed (auto simp: queue_ok_def queue_push_def notify_one_def queue_pop_def split: list.splits)

lemma queue_steps_ok: "queue_step\<^sup>*\<^sup>* new_queue q \<Longrightarrow> queue_ok q"
  by (induction rule: rtranclp_induct) (auto simp: queue_step_ok, simp add: new_queue_def queue_ok_def)

text \<open>\<open>ConcurrentQueue::pop\<close> keeps a reference to the front, removes the front and returns what the
  reference leads to, which is gone: there is no defined value.\<close>

definition concurrent_pop :: "nat \<Rightarrow> 'a blocking_queue \<Rightarrow> unit outcome \<times> 'a blocking_queue" where
  "concurrent_pop t q =
     (case q_items q of
        [] \<Rightarrow> (Returns (), q\<lparr>q_asleep := t # q_asleep q\<rparr>)
      | x # xs \<Rightarrow> (Undefined, q\<lparr>q_items := xs\<rparr>))"

lemma concurrent_pop_undefined: "\<not> queue_empty q \<Longrightarrow> fst (concurrent_pop t q) = Undefined"
  by (cases "q_items q") (simp_all add: queue_empty_def concurrent_pop_def)

end
