(* ===== verification/Archive.thy ===== *)
theory Archive
  imports Metadata
begin

text \<open>
  Writing metadata to the database and reading it back (\<open>serialize\<close> in
  \<open>include/chord.fs.metadata.h\<close>, \<open>include/chord.optional.serialization.h\<close>).  The archive of Boost
  is a parameter: how texts, flags and numbers of a width are written and read from the front of
  what was written, a sequence of whole values.  The class version of an optional, which Boost writes once, is
  1, so that \<open>load\<close> reads no item version.
\<close>

type_synonym ('t, 'a) reader = "'t list \<Rightarrow> ('a \<times> 't list) outcome"

record 't archive =
  put_text :: "string \<Rightarrow> 't list"
  get_text :: "('t, string) reader"
  put_flag :: "bool \<Rightarrow> 't list"
  get_flag :: "('t, bool) reader"
  put_number :: "nat \<Rightarrow> int \<Rightarrow> 't list"
  get_number :: "nat \<Rightarrow> ('t, int) reader"

text \<open>What Boost documents: what was written is read back, and the rest of the archive is left.\<close>

definition archive_laws :: "'t archive \<Rightarrow> bool" where
  "archive_laws A =
     ((\<forall>x ar. get_text A (put_text A x @ ar) = Returns (x, ar)) \<and>
      (\<forall>x ar. get_flag A (put_flag A x @ ar) = Returns (x, ar)) \<and>
      (\<forall>w n ar. 0 \<le> n \<longrightarrow> n < 2 ^ w \<longrightarrow> get_number A w (put_number A w n @ ar) = Returns (n, ar)))"

lemma archive_lawsD:
  assumes "archive_laws A"
  shows "get_text A (put_text A x @ ar) = Returns (x, ar)"
    "get_flag A (put_flag A b @ ar) = Returns (b, ar)"
    "0 \<le> n \<Longrightarrow> n < 2 ^ w \<Longrightarrow> get_number A w (put_number A w n @ ar) = Returns (n, ar)"
  using assms by (auto simp: archive_laws_def)

subsection \<open>Numbers and optional values\<close>

definition write_word :: "'t archive \<Rightarrow> 'a::len word \<Rightarrow> 't list" where
  "write_word A w = put_number A LENGTH('a) (uint w)"

definition read_word :: "'t archive \<Rightarrow> ('t, 'a::len word) reader" where
  "read_word A ar = out_bind (get_number A LENGTH('a) ar) (\<lambda>(n, ar). Returns (word_of_int n, ar))"

definition save_optional :: "'t archive \<Rightarrow> ('a \<Rightarrow> 't list) \<Rightarrow> 'a option \<Rightarrow> 't list" where
  "save_optional A f t = (case t of None \<Rightarrow> put_flag A False | Some x \<Rightarrow> put_flag A True @ f x)"

definition load_optional :: "'t archive \<Rightarrow> ('t, 'a) reader \<Rightarrow> ('t, 'a option) reader" where
  "load_optional A f ar =
     out_bind (get_flag A ar) (\<lambda>(tflag, ar).
     if \<not> tflag then Returns (None, ar)
     else out_bind (f ar) (\<lambda>(x, ar). Returns (Some x, ar)))"

lemma read_write_word: "archive_laws A \<Longrightarrow> read_word A (write_word A w @ ar) = Returns (w, ar)"
  by (simp add: read_word_def write_word_def archive_lawsD(3))

lemma load_save_optional:
  "archive_laws A \<Longrightarrow> (\<And>x ar. f (g x @ ar) = Returns (x, ar)) \<Longrightarrow>
    load_optional A f (save_optional A g t @ ar) = Returns (t, ar)"
  by (cases t) (simp_all add: load_optional_def save_optional_def archive_lawsD(2))

subsection \<open>Identifiers, nodes and replications\<close>

definition save_uuid :: "'t archive \<Rightarrow> uuid \<Rightarrow> 't list" where
  "save_uuid A u = write_word A u"

definition load_uuid :: "'t archive \<Rightarrow> ('t, uuid) reader" where
  "load_uuid A = read_word A"

definition save_node :: "'t archive \<Rightarrow> node \<Rightarrow> 't list" where
  "save_node A n = save_uuid A (node_uuid n) @ put_text A (node_endpoint n)"

definition load_node :: "'t archive \<Rightarrow> ('t, node) reader" where
  "load_node A ar =
     out_bind (load_uuid A ar) (\<lambda>(u, ar).
     out_bind (get_text A ar) (\<lambda>(e, ar). Returns (\<lparr>node_uuid = u, node_endpoint = e\<rparr>, ar)))"

definition save_replication :: "'t archive \<Rightarrow> replication \<Rightarrow> 't list" where
  "save_replication A r = write_word A (repl_index r) @ write_word A (repl_count r)"

definition load_replication :: "'t archive \<Rightarrow> ('t, replication) reader" where
  "load_replication A ar =
     out_bind (read_word A ar) (\<lambda>(i, ar).
     out_bind (read_word A ar) (\<lambda>(c, ar). Returns (\<lparr>repl_index = i, repl_count = c\<rparr>, ar)))"

lemma load_save_parts:
  assumes "archive_laws A"
  shows "load_uuid A (save_uuid A u @ ar) = Returns (u, ar)"
    "load_node A (save_node A n @ ar) = Returns (n, ar)"
    "load_replication A (save_replication A r @ ar) = Returns (r, ar)"
  by (simp_all add: load_uuid_def save_uuid_def load_node_def save_node_def load_replication_def
      save_replication_def read_write_word assms archive_lawsD(1) [OF assms])

subsection \<open>Metadata\<close>

definition save_metadata :: "'t archive \<Rightarrow> metadata \<Rightarrow> 't list" where
  "save_metadata A m =
     put_text A (meta_name m) @ write_word A (meta_file_type m) @ write_word A (meta_file_size m) @
     put_text A (meta_owner m) @ put_text A (meta_group m) @ write_word A (meta_permissions m) @
     save_optional A (save_node A) (meta_node_ref m) @ save_replication A (meta_replication m) @
     save_optional A (save_uuid A) (meta_file_hash m)"

definition load_metadata :: "'t archive \<Rightarrow> ('t, metadata) reader" where
  "load_metadata A ar =
     out_bind (get_text A ar) (\<lambda>(name, ar).
     out_bind (read_word A ar) (\<lambda>(t, ar).
     out_bind (read_word A ar) (\<lambda>(size, ar).
     out_bind (get_text A ar) (\<lambda>(owner, ar).
     out_bind (get_text A ar) (\<lambda>(grp, ar).
     out_bind (read_word A ar) (\<lambda>(p, ar).
     out_bind (load_optional A (load_node A) ar) (\<lambda>(ref, ar).
     out_bind (load_replication A ar) (\<lambda>(r, ar).
     out_bind (load_optional A (load_uuid A) ar) (\<lambda>(h, ar).
     Returns
       (\<lparr>meta_name = name, meta_owner = owner, meta_group = grp, meta_permissions = p, meta_file_type = t,
         meta_file_size = size, meta_file_hash = h, meta_node_ref = ref, meta_replication = r\<rparr>, ar))))))))))"

lemma load_save_metadata:
  assumes "archive_laws A"
  shows "load_metadata A (save_metadata A m @ ar) = Returns (m, ar)"
  by (simp add: load_metadata_def save_metadata_def load_save_optional load_save_parts read_write_word
      assms archive_lawsD(1) [OF assms])

subsection \<open>An archive of typed values\<close>

datatype atom = Text_value string | Flag_value bool | Number_value int

fun atom_text :: "(atom, string) reader" where
  "atom_text (Text_value t # ar) = Returns (t, ar)"
| "atom_text _ = Throws Std_exception"

fun atom_flag :: "(atom, bool) reader" where
  "atom_flag (Flag_value b # ar) = Returns (b, ar)"
| "atom_flag _ = Throws Std_exception"

fun atom_number :: "nat \<Rightarrow> (atom, int) reader" where
  "atom_number w (Number_value n # ar) =
     (if 0 \<le> n \<and> n < 2 ^ w then Returns (n, ar) else Throws Std_exception)"
| "atom_number w _ = Throws Std_exception"

definition atoms :: "atom archive" where
  "atoms =
     \<lparr>put_text = (\<lambda>t. [Text_value t]), get_text = atom_text, put_flag = (\<lambda>b. [Flag_value b]),
      get_flag = atom_flag, put_number = (\<lambda>_ n. [Number_value n]), get_number = atom_number\<rparr>"

lemma atoms_laws: "archive_laws atoms"
  by (simp add: archive_laws_def atoms_def)

end
