(* ===== verification/Spec2Isabelle.thy ===== *)
theory Spec2Isabelle
  imports Lru Growth Handlers Fs_Ring Example_Fuse Departure Process Log_Factory Scheduler Crypto Queues Archive
begin

text \<open>
  \<^bold>\<open>chord: a peer-to-peer file system on a ring.\<close>

  \<^bold>\<open>The program.\<close>  A process is a peer of a Chord ring: identifiers of 256 bits form a circle, every
  peer knows its predecessor and a table of fingers, and a lookup is passed from peer to peer
  until it reaches the one responsible for an identifier.  On the ring lies a file system: the
  metadata of a directory and the bytes of a file live at the peer responsible for the hash of
  their uri, and are copied to the peers that follow.  A process answers calls of other peers
  (gRPC services), commands of its users (the controller), callbacks of the kernel (libfuse) and
  events of its own data directory (the monitor), and runs periodic tasks (the scheduler).

  \<^bold>\<open>How code is written here.\<close>  A function of the code that changes state is a function from the state
  to an outcome and a new state, or to \<open>None\<close> when it does not come back (\<open>Run\<close>): the outcome is
  a value, an exception, or \<open>Undefined\<close> where C++ gives no behaviour.  The ring keeps all
  peers in one state (\<open>Peers.world\<close>), the file system all processes (\<open>Fs_Peers.fs_world\<close>), and
  a remote call runs the handler of the target on that state.  Integers of fixed width are
  words; sets and maps of the standard library are sorted lists (\<open>Prelude\<close>).

  \<^bold>\<open>The ring.\<close>
  \<^item> \<open>Uuid\<close> (\<open>include/chord.uuid.h\<close>, \<open>chord.node.h\<close>): intervals of the ring as clockwise distances;
    identifiers drawn at random.  \<open>Context\<close>, \<open>Path\<close>: settings of a peer and paths.
  \<^item> \<open>Router\<close> (\<open>src/chord.router.cc\<close>) is the table: \<open>update\<close>, \<open>remove\<close>, \<open>closest_preceding_nodes\<close>.
    \<open>Fingers\<close> proves its invariant \<open>router_wf\<close>, what removing does, that updating in any order
    gives the best table, and that the nearest preceding node comes first.
  \<^item> \<open>Messages\<close>, \<open>Client\<close>, \<open>Service\<close>, \<open>Chord_Facade\<close> (the protocol files, \<open>src/chord.client.cc\<close>,
    \<open>src/chord.service.cc\<close>, \<open>src/chord.facade.cc\<close>): requests, calls, handlers, and starting, joining,
    leaving and the tasks.  They are written for any stubs; \<open>Network\<close> closes them: \<open>network t d\<close>
    lets calls nest at most \<open>d\<close> deep, and is \<open>None\<close> beyond.
  \<^item> \<open>Protocol\<close>: the locale \<open>stub_contract\<close> is what a peer may expect of others; the network keeps
    it, so that every reachable state (\<open>ring_step\<close>) has well-formed tables.
  \<^item> \<open>Ring\<close> defines two kinds of rings.  In a \<open>linked\<close> one every member knows the next and the last
    member, and no one but members; in a \<open>stable\<close> one every table is the best one.  In a stable
    ring each forwarding halves the clockwise distance, so that 256 forwardings and two more
    calls, a depth of 258, suffice for any number of members; in a linked ring every forwarding
    passes at least one member, and the number of members is deep enough (\<open>Linked\<close>).
  \<^item> \<open>Ring_Tasks\<close>, \<open>Maintenance\<close>: the periodic tasks keep a ring linked and leave a stable one as it
    is; taking turns often enough, they make a linked ring stable.  \<open>First_Join\<close>, \<open>Growth\<close>: the
    first join gives a stable ring of two, and every further join a linked one, so that peers
    started one after another form a linked ring.  \<open>Departure\<close>: a member that leaves a linked
    ring is gone from the tables of its neighbours.  \<open>Handlers\<close>: single handlers.

  \<^bold>\<open>The file system.\<close>
  \<^item> \<open>File_System\<close> (\<open>src/chord.file.cc\<close>) is the disk, a sorted map from resolved paths to files and
    directories, and the operations called on it.  There are no links, and names are kept whole:
    what a path with a NUL character opens is told by \<open>c_str\<close>.  \<open>Text\<close>, \<open>Uri\<close>: numbers and uris as text.
  \<^item> \<open>Metadata\<close>, \<open>Metadata_Manager\<close>, \<open>Metadata_Builder\<close>, \<open>Context_Metadata\<close>, \<open>Replication\<close>
    (\<open>src/chord.fs.metadata.cc\<close>, \<open>include/chord.fs.metadata.manager.h\<close>,
    \<open>include/chord.fs.metadata.builder.h\<close>, \<open>src/chord.fs.context.metadata.cc\<close>,
    \<open>src/chord.fs.replication.cc\<close>): entries, the database, conversions, and what calls carry.
    The locale \<open>metadata_store\<close> is what the file system needs of the database.
  \<^item> \<open>Fs_Peers\<close>, \<open>Fs_Client\<close>, \<open>Fs_Service\<close>, \<open>Fs_Facade\<close>, \<open>Fs_Network\<close> (\<open>src/chord.fs.client.cc\<close>,
    \<open>src/chord.fs.service.cc\<close>, \<open>src/chord.fs.facade.cc\<close>): calls, handlers, the operations of users
    and the reactions to the ring.  \<open>Fs_Transfer\<close> follows the bytes of a file through a put and a
    get.  \<open>Fs_Invariant\<close> shows that all of it keeps databases and disks well-formed, through the
    locales \<open>meta_invariant\<close>, \<open>meta_contract\<close>, \<open>store_invariant\<close> and \<open>store_contract\<close>.
  \<^item> \<open>Fs_Ring\<close>: whatever the processes call, a linked ring stays linked while its members are up, so
    that all agree on the member responsible for a file, and no call is heard by a listener of the
    ring's signals.
  \<^item> \<open>Monitor\<close> (\<open>src/chord.fs.monitor.cc\<close>), \<open>Lru\<close> (\<open>include/chord.lru.cache.h\<close>, the locale \<open>cache\<close>).
  \<^item> \<open>Crypto\<close> (\<open>include/chord.crypto.h\<close>): hashing texts, streams and chunks.  \<open>Archive\<close>
    (\<open>include/chord.optional.serialization.h\<close> and \<open>serialize\<close> in \<open>include/chord.fs.metadata.h\<close>):
    what the database keeps of an entry.

  \<^bold>\<open>The process.\<close>
  \<^item> \<open>Fuse\<close> (\<open>fuse/chord.fuse.adapter.cc\<close>): the callbacks of the kernel.  \<open>Controller\<close>
    (\<open>src/chord.controller.service.cc\<close>): the commands of users.
  \<^item> \<open>Config\<close> (\<open>src/chord.context.manager.cc\<close>): the configuration file.  \<open>Log\<close>, \<open>Log_Factory\<close>
    (\<open>src/chord.log.cc\<close>, \<open>src/chord.log.factory.cc\<close>): settings of loggers, and making loggers from
    them.  \<open>Program\<close> (\<open>src/chord.utils.cc\<close>, \<open>src/node/node.cc\<close>): program options and \<open>main\<close>.
  \<^item> \<open>Process\<close> (\<open>src/chord.peer.cc\<close>, \<open>src/chord.shutdown.handler.cc\<close>): the life of a peer.  In the code
    a listener runs where the signal is sent.  Here what a peer signals to itself while it starts or
    leaves is handled at the end of that call; what lookups within other calls and the tasks signal
    stays recorded, and the reactions to it are steps of the system (\<open>fs_step\<close>) of their own, taken
    in any order.  The two agree where nothing with a listener is signalled: on linked rings whose
    members stay up.  Commands and starting are sequences of steps of the system, and leaving keeps
    databases and disks well-formed.  \<open>Upnp\<close> (\<open>src/chord.upnp.cc\<close>): forwarding a port, before the start.
  \<^item> \<open>Scheduler\<close> (\<open>include/chord.scheduler.h\<close>): a step relation between threads.  \<open>Queues\<close>
    (\<open>include/chord.queue.h\<close>, \<open>include/chord.concurrent.queue.h\<close>): the two blocking queues, which
    the rest of the program does not use: values come out in order, and no wake-up is lost.
  \<^item> \<open>Example\<close>, \<open>Example_Fs\<close> and \<open>Example_Fuse\<close> are the concrete states the witnesses use.

  \<^bold>\<open>Loops and depth.\<close>  Loops that may run for ever are \<open>partial_function (option)\<close>: the loop that pings
  successors ends in every state with a well-formed table, eviction ends when the cache is
  consistent, and a get of the root directory is shown not to end.  The depth of nested calls is
  a parameter of every theorem; those that claim a result name a depth that is enough, those
  about invariants hold for any depth.

  \<^bold>\<open>Parameters.\<close>  \<open>transport\<close> and the record \<open>fs_env\<close> hold the outside: who answers at an address, the
  hash, the parser of identifiers, the stubs.  \<open>regex_minus\<close> is \<open>std::regex\<close>, \<open>option_parser\<close> Boost's
  option parser, \<open>yaml_conversions\<close> the YAML library, \<open>sorter\<close> is \<open>std::sort\<close>, of which only a sorted
  permutation is known; \<open>fuse_taken\<close> is how many bytes of a write the kernel takes.  The levels of spdlog and the search of a regular expression are
  arguments of the logger factory; \<open>evp\<close> is OpenSSL, \<open>archive\<close> Boost's serialisation and
  \<open>upnp_library\<close> miniupnpc.  \<open>evp_laws\<close> and \<open>archive_laws\<close> say what is relied on.  Joining and leaving are
  shown for rings on one host (\<open>one_host\<close>): the code takes the host of some peers from what gRPC
  says of the caller.

  \<^bold>\<open>Not modelled.\<close>  What is written to the log, the texts of exceptions, deadlines of calls, symbolic
  links, and the former FUSE program \<open>fuse/fuse.cc\<close>, all of which is a comment.  Calls of the ring and of the
  file system run one after the other: interleavings inside a handler are not modelled; the
  threads of the scheduler and of the queues are.  The locks of the monitor are modelled in
  \<open>Monitor\<close>, but not what fswatch reports for the writes of a handler.
\<close>

section \<open>The ring\<close>

text \<open>C1: In a stable ring, a lookup started at any member for an identifier no member carries
  comes back, at a nesting depth of 258 calls or more, with the member responsible for the
  identifier, and changes nothing in any peer.\<close>

theorem lookup_finds_responsible:
  assumes "stable w N" "x \<in> N" "u \<notin> node_uuid ` N" "258 \<le> d"
  shows "\<exists>n. responsible N u n \<and>
    facade_successor (network t d) (node_endpoint x) u w = Some (Returns n, w)"
proof -
  obtain n where "responsible N u n"
    "service_successor_id (network t d) (node_endpoint x) u w = Some (Returns n, w)"
    using stable_service_successor_id [OF assms] by blast
  then show ?thesis by (intro exI [of _ n]) (simp add: facade_successor_def)
qed

theorem lookup_finds_responsible_witness:
  "\<exists>n. responsible {node_a, node_b} 500 n \<and>
    facade_successor (network example_transport 258) (node_endpoint node_a) 500 example_ring =
      Some (Returns n, example_ring)"
  by (rule lookup_finds_responsible [OF example_stable]) simp_all

text \<open>C32: A lookup of the identifier the peer's own successor carries never comes back, however
  deep calls may nest: the identifier is not strictly between the peer and its successor, no
  finger precedes it, and the peer forwards the request to itself.\<close>

theorem lookup_of_successor_never_returns:
  assumes "router_wf (self_ctx me w) (self_router me w)"
    and "self_successor me w = Some s" "alive w (node_endpoint s)"
    and "ctx_advertise_addr (self_ctx me w) = me" "alive w me"
  shows "facade_successor (network t d) me (node_uuid s) w = None"
  using successor_lookup_diverges [OF assms]
  by (simp add: facade_successor_def service_successor_id_def)

theorem lookup_of_successor_never_returns_witness:
  "facade_successor (network example_transport 1000) ''ipv4:10.0.0.1:5001'' 1000 example_ring = None"
  using lookup_of_successor_never_returns [of "''ipv4:10.0.0.1:5001''" example_ring node_b example_transport 1000]
    member_wf [OF stable_member [OF example_stable, of node_a]]
  by simp

text \<open>C15: A stable ring is a fixed point of what its members do periodically: stabilising and
  checking the predecessor change nothing, and fixing a finger whose start is not a member's
  identifier changes nothing either.\<close>

theorem stable_ring_fixed_point:
  assumes "stable w N" "x \<in> N" "N \<noteq> {x}" "258 \<le> d"
    and "calc_successor_uuid_for_index (node_uuid x) i \<notin> node_uuid ` N"
  shows "facade_stabilize (network t d) (node_endpoint x) w = Some (Returns (), w) \<and>
    facade_check_predecessor (network t d) (node_endpoint x) w = Some (Returns (), w) \<and>
    facade_fix_fingers (network t d) (node_endpoint x) i w = Some (Returns (), w)"
proof -
  obtain e where d: "d = Suc e" using assms(4) by (cases d) auto
  obtain s where s: "self_successor (node_endpoint x) w = Some s"
    using stable_successor [OF assms(1,2)] assms(3) by (auto split: option.splits)
  have "facade_stabilize (network t d) (node_endpoint x) w = Some (Returns (), w)"
    using stable_stabilize [OF assms(1,2) s] s
    by (simp add: facade_stabilize_def d has_successor_def entry_valid_def self_successor_def
        router_successor_def)
  moreover have "facade_check_predecessor (network t d) (node_endpoint x) w = Some (Returns (), w)"
    using stable_check [OF assms(1,2)] by (simp add: facade_check_predecessor_def d)
  ultimately show ?thesis using stable_fix_fingers [OF assms(1,2,4,5)] by simp
qed

theorem stable_ring_fixed_point_witness:
  "facade_stabilize (network example_transport 258) (node_endpoint node_a) example_ring =
      Some (Returns (), example_ring) \<and>
    facade_check_predecessor (network example_transport 258) (node_endpoint node_a) example_ring =
      Some (Returns (), example_ring) \<and>
    facade_fix_fingers (network example_transport 258) (node_endpoint node_a) 1 example_ring =
      Some (Returns (), example_ring)"
  by (rule stable_ring_fixed_point [OF example_stable])
    (simp_all add: doubleton_eq_iff calc_successor_uuid_for_index_def uuid_max_def)

text \<open>C9: In every store the system reaches from freshly started processes - by starting,
  joining, the periodic tasks, calls from anybody, leaving and crashes - the routing table of
  every process that is alive is well-formed: finger starts are right, every finger points
  beyond its start, fingers are in ring order without a gap below a valid one, and only an
  empty table has no predecessor.\<close>

theorem reachable_tables_well_formed:
  assumes "booted w" "(ring_step t)\<^sup>*\<^sup>* w w'" "alive w' x"
  shows "router_wf (self_ctx x w') (self_router x w')"
  using reachable_rings_ok [OF assms(2) booted_rings_ok [OF assms(1)]] assms(3)
  by (simp add: rings_ok_def)

theorem reachable_tables_well_formed_witness:
  "router_wf (self_ctx ''ipv4:10.0.0.1:5001'' (crash ''ipv4:10.0.0.1:5002'' example_boot)) (self_router ''ipv4:10.0.0.1:5001'' (crash ''ipv4:10.0.0.1:5002'' example_boot))"
  by (rule reachable_tables_well_formed [OF example_booted])
    (auto intro: r_into_rtranclp [of "ring_step example_transport", OF dies])

text \<open>C10: Whoever answers a join request, and however often it was forwarded, a successful
  answer names a predecessor and a successor with the joining identifier strictly between
  them.\<close>

theorem join_answer_places_joiner:
  assumes "stub_join (network t d) a b req w = Some ((OK, res), w')"
  shows "\<exists>p s. jres_predecessor res = Some p \<and> jres_successor res = Some s \<and>
    between (node_uuid p) (node_uuid (header_entry (jreq_header req))) (node_uuid s)"
  using network_join_placed [OF assms] by (auto simp: placed_def joining_uuid_def split: option.splits)

theorem join_answer_places_joiner_witness:
  "between 10 1000 (10 :: uuid)"
proof -
  have ok: "first_join_ok example_transport node_a node_b example_boot"
    using example_booted example_spaced
    by (simp add: first_join_ok_def self_node_def same_host_def before_last_def example_transport_def)
  show ?thesis
    using join_answer_places_joiner [OF first_join_answer [OF ok, of 0]]
    by (simp add: join_reply_def header_entry_def make_header_def entry_of_def)
qed

text \<open>C8: In a ring whose members know their neighbours, and possibly nothing else that is right, a
  lookup comes back with the responsible member at a nesting depth of one more than the number of
  members, and the ring is still such a ring: members only learned of members on the way.\<close>

theorem lookup_in_linked_ring:
  assumes "linked w N" "x \<in> N" "u \<notin> node_uuid ` N" "card N < d"
  shows "\<exists>n w'. responsible N u n \<and> linked w' N \<and>
    facade_successor (network t d) (node_endpoint x) u w = Some (Returns n, w')"
  using linked_facade_successor [OF assms] linked_learns [OF _ assms(1)] by blast

theorem lookup_in_linked_ring_witness:
  "\<exists>n w'. responsible {node_a, node_b} 500 n \<and> linked w' {node_a, node_b} \<and>
    facade_successor (network example_transport 3) (node_endpoint node_a) 500 example_newcomer =
      Some (Returns n, w')"
  by (rule lookup_in_linked_ring [OF example_newcomer_linked]) simp_all

text \<open>C7: A fresh peer that joins such a ring through any member comes back without an error as a
  member of it: its request reaches the two members it belongs between, however far away the member
  it asks, and afterwards all three know their new neighbours.  This holds on one host only, and
  when the members advertise it as gRPC names a caller (\<open>ipv4:ADDRESS:PORT\<close>): a server replaces
  the host of every node it is told of by that of the caller.\<close>

theorem join_extends_ring:
  assumes "linked w N" "joiner_ok N x w" "one_host t (insert x N)" "Suc (card N) < d"
  shows "\<exists>w'. facade_join (network t d) (node_endpoint x) w = Some (Returns (), w') \<and> linked w' (insert x N)"
  using linked_join [OF assms] by blast

theorem join_extends_ring_witness:
  "\<exists>w'. facade_join (network example_transport 4) (node_endpoint node_c) example_newcomer = Some (Returns (), w') \<and>
    linked w' {node_c, node_a, node_b}"
  by (rule join_extends_ring [OF example_newcomer_linked example_joiner example_host]) simp

text \<open>C5: Peers started one after another, the first one bootstrapping and every other one joining
  through a peer started before it, form a ring in which every member knows its neighbours -
  provided that all of them run on one host and advertise it as gRPC names a caller
  (\<open>ipv4:ADDRESS:PORT\<close>), because a server replaces the host of every node it is told of.\<close>

theorem started_peers_form_ring:
  assumes "launch_ok w a xs" "one_host t (set (a # xs))" "Suc (length xs) < d"
  shows "\<exists>w'. for_each (a # xs) (\<lambda>x. start_peer (network t d) (node_endpoint x)) w = Some (Returns (), w') \<and>
    linked w' (set (a # xs))"
  using assms by (rule ring_starts)

theorem started_peers_form_ring_witness:
  "\<exists>w'. for_each [node_a, node_b, node_c] (\<lambda>x. start_peer (network example_transport 4) (node_endpoint x))
      example_launch = Some (Returns (), w') \<and> linked w' {node_a, node_b, node_c}"
  using started_peers_form_ring [OF example_launch_ok, of example_transport 4] example_host
  by (simp add: insert_commute)

text \<open>C6: When the members of such a ring take turns with their periodic tasks and lookups in any
  order, and every member gets to fix a finger 256 times, the ring becomes stable, whatever the
  other fingers were before - as long as no finger starts at a member's identifier, where the
  lookup would not come back.  (How often the scheduler really runs a task is another matter.)\<close>

theorem tasks_make_ring_stable:
  assumes "linked w N" "\<And>x. N \<noteq> {x}" "card N < d" "clear_starts N" "\<forall>q\<in>set turns. turn_ok N q"
    and "\<forall>x\<in>N. BITS \<le> count_list turns (Fixes (node_endpoint x))"
  shows "\<exists>w'. for_each turns (take_turn (network t d)) w = Some (Returns (), w') \<and> stable w' N"
  using assms by (rule linked_settles)

theorem tasks_make_ring_stable_witness:
  "\<exists>w'. for_each (Looks_up ''ipv4:10.0.0.1:5002'' 500 # replicate 256 (Fixes ''ipv4:10.0.0.1:5001'') @ Stabilizes ''ipv4:10.0.0.1:5001'' # replicate 256 (Fixes ''ipv4:10.0.0.1:5002''))
      (take_turn (network example_transport 3)) example_newcomer = Some (Returns (), w') \<and> stable w' {node_a, node_b}"
  by (rule tasks_make_ring_stable [OF example_newcomer_linked _ _ example_clear])
    (auto simp: turn_ok_def BITS_def count_list_rep doubleton_eq_iff)

text \<open>C16: The loop of the successor handler that pings the successor and forgets it when it does
  not answer ends on every process that is alive and reachable under its own address, with a
  successor that is alive.\<close>

theorem successor_ping_loop_ends:
  assumes "rings_ok w" "alive w me" "ctx_advertise_addr (self_ctx me w) = me"
  shows "\<exists>succ w'. ping_loop (network t (Suc d)) me w = Some (succ, w') \<and> alive w (node_endpoint succ) \<and>
    succ = successor_or_self (self_ctx me w') (self_router me w')"
  using assms by (rule ping_loop_ends)

theorem successor_ping_loop_ends_witness:
  "\<exists>succ w'. ping_loop (network example_transport (Suc 0)) ''ipv4:10.0.0.1:5001'' (crash ''ipv4:10.0.0.1:5002'' example_ring) =
      Some (succ, w') \<and> alive (crash ''ipv4:10.0.0.1:5002'' example_ring) (node_endpoint succ) \<and>
    succ = successor_or_self (self_ctx ''ipv4:10.0.0.1:5001'' w') (self_router ''ipv4:10.0.0.1:5001'' w')"
proof -
  have "x = ''ipv4:10.0.0.1:5001''" if "alive example_ring x" "x \<noteq> ''ipv4:10.0.0.1:5002''" for x
    using that by (simp add: example_ring_def)
  then have "rings_ok (crash ''ipv4:10.0.0.1:5002'' example_ring)"
    using member_wf [OF stable_member [OF example_stable, of node_a]]
    by (force simp: rings_ok_def)
  then show ?thesis by (rule successor_ping_loop_ends) simp_all
qed

section \<open>Routing tables\<close>

text \<open>C4: Filling the table one notified node at a time gives the table of the definition: each
  finger is the known node that comes first after the finger's start, or is empty when none
  does, and the predecessor is the known node that comes last before the peer itself.\<close>

theorem updates_give_best_table:
  "best_table ctx (set ns - {ctx_node ctx}) (update_set ctx ns (new_router ctx))"
  using best_table_fold [OF best_table_new, of ctx ns] by (simp add: update_set_def)

text \<open>C18: Removing an identifier other than the own one leaves no node with it in the table,
  brings no node in that was not there, and keeps the table well-formed.\<close>

theorem remove_leaves_no_trace:
  assumes "router_wf ctx r" "u \<noteq> ctx_uuid ctx"
  shows "router_nodes (fst (snd (remove ctx u signal r))) \<subseteq> {n \<in> router_nodes r. node_uuid n \<noteq> u} \<and>
    router_wf ctx (fst (snd (remove ctx u signal r)))"
  using remove_clears [OF assms(2)] remove_no_new [OF router_wf_fields(4) [OF assms(1)]]
    remove_wf [OF assms(1)] by blast

theorem remove_leaves_no_trace_witness:
  "router_nodes (fst (snd (remove ctx_a 1000 True (learn ctx_a node_b (new_router ctx_a))))) = {}"
  using remove_leaves_no_trace [where ctx = ctx_a and u = 1000 and signal = True,
      OF learn_wf [OF new_router_wf], of node_b]
  by (auto simp: example_known)

text \<open>C19: The first node a request is forwarded to is the nearest known one: of all fingers
  strictly between the peer and the identifier, none lies farther along the ring, and without
  such a finger it is the peer itself.\<close>

theorem forwarding_picks_nearest:
  assumes "router_wf ctx r"
  shows "if candidates ctx r u = {} then hd (closest_preceding_nodes ctx r u) = ctx_node ctx
    else hd (closest_preceding_nodes ctx r u) \<in> candidates ctx r u \<and>
      (\<forall>n\<in>candidates ctx r u. pos (ctx_uuid ctx) (node_uuid n) \<le>
        pos (ctx_uuid ctx) (node_uuid (hd (closest_preceding_nodes ctx r u))))"
  using assms by (rule closest_preceding_hd)

theorem forwarding_picks_nearest_witness:
  "hd (closest_preceding_nodes ctx_a (learn ctx_a node_b (new_router ctx_a)) 5000) = node_b"
  using forwarding_picks_nearest [where ctx = ctx_a and u = 5000, OF learn_wf [OF new_router_wf], of node_b]
  by (simp add: example_known)



text \<open>C33: A peer that has a predecessor and no successor loses its process to undefined
  behaviour when any other node notifies it.  The table is like that when the only node the
  peer has heard of is the one that directly follows its own identifier.\<close>

theorem notify_of_adjacent_peer_is_undefined:
  assumes "node_uuid p = ctx_uuid (self_ctx me w) + 1" "ctx_uuid (self_ctx me w) + 1 \<noteq> uuid_max"
    and "self_router me w = learn (self_ctx me w) p (new_router (self_ctx me w))"
    and "has_valid_header (nreq_header req)"
    and "source_of (nreq_header req) \<notin> {p, self_node me w}"
  shows "fst (service_notify me addr req w) = Undefined"
proof -
  have "node_uuid p = start (ctx_uuid (self_ctx me w)) 0" using assms(1,2) by (simp add: start_eq)
  then show ?thesis
    using learn_adjacent [of p "self_ctx me w"] assms(3-5)
    by (auto simp: service_notify_undefined_iff self_successor_def self_predecessor_def)
qed

definition adjacent_boot :: world where
  "adjacent_boot = set_router ''ipv4:10.0.0.1:5001'' (learn ctx_a (node_b\<lparr>node_uuid := 11\<rparr>) (new_router ctx_a)) example_boot"

theorem notify_of_adjacent_peer_is_undefined_witness:
  "fst (service_notify ''ipv4:10.0.0.1:5001'' [] \<lparr>nreq_header = Some (make_header ctx_b), nreq_old_node = None,
     nreq_new_node = None\<rparr> adjacent_boot) = Undefined"
  by (rule notify_of_adjacent_peer_is_undefined [of "node_b\<lparr>node_uuid := 11\<rparr>"])
    (simp_all add: adjacent_boot_def uuid_max_def node_b_def node_a_def self_node_def)

section \<open>Names, channels and messages\<close>

text \<open>C21: Whatever text a peer sends as a uri, the path it stands for lies in or below the data
  directory, as far as names go: \<open>..\<close> never climbs above it.  The paths hold no NUL character, and a
  symbolic link in the directory may still lead out of it.\<close>

theorem uri_stays_in_data_directory:
  assumes "uri_from t = Inr u" "CHR 0x00 \<notin> set (path_append (ctx_data_directory ctx) (uri_path u))"
  shows "below (resolve d (ctx_data_directory ctx)) (resolve d (c_str (path_append (ctx_data_directory ctx) (uri_path u))))"
  using canonical_resolves_below(2) uri_from_canonical [OF assms(1)] unfolding c_str_whole [OF assms(2)] by blast

theorem uri_stays_in_data_directory_witness:
  "\<exists>u. uri_from ''chord:///../a'' = Inr u \<and>
    below (resolve example_disk ''./data'') (resolve example_disk (c_str (path_append ''./data'' (uri_path u))))"
proof -
  have "uri_from ''chord:///../a'' = Inr (new_uri ''chord'' ''/../a'')" by code_simp
  moreover have "CHR 0x00 \<notin> set (path_append (ctx_data_directory ctx_b) (uri_path (new_uri ''chord'' ''/../a'')))"
    unfolding example_ctx_fs(4) by code_simp
  ultimately show ?thesis
    using uri_stays_in_data_directory [where ctx = ctx_b and d = example_disk] example_ctx_fs(4) by auto
qed


text \<open>C23: A uri without authority, whose parts hold none of the delimiters and whose path is
  absolute and canonical, reads back from its text.\<close>

theorem uri_reads_back:
  assumes "uri_plain u"
  shows "uri_from (uri_string u) = Inr u"
  using assms by (rule uri_from_string)

theorem uri_reads_back_witness: "uri_from (uri_string example_file) = Inr example_file"
  by (rule uri_reads_back [OF example_file_plain(1)])

text \<open>C29: A metadata set arrives in a request without the owners, groups and sizes, and in a
  response without owners, groups and references; there a replication that is not replicated
  comes back as copy 0 of 0.\<close>

theorem metadata_through_messages:
  assumes "meta_wf ms" "ms \<noteq> []" "mreq_metadata req = map request_data ms"
  shows "metadata_from_request req =
      Returns (map (\<lambda>m. m\<lparr>meta_owner := [], meta_group := [], meta_file_size := 0\<rparr>) ms) \<and>
    metadata_from_response (add_to_response ms empty_meta_response) =
      map (\<lambda>m. m\<lparr>meta_owner := [], meta_group := [], meta_node_ref := None,
        meta_replication := (if replicated (meta_replication m) then meta_replication m
                             else \<lparr>repl_index = 0, repl_count = 0\<rparr>)\<rparr>) ms"
  using request_set_round_trip [OF assms] response_set_round_trip [OF assms(1)]
  by (simp add: response_round_trip)

theorem metadata_through_messages_witness:
  "metadata_from_request \<lparr>mreq_id = 1, mreq_uri = [], mreq_action = ADD, mreq_metadata = [request_data root_metadata]\<rparr> =
     Returns [root_metadata]"
  using metadata_through_messages [of "[root_metadata]"
      "\<lparr>mreq_id = 1, mreq_uri = [], mreq_action = ADD, mreq_metadata = [request_data root_metadata]\<rparr>"]
  by (simp add: oset_wf_def root_metadata_def new_metadata_def)

text \<open>C27: Metadata written to an archive is read back as it was, with the rest of the archive left
  over, through the optional reference and hash and the values nested in them.\<close>

theorem archived_metadata_reads_back:
  assumes "archive_laws A"
  shows "load_metadata A (save_metadata A m @ rest) = Returns (m, rest)"
  using assms by (rule load_save_metadata)

theorem archived_metadata_reads_back_witness:
  "load_metadata atoms (save_metadata atoms (default_metadata\<lparr>meta_node_ref := Some node_a, meta_file_hash := Some 500\<rparr>) @
      [Flag_value True]) =
     Returns (default_metadata\<lparr>meta_node_ref := Some node_a, meta_file_hash := Some 500\<rparr>, [Flag_value True])"
  by (rule archived_metadata_reads_back [OF atoms_laws])

text \<open>C26: All ways to hash agree: the hash of a stream, whatever portions of it are available at a
  time, and what a hasher reads after a text came in chunks, is the hash of the whole text in one
  call; and texts have the same identifier only if they have the same digest, as no bit of it
  is lost.\<close>

theorem hashes_agree:
  assumes "evp_laws E absorbed" "\<And>s. s \<noteq> [] \<Longrightarrow> 0 < avail s"
  shows "sha256_stream E avail t = Returns (sha256_text E t) \<and>
    (\<exists>h h' h''. new_hasher E = Returns h \<and> feed_hasher E ts h = Returns h' \<and>
       hasher_get E h' = Returns (sha256_text E (concat ts), h'')) \<and>
    (sha256_text E t = sha256_text E u \<longleftrightarrow> evp_sha256 E t = evp_sha256 E u)"
  using sha256_stream_text [where avail = avail, OF assms] hasher_text [OF assms(1)] sha256_text_eq [OF assms(1)] by blast

theorem hashes_agree_witness:
  "sha256_stream counting (\<lambda>_. 1) ''abc'' = Returns (sha256_text counting ''abc'') \<and>
   sha256_text counting ''abc'' \<noteq> sha256_text counting ''ab''"
  using hashes_agree [OF counting_laws, of "\<lambda>_. 1" "''abc''" "[]" "''ab''"] by (simp add: counting_def)

text \<open>C11: The cache keeps its entries in order of use: putting an entry makes it the first, drops
  an older one under the same key and everything beyond the capacity; getting one makes it the
  first and returns its value.  The links between the list and the map stay intact.\<close>

theorem cache_refines_recency_list:
  assumes "lru_inv c"
  shows "(\<exists>c'. lru_put k v c = Some c' \<and> lru_inv c' \<and>
      lru_abs c' = spec_put (lru_capacity c) k v (lru_abs c)) \<and>
    fst (lru_get k c) = (case map_of (lru_abs c) k of None \<Rightarrow> Inl () | Some v \<Rightarrow> Inr v) \<and>
    lru_inv (snd (lru_get k c)) \<and> lru_abs (snd (lru_get k c)) = spec_touch k (lru_abs c)"
  using lru_put_refines [OF assms, of k v] lru_get_refines [OF assms, of k] lru_touch_refines [OF assms, of k]
  by auto

theorem cache_refines_recency_list_witness:
  "\<exists>c'. lru_put (7 :: nat) ''a'' (new_lru 1) = Some c' \<and> lru_abs c' = [(7, ''a'')]"
  using cache_refines_recency_list [of "new_lru 1" "7 :: nat" "''a''"]
  by (auto simp: new_lru_def lru_inv_def lru_linked_def lru_abs_def spec_put_def spec_erase_def)

text \<open>C31: Whatever sort the library has, the monitor sends one event for every path that changed: the
  one the sort leaves first among those of its path.  That is the latest event of the path when
  the sort keeps the order of events of one path, which \<open>std::sort\<close> need not do.\<close>

theorem monitor_sends_one_event:
  assumes "sorts sorter" "mon_events m \<noteq> []"
  shows "\<exists>es. fire_events sorter m = ([es], m\<lparr>mon_events := []\<rparr>) \<and>
    distinct (map ev_path es) \<and> ev_path ` set es = ev_path ` set (mon_events m) \<and>
    (\<forall>e\<in>set es. e = hd (filter (\<lambda>x. ev_path x = ev_path e) (sorter (rev (mon_events m)))) \<and>
      (keeps_order sorter \<longrightarrow> e = last (filter (\<lambda>x. ev_path x = ev_path e) (mon_events m))))"
proof -
  obtain es where es: "fire_events sorter m = ([es], m\<lparr>mon_events := []\<rparr>)" "distinct (map ev_path es)"
    "ev_path ` set es = ev_path ` set (mon_events m)"
    using fire_events_spec [OF assms] by (elim exE conjE) (rule that)
  show ?thesis
    using fire_events_first [OF assms(1) es(1)] fire_events_latest [OF assms(1) _ es(1)]
    by (intro exI [of _ es] conjI ballI impI es)
qed

theorem monitor_sends_one_event_witness:
  "let old = \<lparr>ev_path = ''a'', ev_flags = [CREATED], ev_time = 0\<rparr>; new = \<lparr>ev_path = ''a'', ev_flags = [REMOVED], ev_time = 1\<rparr>
   in fst (fire_events (sort_key ev_path) (new_monitor\<lparr>mon_events := [old, new]\<rparr>)) = [[new]] \<and>
     fst (fire_events reversing (new_monitor\<lparr>mon_events := [old, new]\<rparr>)) = [[old]]"
proof -
  let ?old = "\<lparr>ev_path = ''a'', ev_flags = [CREATED], ev_time = 0\<rparr>" let ?new = "\<lparr>ev_path = ''a'', ev_flags = [REMOVED], ev_time = 1\<rparr>"
  let ?m = "new_monitor\<lparr>mon_events := [?old, ?new]\<rparr>"
  have one: "es = [e]" if "distinct (map ev_path es)" "ev_path ` set es = {''a''}" "\<And>x. x \<in> set es \<Longrightarrow> x = e" for es e
  proof (cases es)
    case (Cons x xs)
    then have "x = e" "\<forall>y\<in>set xs. y = e" using that(3) by auto
    moreover have "xs = []" using Cons that(1) calculation by (cases xs) auto
    ultimately show ?thesis using Cons by simp
  qed (use that(2) in simp)
  have paths: "ev_path x = ''a''" if "ev_path ` set es = ev_path ` set (mon_events ?m)" "x \<in> set es" for x es
    using imageI [OF that(2), of ev_path] unfolding that(1) by simp
  have "mon_events ?m \<noteq> []" by simp
  note sent = monitor_sends_one_event [OF sorts_stable(1) this] monitor_sends_one_event [OF sorts_reversing this]
  obtain es where es: "fire_events (sort_key ev_path) ?m = ([es], ?m\<lparr>mon_events := []\<rparr>)" "distinct (map ev_path es)"
    "ev_path ` set es = ev_path ` set (mon_events ?m)"
    "\<forall>e\<in>set es. e = hd (filter (\<lambda>x. ev_path x = ev_path e) (sort_key ev_path (rev (mon_events ?m)))) \<and>
      (keeps_order (sort_key ev_path) \<longrightarrow> e = last (filter (\<lambda>x. ev_path x = ev_path e) (mon_events ?m)))"
    using sent(1) by (elim exE conjE) (rule that)
  have "x = ?new" if "x \<in> set es" for x
    using bspec [OF es(4) that, THEN conjunct2, THEN mp, OF sorts_stable(2)] paths [OF es(3) that] by simp
  then have new: "es = [?new]" using es(2,3) by (intro one) simp_all
  obtain fs where fs: "fire_events reversing ?m = ([fs], ?m\<lparr>mon_events := []\<rparr>)" "distinct (map ev_path fs)"
    "ev_path ` set fs = ev_path ` set (mon_events ?m)"
    "\<forall>e\<in>set fs. e = hd (filter (\<lambda>x. ev_path x = ev_path e) (reversing (rev (mon_events ?m)))) \<and>
      (keeps_order reversing \<longrightarrow> e = last (filter (\<lambda>x. ev_path x = ev_path e) (mon_events ?m)))"
    using sent(2) by (elim exE conjE) (rule that)
  have "x = ?old" if "x \<in> set fs" for x
    using bspec [OF fs(4) that, THEN conjunct1] paths [OF fs(3) that] by (simp add: reversing_def)
  then have "fs = [?old]" using fs(2,3) by (intro one) simp_all
  then show ?thesis using es(1) fs(1) new by simp
qed

section \<open>The file system\<close>

text \<open>C2: In every store the system reaches - by the ring, users, the monitor, signals, calls from
  anybody and crashes - the routing tables, every metadata database and every disk are
  well-formed: databases and directories are ordered without duplicates, entries carry the name
  they are kept under, and the parent of everything on a disk is a directory.\<close>

theorem reachable_stores_well_formed:
  assumes "(fs_step t E X)\<^sup>*\<^sup>* s s'" "stores_ok s"
  shows "stores_ok s'"
  using assms by (rule reachable_stores_ok)

theorem reachable_stores_well_formed_witness:
  "stores_ok (fs_crash ''ipv4:10.0.0.1:5002'' example_fs)"
proof -
  have "stores_ok example_fs"
    by (simp add: stores_ok_def example_rings_ok example_fs_def my_db_def my_disk_def example_tree db_ok_def oset_wf_def)
  moreover have "fs_step example_transport example_env (\<lambda>_ _. Undefined) example_fs (fs_crash ''ipv4:10.0.0.1:5002'' example_fs)"
    unfolding fs_crash_def by (rule ring_moves) (rule dies)
  ultimately show ?thesis
    using reachable_stores_well_formed by blast
qed

text \<open>C24: On a ring whose members know their neighbours and stay up, a metadata call of a member,
  however far it is passed on, leaves the files of every process and its configuration alone, and
  the ring sends no signal that has a listener: no process moves files because of it.\<close>

theorem metadata_calls_keep_files:
  assumes "env_ring E = network t k" "linked (ring s) N" "\<And>e. alive (ring s) e \<Longrightarrow> e \<in> node_endpoint ` N"
    and "a \<in> node_endpoint ` N" "rpc_meta (fs_network E n) a b md req s = Some (r, s')"
    and "\<And>m. m \<in> N \<Longrightarrow> alive (ring s') (node_endpoint m)"
  shows "my_disk x s' = my_disk x s \<and> my_ctx x s' = my_ctx x s \<and> heard x (ring s') = heard x (ring s) \<and>
    linked (ring s') N"
proof -
  have "same_disks s s'"
    using meta_contract.meta_keeps [OF disks.network_meta_contract [OF assms(1) TrueI] same_disks_refl] assms(5)
    by (metis fs_close_simps(5))
  moreover have "unheard N s s'"
    using quiet_stubs(5) [OF assms(1,4) quiet_start assms(5)] assms(2,3) by blast
  ultimately show ?thesis
    using assms(6) by (simp add: same_disks_def same_setup_def my_ctx_def unheard_def ring_kept_def)
qed

theorem metadata_calls_keep_files_witness:
  "\<exists>r s'. rpc_meta (fs_network example_env (Suc (Suc 0))) ''ipv4:10.0.0.1:5001'' ''ipv4:10.0.0.1:5002'' []
     (example_announcement 0) example_fs = Some ((OK, r), s') \<and> my_disk ''ipv4:10.0.0.1:5001'' s' = example_disk \<and>
     heard ''ipv4:10.0.0.1:5001'' (ring s') = [] \<and> md_exists (as_uri ''/'') (my_db ''ipv4:10.0.0.1:5001'' s')"
proof -
  have rings: "ring example_fs = example_ring" "ring announced_fs = example_ring"
    by (simp_all add: example_fs_def announced_fs_def set_db_def)
  have start: "my_disk ''ipv4:10.0.0.1:5001'' example_fs = example_disk" "heard ''ipv4:10.0.0.1:5001'' example_ring = []"
    by (simp_all add: example_fs_def my_disk_def heard_def example_ring_def booted_peer_def)
  have known: "md_exists (as_uri ''/'') (my_db ''ipv4:10.0.0.1:5001'' announced_fs)"
    by (simp add: announced_fs_def my_db_def set_db_def) code_simp
  have kept: "my_disk ''ipv4:10.0.0.1:5001'' announced_fs = my_disk ''ipv4:10.0.0.1:5001'' example_fs \<and>
      heard ''ipv4:10.0.0.1:5001'' (ring announced_fs) = heard ''ipv4:10.0.0.1:5001'' (ring example_fs)"
    using metadata_calls_keep_files [where x = "''ipv4:10.0.0.1:5001''", OF example_env_simps(1) _ _ _ example_announced]
      example_members unfolding rings by fastforce
  show ?thesis
  proof (intro exI conjI)
    show "my_disk ''ipv4:10.0.0.1:5001'' announced_fs = example_disk" "heard ''ipv4:10.0.0.1:5001'' (ring announced_fs) = []"
      using kept start rings by simp_all
  qed (rule example_announced known)+
qed

text \<open>C3: On a ring whose members know their neighbours, a file put by any member, as a copy that
  goes no further, is found by every member: when the put succeeded and the members are still up,
  a get returns the bytes that were put.  In between the put may have announced the file to any
  number of other members.  The responsible member did not know the uri before, and its hash is
  not a member's identifier.\<close>

theorem file_put_is_found_by_all:
  assumes "env_ring E = network t k" "\<And>v. env_uparse E (env_utext E v) = v"
    and "uri_from (uri_string u) = Inr u" "names_file (uri_path u)"
    and "linked (ring s) N" "\<And>e. alive (ring s) e \<Longrightarrow> e \<in> node_endpoint ` N" "card N < k"
    and "x \<in> N" "y \<in> N" "uri_hash E u \<notin> node_uuid ` N"
    and "\<And>n. responsible N (uri_hash E u) n \<Longrightarrow> \<not> md_exists u (my_db (node_endpoint n) s) \<and>
      tree_ok (my_disk (node_endpoint n) s) \<and> ctx_data_directory (my_ctx (node_endpoint n) s) \<noteq> []"
    and "plain_put opts"
    and "client_put (fs_close E d) (node_endpoint x) u content opts s = Some (Returns OK, s')"
    and "\<And>n. n \<in> N \<Longrightarrow> alive (ring s') (node_endpoint n)"
  shows "\<exists>cs s''. client_get (fs_close E (Suc e)) (node_endpoint y) u s' = Some (Returns (OK, cs), s'') \<and>
    concat cs = content"
  using assms by (rule put_get_on_ring)

theorem file_put_is_found_by_all_witness:
  "\<exists>cs s''. client_get (fs_close example_env 1) (node_endpoint node_a) example_file stored_fs = Some (Returns (OK, cs), s'') \<and>
    concat cs = ''ab''"
proof -
  have plain: "plain_put second_copy"
    by (simp add: plain_put_def second_copy_def options_of_replication_def default_options_def next_copy_def replicated_def)
  have ring: "ring example_fs = example_ring" "ring stored_fs = example_ring" "uri_hash example_env u = 500"
      "example_fs\<lparr>ring := example_ring\<rparr> = example_fs" for u
    by (simp_all add: stored_fs_def example_fs_def uri_hash_def)
  have put: "client_put (fs_close example_env 1) (node_endpoint node_a) example_file ''ab'' second_copy example_fs =
      Some (Returns OK, stored_fs)"
    using example_put_call by (simp add: client_put_def ring_successor_def on_ring_def ring uri_hash_def example_lookup)
  have "\<exists>cs s''. client_get (fs_close example_env (Suc 0)) (node_endpoint node_a) example_file stored_fs =
      Some (Returns (OK, cs), s'') \<and> concat cs = ''ab''"
  proof (rule file_put_is_found_by_all [OF _ _ example_file_parses example_file_plain(2) _ _ _ _ _ _ _ plain put])
    show "\<not> md_exists example_file (my_db (node_endpoint n) example_fs) \<and> tree_ok (my_disk (node_endpoint n) example_fs) \<and>
        ctx_data_directory (my_ctx (node_endpoint n) example_fs) \<noteq> []"
      if "responsible {node_a, node_b} (uri_hash example_env example_file) n" for n
      using that by (auto simp: responsible_def md_exists_def my_db_def my_disk_def example_fs_def my_ctx_def
          example_tree ctx_a_def ctx_b_def default_context_def)
  qed (use stable_linked [OF example_stable] in \<open>auto simp: ring example_ring_def\<close>)
  then show ?thesis by simp
qed

text \<open>C34: Getting the root directory through the facade never returns: after \<open>.\<close>, which is passed
  over, the loop takes \<open>..\<close>, which leads to the root again.\<close>

theorem get_of_root_never_returns:
  assumes "client_meta E me (as_uri ''/'') DIR [] default_options s = Some (Returns (OK, ms), s)"
    and "get_target ms = Some m" "meta_name m = ''..''" "meta_file_type m = type_directory"
  shows "fs_facade_get X E me (as_uri ''/'') target s = None"
proof (rule facade_get_diverges [where L = "\<lambda>source t. source = as_uri ''/'' \<and> t = s"])
  fix source t and target :: path assume here: "source = as_uri ''/'' \<and> t = s"
  have root: "minus_path X (canonical (uri_path (as_uri ''/''))) ''..'' = Returns ''/''"
  proof -
    have "path_minus (canonical (uri_path (as_uri ''/''))) ''..'' = Some ''/''" by code_simp
    then show ?thesis by (simp add: minus_path_def)
  qed
  have "new_uri (uri_scheme (as_uri ''/'')) (path_append ''/'' ''..'') = as_uri ''/''" by code_simp
  then have "get_step X E me source target t = Some (Returns (Inr (as_uri ''/'', path_append target ''..'')), s)"
    using assms here root
    by (simp add: get_step_def path_difference_def bnd_def reads_def ret_def type_directory_def type_regular_def)
  then show "\<exists>src tgt s'. get_step X E me source target t = Some (Returns (Inr (src, tgt)), s') \<and> src = as_uri ''/'' \<and> s' = s"
    by blast
qed simp

theorem get_of_root_never_returns_witness:
  "fs_facade_get (\<lambda>_ _. Undefined) (fs_close example_env 1) ''ipv4:10.0.0.1:5001'' (as_uri ''/'') ''t'' rooted_fs = None"
proof -
  have "get_target root_listing = Some ((create_directory_named ''..'')\<lparr>meta_replication := \<lparr>repl_index = 0, repl_count = 0\<rparr>\<rparr>)"
    by code_simp
  then show ?thesis
    using get_of_root_never_returns [OF example_root_dir] by (simp add: create_directory_named_def)
qed

text \<open>Getting a file under a bare name, without a directory in front, throws before anything is
  fetched, because the code creates the empty path.\<close>

lemma get_to_bare_name_throws:
  assumes "parent_path target = []"
  shows "get_file E me source target s = Some (Throws Std_exception, s)"
  using assms
  by (simp add: get_file_def catch_io_def on_exception_def bnd_def gets_def file_exists_def make_directories_def
      on_disk_def file_create_directories_def)

text \<open>C35: A put of a file whose hash the database already holds skips the bytes.  When the file itself
  is missing from the disk, it has just been created, so that the process is left with an empty
  file, and the call goes on as if the bytes were there.\<close>

theorem put_with_known_hash_stores_nothing:
  assumes "uri_of_metadata md = Some (Inr u)" "md_get u (my_db me s) = Returns [m]"
    and "meta_file_type m = type_regular" "meta_file_hash m = Some h" "file_hash_from (env_uparse E) md = Some h"
    and "names_file (uri_path u)"
    and "file_is_directory (my_disk me s) (path_append dir (parent_path (uri_path u)))"
    and "\<not> file_exists (my_disk me s) (path_append (path_append dir (parent_path (uri_path u))) (filename (uri_path u)))"
  shows "\<exists>s'. put_write E me md u dir chunks s = Some (Returns (), s') \<and>
    file_content (my_disk me s') (path_append dir (uri_path u)) = Some []"
proof -
  note u = assms(6) note parent = assms(7) note missing = assms(8)
  let ?data = "path_append (path_append dir (parent_path (uri_path u))) (filename (uri_path u))"
  have same: "file_hashes_equal E me md (set_disk me d s) = Some (Returns True, set_disk me d s)" for d
    using assms(1-5) by (intro known_hashes) simp_all
  have dir: "file_exists (my_disk me s) (path_append dir (parent_path (uri_path u)))"
    using parent by (auto simp: file_is_directory_def file_exists_def)
  have "dot_free (names (uri_path u))" using dot_free_canonical [of "uri_path u"] u by (simp add: names_file_def)
  moreover have "last (names (uri_path u)) \<in> set (names (uri_path u))" using u by (simp add: names_file_def)
  ultimately obtain m where m: "names (filename (uri_path u)) = [m]" "m \<noteq> ''.''" "m \<noteq> ''..''"
    using parent_and_name(3) [OF u] unfolding dot_free_def by metis
  obtain d where d: "file_create ?data (my_disk me s) = (True, d)" "file_content d ?data = Some []"
    using file_create_empty [OF parent m missing] by blast
  have "file_content d (path_append dir (uri_path u)) = Some []"
    using d(2) resolve_split [OF u, of d dir] path_append_file [OF u, of dir]
    by (auto simp: file_content_def find_path_def split: if_splits)
  then show ?thesis
    using dir missing d(1) by (simp add: put_write_def Let_def on_disk_def bnd_def gets_def ret_def same)
qed

theorem put_with_known_hash_stores_nothing_witness:
  "\<exists>s'. put_write example_env ''ipv4:10.0.0.1:5002'' (put_metadata example_env example_file ''ab'' second_copy) example_file ''./data''
     [''ab''] (set_db ''ipv4:10.0.0.1:5002'' [(''/f'', [(''f'', stored_entry)])] example_fs) = Some (Returns (), s') \<and>
   file_content (my_disk ''ipv4:10.0.0.1:5002'' s') ''./data/f'' = Some []"
proof -
  let ?s = "set_db ''ipv4:10.0.0.1:5002'' [(''/f'', [(''f'', stored_entry)])] example_fs"
  note read = put_metadata_reads [of example_env, simplified]
  have "md_get example_file [(''/f'', [(''f'', stored_entry)])] = Returns [stored_entry]"
    by code_simp
  moreover have "meta_file_type stored_entry = type_regular" "meta_file_hash stored_entry = Some 500"
    by (simp_all add: stored_entry_def new_metadata_def)
  moreover have "file_is_directory example_disk ''./data/''" by code_simp
  ultimately show ?thesis
    using put_with_known_hash_stores_nothing [where E = example_env and me = "''ipv4:10.0.0.1:5002''" and u = example_file and s = ?s and
        md = "put_metadata example_env example_file ''ab'' second_copy" and dir = "''./data''" and m = stored_entry and h = 500
        and chunks = "[''ab'']"]
      read example_file_parses example_file_plain(2)
    by (simp add: example_paths example_ctx_fs example_queries)
qed

text \<open>The guard that should keep the root directory from being deleted never applies to it: the
  parent of \<open>/\<close> is \<open>/\<close>, not the empty path, so that a deletion removes the root's entries.\<close>

lemma root_can_be_deleted:
  "md_del (as_uri ''/'') db =
    (case map_of db ''/'' of None \<Rightarrow> (Throws Chord_exception, db)
     | Some m \<Rightarrow> (Returns (extract_metadata_set m), omap_erase ''/'' db))"
proof -
  have "parent_path (uri_path (as_uri ''/'')) = ''/''" "uri_path (as_uri ''/'') = ''/''" "db_key (as_uri ''/'') = ''/''"
    by code_simp+
  then show ?thesis by (simp add: md_del_def md_get_def md_remove_def split: option.split)
qed

text \<open>C28: What a deletion returns can be added again: the entries other than the two dots are back,
  and no other uri is affected.\<close>

theorem deleted_entries_can_be_restored:
  assumes "db_ok db" "uri_ok u" "parent_path (uri_path u) \<noteq> []"
    and "md_del u db = (Returns ms, db1)" "md_add u ms db1 = (Returns b, db2)"
  shows "(\<exists>ns. md_get u db2 = Returns ns \<and> {x \<in> set ms. plain_name x} \<subseteq> set ns) \<and>
    (uri_path v \<noteq> uri_path u \<longrightarrow> md_get v db2 = md_get v db)"
  using md.restore [OF assms] by blast

theorem deleted_entries_can_be_restored_witness:
  "\<exists>ns. md_get example_file [(''/f'', [(''f'', stored_entry)])] = Returns ns \<and> stored_entry \<in> set ns"
proof -
  have ok: "db_ok [(''/f'', [(''f'', stored_entry)])]"
    by (simp add: db_ok_def map_ok_def oset_wf_def stored_entry_def new_metadata_def)
  have path: "uri_ok example_file" "parent_path (uri_path example_file) \<noteq> []"
    using example_file_plain(1) by (simp_all add: uri_ok_def uri_plain_def example_paths)
  have del: "md_del example_file [(''/f'', [(''f'', stored_entry)])] = (Returns [stored_entry], [])"
    and add: "md_add example_file [stored_entry] [] = (Returns True, [(''/f'', [(''f'', stored_entry)])])"
    by code_simp+
  have "plain_name stored_entry" by (simp add: plain_name_def stored_entry_def new_metadata_def)
  then show ?thesis
    using deleted_entries_can_be_restored [OF ok path del add] by auto
qed



section \<open>The mounted file system\<close>

text \<open>C17: Of a write the kernel took \<open>n\<close> bytes of, through a descriptor opened for reading and writing
  and not for appending, just these bytes are read back at the same offset, and every byte the
  file had before and after them is read as before - although the write also asked for the path
  of the copy in the journal, which may create directories.\<close>

theorem written_bytes_read_back:
  assumes "fuse_write me p buf offset fi s = Some (Returns n, s')" "0 < n" "tree_ok (my_disk me (fuse_fs s))"
    and "map_of (fuse_handles s) (fi_fh fi) = Some (k, flags)" "fl_read flags" "\<not> fl_append flags"
  shows "n \<le> int (length buf) \<and>
    fuse_read me p (nat n) offset fi s' = Some (Returns (n, take (nat n) buf), s') \<and>
    (\<forall>i c. (i < offset \<or> offset + nat n \<le> i) \<longrightarrow> fuse_read me p 1 i fi s = Some (Returns (1, [c]), s) \<longrightarrow>
      fuse_read me p 1 i fi s' = Some (Returns (1, [c]), s'))"
proof -
  obtain j flags' t where o: "opened me (fi_fh fi) s = Some (j, flags', t)" "n \<le> int (length buf)"
    "opened me (fi_fh fi) s' = Some (j, flags', overwrite (take (nat n) buf) (if fl_append flags' then length t else offset) t)"
    using write_opens [OF assms(1-3)] by blast
  then have "flags' = flags" using assms(4) by (auto simp: opened_def split: option.splits file_node.splits)
  note o = o [unfolded this]
  have n: "length (take (nat n) buf) = nat n" using o(2) by simp
  have read: "fuse_read me p sz i fi r = Some (Returns (int (length (take sz (drop i c))), take sz (drop i c)), r)"
    if "opened me (fi_fh fi) r = Some (j, flags, c)" for sz i r c
    using that assms(5) by (simp add: fuse_read_def os_pread_def Let_def)
  have "take (nat n) (drop offset (overwrite (take (nat n) buf) offset t)) = take (nat n) buf"
    using overwrite_read [of "take (nat n) buf" offset t] n by simp
  then have "fuse_read me p (nat n) offset fi s' = Some (Returns (n, take (nat n) buf), s')"
    using read [OF o(3), of "nat n" offset] assms(2,6) o(2) by simp
  moreover have "fuse_read me p 1 i fi s' = Some (Returns (1, [c]), s')"
    if i: "i < offset \<or> offset + nat n \<le> i" and old: "fuse_read me p 1 i fi s = Some (Returns (1, [c]), s)" for i c
  proof -
    have "take 1 (drop i t) = [c]" using read [OF o(1), of 1 i] old by simp
    then have c: "i < length t" "t ! i = c"
      by (cases "i < length t"; simp flip: Cons_nth_drop_Suc)+
    let ?t = "overwrite (take (nat n) buf) offset t"
    have "i < length ?t" "?t ! i = c" using overwrite_others [of i offset "take (nat n) buf" t] i n c by simp_all
    then have "take 1 (drop i ?t) = [c]" by (simp flip: Cons_nth_drop_Suc)
    then show ?thesis using read [OF o(3), of 1 i] assms(6) by simp
  qed
  ultimately show ?thesis using o(2) by blast
qed

theorem written_bytes_read_back_witness:
  "\<exists>s'. fuse_write ''ipv4:10.0.0.1:5001'' ''/f'' ''XYZ'' 1 open_file open_fuse = Some (Returns 2, s') \<and>
    fuse_read ''ipv4:10.0.0.1:5001'' ''/f'' 2 1 open_file s' = Some (Returns (2, ''XY''), s') \<and>
    fuse_read ''ipv4:10.0.0.1:5001'' ''/f'' 1 0 open_file s' = Some (Returns (1, ''a''), s')"
proof -
  let ?s = "set_opened ''ipv4:10.0.0.1:5001'' [''metadata'', ''journal'', ''f''] ''aXY'' open_fuse"
  let ?d = "put_node [''metadata'', ''journal'', ''f''] (Regular ''aXY'') journal_disk"
  have "as_journal_path ctx_a ''/f'' ?d = Inr (''./metadata/journal/f'', ?d)" "file_size ?d ''./metadata/journal/f'' = Inr 3"
    unfolding ctx_a_def by code_simp+
  moreover have "my_disk ''ipv4:10.0.0.1:5001'' (fuse_fs ?s) = ?d" "my_ctx ''ipv4:10.0.0.1:5001'' (fuse_fs ?s) = ctx_a"
    "?s\<lparr>fuse_fs := set_disk ''ipv4:10.0.0.1:5001'' ?d (fuse_fs ?s)\<rparr> = ?s"
    by (simp_all add: set_opened_def open_fuse_self)
  moreover have o: "opened ''ipv4:10.0.0.1:5001'' 3 open_fuse = Some ([''metadata'', ''journal'', ''f''], reading_and_writing, ''ab'')"
    by (simp add: opened_def open_fuse_self journal_queries)
  ultimately have wrote: "fuse_write ''ipv4:10.0.0.1:5001'' ''/f'' ''XYZ'' 1 open_file open_fuse = Some (Returns 2, ?s)"
    by (simp add: fuse_write_def os_pwrite_def open_fuse_self reading_and_writing_def overwrite_def bnd_def journal_path_def gets_def
        on_fs_def [of "on_disk _ _"] on_disk_def logged_size_def fs_result_def ret_def Let_def)
  have "fuse_read ''ipv4:10.0.0.1:5001'' ''/f'' 1 0 open_file open_fuse = Some (Returns (1, ''a''), open_fuse)"
    using o by (simp add: fuse_read_def os_pread_def open_fuse_self reading_and_writing_def)
  then show ?thesis
    using written_bytes_read_back [OF wrote, of "[''metadata'', ''journal'', ''f'']" reading_and_writing] journal_tree wrote
    by (simp add: open_fuse_self reading_and_writing_def)
qed

text \<open>C37: Closing a file does the reverse of what it should: when its bytes were put, the kernel is
  told that the file does not exist and the copy in the journal stays; when putting them
  failed, the call succeeds and the copy, the only place that has the bytes, is removed.\<close>

theorem release_result:
  assumes "fuse_flush X E me p fi s = Some (Returns n, s1)" "fuse_release X E me p fi s = Some (Returns r, s')"
    and "tree_ok (my_disk me (fuse_fs s1))" "names_file (uri_path (as_uri p))"
  shows "if n = 0 then r = - ENOENT \<and> s' = s1
    else r = 0 \<and> \<not> file_exists (my_disk me (fuse_fs s')) (journal_name (my_ctx me (fuse_fs s1)) (uri_path (as_uri p)))"
proof (cases "n = 0")
  case True
  then show ?thesis using assms(1,2) by (simp add: fuse_release_def ret_def)
next
  case False
  then obtain b where "clean_journal me (as_uri p) s1 = Some (Returns b, s')" "r = 0"
    using assms(1,2) by (auto simp: fuse_release_def bnd_Some ret_def)
  then show ?thesis using False clean_journal_cleans assms(3,4) by simp
qed

theorem release_result_witness:
  "\<exists>s'. fuse_release (\<lambda>_ _. Undefined) refusing_env ''ipv4:10.0.0.1:5001'' ''/f'' open_file open_fuse = Some (Returns 0, s') \<and>
    \<not> file_exists (my_disk ''ipv4:10.0.0.1:5001'' (fuse_fs s')) ''./metadata/journal/f''"
proof -
  have name: "journal_name ctx_a ''/f'' = ''./metadata/journal/f''"
    unfolding ctx_a_def by code_simp
  obtain b s' where "clean_journal ''ipv4:10.0.0.1:5001'' (as_uri ''/f'') open_fuse = Some (Returns b, s')"
    by (simp add: clean_journal_def journal_queries example_journal_path on_fs_def on_disk_def file_remove_all_def Let_def)
  then have "fuse_release (\<lambda>_ _. Undefined) refusing_env ''ipv4:10.0.0.1:5001'' ''/f'' open_file open_fuse = Some (Returns 0, s')"
    by (simp add: fuse_release_def example_flush EAGAIN_def ret_def)
  then show ?thesis
    using release_result [OF example_flush] name journal_tree
    by (fastforce simp: open_fuse_self journal_queries EAGAIN_def)
qed

text \<open>\<open>mknod\<close> never returns a value: it hands a null pointer to \<open>create\<close>, which reads through
  it.\<close>

lemma mknod_never_returns: "fuse_mknod X E me p s \<noteq> Some (Returns n, s')"
  by (auto simp: fuse_mknod_def fuse_create_def open_local_def Let_def bnd_Some no_behaviour_def)

section \<open>Commands and configuration\<close>

text \<open>C38: With a configuration file, the addresses a peer starts with are those of the file, or the
  defaults: what the command line says about joining, binding and advertising is lost, because
  the file replaces the whole context after the options were stored in it.\<close>

theorem config_discards_command_line:
  assumes "parse_program_options (\<lambda>p. load_config Y (document p) u) v cl = Goes_on opts"
    and "cl_config cl = Some p"
  shows "\<exists>y. document p = Some y \<and>
    ctx_bind_addr (po_context opts) = or_else (yaml_text y ''bind-addr'') ''0.0.0.0:50050'' \<and>
    ctx_advertise_addr (po_context opts) = or_else (yaml_text y ''advertise-addr'') (ctx_bind_addr (po_context opts)) \<and>
    ctx_join_addr (po_context opts) = or_else (yaml_text y ''join-addr'') [] \<and>
    ctx_bind_addr (po_context opts) \<noteq> ctx_join_addr (po_context opts)"
proof -
  obtain ctx where ctx: "load_config Y (document p) u = Returns ctx"
    "ctx_join_addr (po_context opts) = ctx_join_addr ctx" "ctx_bind_addr (po_context opts) = ctx_bind_addr ctx"
    "ctx_advertise_addr (po_context opts) = ctx_advertise_addr ctx"
    using options_with_config [OF assms] by blast
  obtain y where "document p = Some y" "read_context Y y (default_context u) = Returns ctx"
    "ctx_bind_addr ctx \<noteq> ctx_join_addr ctx"
    using load_config_reads [OF ctx(1)] by blast
  then show ?thesis
    using read_context_addresses [of Y y "default_context u" ctx] ctx by (simp add: default_context_def)
qed

theorem config_discards_command_line_witness:
  "\<exists>opts. parse_program_options (\<lambda>p. load_config no_conversions (example_document p) 7) 7 example_line = Goes_on opts \<and>
    cl_join example_line = Some ''b:1'' \<and> cl_advertise example_line = Some ''a:1'' \<and>
    ctx_join_addr (po_context opts) = [] \<and> ctx_advertise_addr (po_context opts) = ''ipv4:10.0.0.1:5001''"
proof -
  obtain opts where "parse_program_options (\<lambda>p. load_config no_conversions (example_document p) 7) 7 example_line = Goes_on opts"
    using example_line_starts by blast
  then show ?thesis
    using config_discards_command_line [of no_conversions example_document 7 7 example_line opts "''c.yml''"]
    by (auto simp: example_line_def example_document_def or_else_def yaml_text_def)
qed

text \<open>The program never sends the command that moves a file, although the process it controls
  would run it: \<open>main\<close> ends with success, in every state, without any effect.\<close>

lemma move_command_is_dropped:
  assumes "po_commands opts = c # args" "c \<in> {''mov'', ''mv''}" "\<forall>a\<in>set args. a \<noteq> [] \<and> CHR '' '' \<notin> set a"
  shows "node_main call opts s = Some (Returns (Exits 0), s) \<and>
    parse_command R P E me (command_text (po_commands opts)) = handle_mov P E me (po_commands opts)"
proof -
  have "tokens_of (command_text (po_commands opts)) = po_commands opts"
    using assms unfolding command_text_def by (intro tokens_of_line) auto
  then show ?thesis
    using assms by (auto simp: node_main_def supported_commands_def ret_def parse_command_def)
qed

text \<open>C39: In the settings of every configuration file that loads, each pointer of a logger leads to a
  sink of the same settings, although the file may name others, and each pointer to a formatter
  that was set leads to a formatter of them.  The pointer of a sink for which the file names no
  formatter it has is never set.  So the factory finds one sink for each pointer of a logger.\<close>

theorem loaded_loggers_have_their_sinks:
  assumes "load_config Y document u = Returns ctx" and "map_of (log_loggers (ctx_logging ctx)) k = Some g"
  shows "(\<forall>s\<in>set (logger_sinks g). \<exists>conf. map_of (log_sinks (ctx_logging ctx)) s = Some conf \<and>
      (case sink_formatter conf of
         Uninitialised \<Rightarrow> True
       | To f \<Rightarrow> \<exists>fmt. follow (To f) (log_formatters (ctx_logging ctx)) = Returns fmt)) \<and>
    sinks_of (ctx_logging ctx) g = map (the \<circ> map_of (log_sinks (ctx_logging ctx))) (logger_sinks g)"
proof -
  have ok: "pointers_ok (ctx_logging ctx)" using assms(1) by (rule load_config_pointers)
  then have sinks: "map_of (log_sinks (ctx_logging ctx)) s \<noteq> None" if "s \<in> set (logger_sinks g)" for s
    using assms(2) that unfolding pointers_ok_def by blast
  have set: "\<exists>fmt. follow (To f) (log_formatters (ctx_logging ctx)) = Returns fmt"
    if pointer: "map_of (log_sinks (ctx_logging ctx)) s = Some conf" "sink_formatter conf = To f" for s conf f
  proof -
    obtain fmt where "map_of (log_formatters (ctx_logging ctx)) f = Some fmt"
      using ok pointer unfolding pointers_ok_def by blast
    then show ?thesis by (simp add: follow_def)
  qed
  have "\<exists>conf. map_of (log_sinks (ctx_logging ctx)) s = Some conf \<and>
      (case sink_formatter conf of Uninitialised \<Rightarrow> True
       | To f \<Rightarrow> \<exists>fmt. follow (To f) (log_formatters (ctx_logging ctx)) = Returns fmt)"
    if "s \<in> set (logger_sinks g)" for s
  proof -
    obtain conf where "map_of (log_sinks (ctx_logging ctx)) s = Some conf"
      using sinks [OF \<open>s \<in> set (logger_sinks g)\<close>] by blast
    then show ?thesis using set by (cases "sink_formatter conf") auto
  qed
  then show ?thesis using sinks_of_all [OF sinks] by blast
qed

theorem loaded_loggers_have_their_sinks_witness:
  "\<exists>ctx g. load_config no_conversions (Some logging_document) 7 = Returns ctx \<and>
    map_of (log_loggers (ctx_logging ctx)) ''MYLOG'' = Some g \<and> logger_sinks g = [''CONS'', ''PLAIN''] \<and>
    sinks_of (ctx_logging ctx) g = [default_sink\<lparr>sink_formatter := To ''FMT''\<rparr>, default_sink]"
proof -
  obtain ctx g where loaded: "load_config no_conversions (Some logging_document) 7 = Returns ctx"
    "map_of (log_loggers (ctx_logging ctx)) ''MYLOG'' = Some g" "logger_sinks g = [''CONS'', ''PLAIN'']"
    "map_of (log_sinks (ctx_logging ctx)) ''CONS'' = Some (default_sink\<lparr>sink_formatter := To ''FMT''\<rparr>)"
    "map_of (log_sinks (ctx_logging ctx)) ''PLAIN'' = Some default_sink"
    using logging_document_loads by blast
  then show ?thesis using loaded_loggers_have_their_sinks [OF loaded(1,2)] by auto
qed

text \<open>C36: A name that the filters of two loggers match cannot be logged under at first: the loop goes
  on after the first match and registers the second logger under the name of the first, which
  throws.  The first stays registered, so that asking again succeeds.\<close>

theorem overlapping_filters_throw:
  assumes "map_of (log_registry w) name = None" and "loggers_ready search l name w"
    and "map_of (log_loggers l) j = Some g" "search (logger_filter g) name = Some True"
    and "map_of (log_loggers l) k = Some h" "search (logger_filter h) name = Some True" and "j \<noteq> k"
  shows "\<exists>w' made. get_or_create level search l name w = Some (Throws Std_exception, w') \<and>
    get_or_create level search l name w' = Some (Returns made, w')"
proof -
  obtain first second others where "matching search name (log_loggers l) = first # second # others"
    using matching_two [where search = search and name = name, OF map_of_SomeD [OF assms(3)] map_of_SomeD [OF assms(5)]
        assms(7,4,6)] by blast
  then have "get_or_create level search l name w = Some (Throws Std_exception,
      w\<lparr>log_registry := (name, made_logger level l first) # log_registry w\<rparr>)"
    using get_or_create_new [OF assms(1,2)] by (simp add: Let_def)
  then show ?thesis by (intro exI conjI) (assumption, rule get_or_create_again, simp)
qed

theorem overlapping_filters_throw_witness:
  "\<exists>w'. get_or_create (\<lambda>t. t) prefix_search overlapping ''chord.router'' quiet = Some (Throws Std_exception, w')"
proof -
  have "loggers_ready prefix_search overlapping ''chord.router'' quiet"
    by (simp add: overlapping_def prefix_search_def loggers_ready_def sinks_of_def List.map_filter_def
        sink_ready_def default_sink_def default_logger_def)
  then show ?thesis
    using overlapping_filters_throw [where w = quiet and name = "''chord.router''" and search = prefix_search
        and l = overlapping and j = "''MYLOG''" and k = "''OTHER''" and level = "\<lambda>t. t"
        and g = "default_logger\<lparr>logger_sinks := [''CONS'']\<rparr>"
        and h = "default_logger\<lparr>logger_filter := ''chord.'', logger_level := ''trace''\<rparr>"]
    by (simp add: quiet_def overlapping_def prefix_search_def default_logger_def) blast
qed

section \<open>The scheduler\<close>

text \<open>C20: Whatever the threads do, every task that was scheduled is either pending or has started
  exactly once, and none starts before its time.\<close>

theorem scheduler_accounts_for_tasks:
  assumes "sched_step\<^sup>*\<^sup>* (new_scheduler n now) s"
  shows "mset (scheduled s) = mset (sched_tasks s) + mset (map fst (started s)) \<and>
    (\<forall>(t, at)\<in>set (started s). due t \<le> at)"
  using reachable_accounted [OF assms] by (simp add: accounted_def)

theorem scheduler_accounts_for_tasks_witness:
  "mset (scheduled (last (late_run 1 2))) = mset (sched_tasks (last (late_run 1 2)))"
  using scheduler_accounts_for_tasks [OF late_run_reaches [of 1 2]] by (simp add: late_run_started)

text \<open>C13: A function that is scheduled to run periodically starts twice, not more: at most twice in any
  state, and exactly twice once nothing is pending and no thread runs a task.  The wrapper that
  should schedule it again and again puts the function itself into the queue.\<close>

theorem periodic_task_starts_twice:
  assumes "sched_step\<^sup>*\<^sup>* (new_scheduler n now) s" "filter (\<lambda>r. fun_of r = f) (requested s) = [Every interval f]"
  shows "starts f s \<le> 2 \<and>
    (sched_tasks s = [] \<and> (\<forall>th\<in>set (sched_threads s). \<forall>t. th \<noteq> Running t) \<longrightarrow> starts f s = 2)"
proof -
  have total: "starts f s + left f s = 2"
    using reachable_balanced [OF assms(1), of f] assms(2) owed_filter [of f "requested s"]
    by (simp add: balanced_def owed_def)
  moreover have "left f s = 0" if "sched_tasks s = []" "\<forall>th\<in>set (sched_threads s). \<forall>t. th \<noteq> Running t"
  proof -
    have "owed_after f th = 0" if "th \<in> set (sched_threads s)" for th
      using \<open>\<forall>th\<in>set (sched_threads s). \<forall>t. th \<noteq> Running t\<close> that by (cases th) auto
    then show ?thesis using that(1) by (simp add: left_def)
  qed
  ultimately show ?thesis by auto
qed

theorem periodic_task_starts_twice_witness: "starts 7 (last (twice_run 7)) = 2"
  using periodic_task_starts_twice [OF twice_run_reaches, of 7 7 10] by (simp add: twice_run_last)

text \<open>C14: As long as nobody stopped the scheduler, a pending task is never forgotten: some thread is
  about to look at the queue, runs a task after which it looks, or waits with a time limit.\<close>

theorem pending_task_is_watched:
  assumes "sched_step\<^sup>*\<^sup>* (new_scheduler n now) s" "0 < n" "\<not> sched_stop s" "sched_tasks s \<noteq> []"
  shows "\<exists>th\<in>set (sched_threads s). th = Ready \<or> (\<exists>t. th = Running t) \<or> (\<exists>d b. th = Waits_task d b)"
proof -
  have "watched s" using reachable_watched [OF assms(1,2)] .
  then obtain th where th: "th \<in> set (sched_threads s)" "th \<noteq> Waits_queue" "th \<noteq> Ended"
    using assms(3,4) by (auto simp: watched_def active_def)
  then have "th = Ready \<or> (\<exists>t. th = Running t) \<or> (\<exists>d b. th = Waits_task d b)" by (cases th rule: thread.exhaust) simp_all
  then show ?thesis using th(1) by blast
qed

theorem pending_task_is_watched_witness:
  "\<exists>th\<in>set (sched_threads (last (late_run 1 2))). th = Ready \<or> (\<exists>t. th = Running t) \<or> (\<exists>d b. th = Waits_task d b)"
  using pending_task_is_watched [OF late_run_reaches [of 1 2]] by (simp add: late_run_last)

text \<open>C40: A task can be late although a thread is free: a notification of a task that is due earlier
  than the one a thread waits for reaches a thread that waits for the queue, which goes back to
  waiting, and the time limit of the first stays what it was.\<close>

theorem earlier_task_can_be_late:
  "\<exists>s t. sched_step\<^sup>*\<^sup>* (new_scheduler 2 0) s \<and> is_top t s \<and> due t = 20 \<and> sched_now s = 50 \<and>
    \<not> sched_stop s \<and> sched_threads s = [Waits_task 100 False, Waits_queue]"
  by (intro exI [of _ "last (late_run 1 2)"] exI [of _ "\<lparr>due = 20, job_of = Once 2\<rparr>"] conjI late_run_reaches)
    (simp_all add: late_run_last is_top_def)

section \<open>Identifiers\<close>

text \<open>C30: The identifier a peer draws for itself is never a number of 256 random bits: the generated
  characters lie between 0 and 127, so every eighth bit is zero and all peers share one half of
  the ring.\<close>

theorem random_identifier_in_lower_half:
  assumes "length cs = 32" "\<forall>c\<in>set cs. c < 128"
  shows "ctx_uuid (default_context (uuid_random cs)) < 2 ^ 255 \<and>
    (\<forall>i. i mod 8 = 7 \<longrightarrow> \<not> bit (ctx_uuid (default_context (uuid_random cs))) i)"
  using uuid_random_bit [OF assms] uuid_random_less [OF assms] by (simp add: default_context_def)

theorem random_identifier_in_lower_half_witness:
  "ctx_uuid (default_context (uuid_random (replicate 32 127))) < 2 ^ 255"
  using random_identifier_in_lower_half [of "replicate 32 127"] by simp

end
